(* ===== verification/FR_Go.thy ===== *)
theory FR_Go
  imports Main "HOL-Library.Word" "HOL-Library.Multiset"
begin

section \<open>The Go runtime as the model sees it\<close>

text \<open>
  Shared ground of the development: machine integers, errors and panics as values, the
  outcome of running a goroutine, the state-passing embedding of statement sequences and of
  \<open>for { ... }\<close> loops, weakest preconditions for them, buffered channels and the few
  conversions of the standard library the sources use.

  A piece of Go code that works on a state of type \<open>'s\<close> and yields an \<open>'a\<close> is a function
  \<open>'s \<Rightarrow> ('a result \<times> 's) option\<close>. \<open>None\<close> means that the code never stops (a loop that
  spins forever); \<open>Blocked\<close> that the goroutine is parked on a channel or a queue that nobody
  serves at this moment; \<open>Panicked\<close> that a run-time panic unwinds; \<open>Return\<close> that it
  returned.
\<close>

named_theorems go_simps \<open>unfolding of the embedding's primitives\<close>
named_theorems wp_simps \<open>weakest (liberal) preconditions of the statement forms\<close>

subsection \<open>Machine integers, strings and bytes\<close>

type_synonym uint8 = "8 word"
type_synonym uint16 = "16 word"
type_synonym uint32 = "32 word"
type_synonym uint64 = "64 word"
type_synonym int64 = "64 word"
type_synonym duration = int64
type_synonym byte = uint8
type_synonym bytes = "byte list"

text \<open>\<^verbatim>\<open>time.Millisecond\<close> and \<^verbatim>\<open>time.Second\<close> are numbers of nanoseconds in an int64.\<close>

definition Millisecond :: duration where
  "Millisecond = 1000000"

definition Second :: duration where
  "Second = 1000000000"

text \<open>\<^verbatim>\<open>time.Duration(n) * unit\<close> for a uint32 \<open>n\<close>: conversion to int64, wrapping product.\<close>

definition Duration :: "uint32 \<Rightarrow> duration \<Rightarrow> duration" where
  "Duration n unit = ucast n * unit"

text \<open>\<^verbatim>\<open>strconv.FormatUint(n, 10)\<close>.\<close>

definition digit :: "nat \<Rightarrow> char" where
  "digit n = char_of (48 + n)"

fun decimal :: "nat \<Rightarrow> string" where
  "decimal n = (if n < 10 then [digit n] else decimal (n div 10) @ [digit (n mod 10)])"

declare decimal.simps [simp del]

definition FormatUint :: "uint64 \<Rightarrow> string" where
  "FormatUint n = decimal (unat n)"

text \<open>A Go string as the bytes it holds: \<^verbatim>\<open>[]byte(s)\<close>.\<close>

definition bytes_of_string :: "string \<Rightarrow> bytes" where
  "bytes_of_string s = map (\<lambda>c. of_nat (of_char c)) s"

subsection \<open>Errors, panics, outcomes\<close>

text \<open>
  \<^verbatim>\<open>*amqp.Error\<close> carries a reason and a code. The interface value \<open>error\<close> is a message built
  by \<^verbatim>\<open>errors.New\<close>/\<^verbatim>\<open>fmt.Errorf\<close>, a boxed \<^verbatim>\<open>*amqp.Error\<close> (whose pointer may be nil) or an error
  made by a library.
\<close>

record amqp_error =
  Reason :: string
  Code :: int

datatype goerror =
    ErrorString string
  | BoxedAmqpError "amqp_error option"
  | LibraryError string

datatype panic =
    NilDereference
  | IndexOutOfRange
  | SendOnClosedChannel
  | CloseOfClosedChannel
  | FailedTypeAssertion
  | AssignToNilMap
  | MakeSizeOutOfRange

datatype 'a result = Return 'a | Panicked panic | Blocked

type_synonym ('s, 'a) go = "'s \<Rightarrow> ('a result \<times> 's) option"

subsection \<open>Statement forms\<close>

definition ret :: "'a \<Rightarrow> ('s, 'a) go" where
  "ret a = (\<lambda>s. Some (Return a, s))"

definition bind_go :: "('s, 'a) go \<Rightarrow> ('a \<Rightarrow> ('s, 'b) go) \<Rightarrow> ('s, 'b) go" where
  "bind_go m f = (\<lambda>s. case m s of
       None \<Rightarrow> None
     | Some (r, s') \<Rightarrow>
         (case r of
            Return a \<Rightarrow> f a s'
          | Panicked p \<Rightarrow> Some (Panicked p, s')
          | Blocked \<Rightarrow> Some (Blocked, s')))"

definition gets_go :: "('s \<Rightarrow> 'a) \<Rightarrow> ('s, 'a) go" where
  "gets_go f = (\<lambda>s. Some (Return (f s), s))"

definition modify_go :: "('s \<Rightarrow> 's) \<Rightarrow> ('s, unit) go" where
  "modify_go f = (\<lambda>s. Some (Return (), f s))"

definition panic_go :: "panic \<Rightarrow> ('s, 'a) go" where
  "panic_go p = (\<lambda>s. Some (Panicked p, s))"

definition block_go :: "('s, 'a) go" where
  "block_go = (\<lambda>s. Some (Blocked, s))"

text \<open>\<^verbatim>\<open>defer func() { _ = recover() }()\<close> around a body: a panic ends the body only.\<close>

definition recover_go :: "('s, unit) go \<Rightarrow> ('s, unit) go" where
  "recover_go m = (\<lambda>s. case m s of
       None \<Rightarrow> None
     | Some (r, s') \<Rightarrow>
         (case r of
            Return u \<Rightarrow> Some (Return (), s')
          | Panicked p \<Rightarrow> Some (Return (), s')
          | Blocked \<Rightarrow> Some (Blocked, s')))"

text \<open>\<^verbatim>\<open>defer d()\<close> before a body: \<open>d\<close> runs when the body returns or panics; a panic of \<open>d\<close> replaces the outcome.\<close>

definition defer_go :: "('s, unit) go \<Rightarrow> ('s, 'a) go \<Rightarrow> ('s, 'a) go" where
  "defer_go d m = (\<lambda>s. case m s of
       None \<Rightarrow> None
     | Some (r, s') \<Rightarrow>
         (case r of
            Blocked \<Rightarrow> Some (Blocked, s')
          | _ \<Rightarrow> (case d s' of
              None \<Rightarrow> None
            | Some (e, s'') \<Rightarrow>
                (case e of
                   Return u \<Rightarrow> Some (r, s'')
                 | Panicked p \<Rightarrow> Some (Panicked p, s'')
                 | Blocked \<Rightarrow> Some (Blocked, s'')))))"

text \<open>
  \<^verbatim>\<open>for { body }\<close>: the body returns \<open>None\<close> to go round again (\<^verbatim>\<open>continue\<close>, falling off the
  end) and \<open>Some a\<close> to leave the loop with the value \<open>a\<close> (\<^verbatim>\<open>break\<close>, \<^verbatim>\<open>return\<close>).
\<close>

partial_function (option) forever :: "('s, 'a option) go \<Rightarrow> ('s, 'a) go" where
  "forever body s = (case body s of
       None \<Rightarrow> None
     | Some (r, s') \<Rightarrow>
         (case r of
            Return c \<Rightarrow> (case c of None \<Rightarrow> forever body s' | Some a \<Rightarrow> Some (Return a, s'))
          | Panicked p \<Rightarrow> Some (Panicked p, s')
          | Blocked \<Rightarrow> Some (Blocked, s')))"

lemmas go_prims = ret_def bind_go_def gets_go_def modify_go_def panic_go_def block_go_def

declare go_prims [go_simps]

subsection \<open>Weakest preconditions\<close>

text \<open>
  \<open>wlp m Q X s\<close>: if \<open>m\<close> stops in some way from \<open>s\<close>, then \<open>Q\<close> holds of the value and the
  state it returns, or \<open>X\<close> of the state in which it panicked (\<open>Some p\<close>) or blocked (\<open>None\<close>).
  \<open>wp m Q s\<close>: \<open>m\<close> does return from \<open>s\<close>, and \<open>Q\<close> holds then.
\<close>

fun settles :: "('a \<Rightarrow> 's \<Rightarrow> bool) \<Rightarrow> (panic option \<Rightarrow> 's \<Rightarrow> bool) \<Rightarrow> 'a result \<times> 's \<Rightarrow> bool" where
  "settles Q X (Return a, s) = Q a s"
| "settles Q X (Panicked p, s) = X (Some p) s"
| "settles Q X (Blocked, s) = X None s"

definition wlp :: "('s, 'a) go \<Rightarrow> ('a \<Rightarrow> 's \<Rightarrow> bool) \<Rightarrow> (panic option \<Rightarrow> 's \<Rightarrow> bool) \<Rightarrow> 's \<Rightarrow> bool" where
  "wlp m Q X s = (case m s of None \<Rightarrow> True | Some rt \<Rightarrow> settles Q X rt)"

definition wp :: "('s, 'a) go \<Rightarrow> ('a \<Rightarrow> 's \<Rightarrow> bool) \<Rightarrow> 's \<Rightarrow> bool" where
  "wp m Q s = (case m s of
       None \<Rightarrow> False
     | Some (r, s') \<Rightarrow> (case r of Return a \<Rightarrow> Q a s' | Panicked p \<Rightarrow> False | Blocked \<Rightarrow> False))"

lemma settles_mono:
  assumes "settles Q X rt" "\<And>a s. Q a s \<Longrightarrow> Q' a s" "\<And>p s. X p s \<Longrightarrow> X' p s"
  shows "settles Q' X' rt"
  using assms by (cases "(Q, X, rt)" rule: settles.cases) auto

lemma wlp_ret [wp_simps]: "wlp (ret a) Q X = Q a"
  by (simp add: fun_eq_iff wlp_def ret_def)

lemma wlp_bind [wp_simps]: "wlp (bind_go m f) Q X = wlp m (\<lambda>a. wlp (f a) Q X) X"
  by (auto simp: fun_eq_iff wlp_def bind_go_def split: option.splits result.splits)

lemma wlp_gets [wp_simps]: "wlp (gets_go f) Q X s = Q (f s) s"
  by (simp add: wlp_def gets_go_def)

lemma wlp_modify [wp_simps]: "wlp (modify_go f) Q X s = Q () (f s)"
  by (simp add: wlp_def modify_go_def)

lemma wlp_panic [wp_simps]: "wlp (panic_go p) Q X s = X (Some p) s"
  by (simp add: wlp_def panic_go_def)

lemma wlp_block [wp_simps]: "wlp block_go Q X s = X None s"
  by (simp add: wlp_def block_go_def)

lemma wp_ret [wp_simps]: "wp (ret a) Q = Q a"
  by (simp add: fun_eq_iff wp_def ret_def)

lemma wp_bind [wp_simps]: "wp (bind_go m f) Q = wp m (\<lambda>a. wp (f a) Q)"
  by (simp add: fun_eq_iff wp_def bind_go_def split: option.splits result.splits prod.splits)

lemma wp_gets [wp_simps]: "wp (gets_go f) Q s = Q (f s) s"
  by (simp add: wp_def gets_go_def)

lemma wp_modify [wp_simps]: "wp (modify_go f) Q s = Q () (f s)"
  by (simp add: wp_def modify_go_def)

lemma wp_panic [wp_simps]: "wp (panic_go p) Q s = False"
  by (simp add: wp_def panic_go_def)

lemma wp_block [wp_simps]: "wp block_go Q s = False"
  by (simp add: wp_def block_go_def)

lemma wlp_if [wp_simps]:
  "wlp (if b then m else n) Q X s = (if b then wlp m Q X s else wlp n Q X s)"
  by simp

lemma wp_if [wp_simps]: "wp (if b then m else n) Q s = (if b then wp m Q s else wp n Q s)"
  by simp

lemma wlp_mono:
  assumes "wlp m Q X s" "\<And>a s. Q a s \<Longrightarrow> Q' a s" "\<And>p s. X p s \<Longrightarrow> X' p s"
  shows "wlp m Q' X' s"
  using assms by (auto simp: wlp_def split: option.splits elim: settles_mono)

lemma wp_mono:
  assumes "wp m Q s" "\<And>a s. Q a s \<Longrightarrow> Q' a s"
  shows "wp m Q' s"
  using assms by (auto simp: wp_def split: option.splits result.splits)

lemma wlp_seq:
  assumes "wlp m R X s" "\<And>a t. R a t \<Longrightarrow> wlp (f a) Q X t"
  shows "wlp (bind_go m f) Q X s"
  using assms by (auto simp: wlp_bind elim: wlp_mono)

lemma wp_seq:
  assumes "wp m R s" "\<And>a t. R a t \<Longrightarrow> wp (f a) Q t"
  shows "wp (bind_go m f) Q s"
  using assms by (auto simp: wp_bind elim: wp_mono)

lemma wp_iff: "wp m Q s \<longleftrightarrow> (\<exists>a s'. m s = Some (Return a, s') \<and> Q a s')"
  by (auto simp: wp_def split: option.splits result.splits)

lemma wlp_iff:
  "wlp m Q X s \<longleftrightarrow> (\<forall>rt. m s = Some rt \<longrightarrow> settles Q X rt)"
  by (auto simp: wlp_def split: option.splits)

lemma wp_imp_wlp: "wp m Q s \<Longrightarrow> wlp m Q X s"
  by (auto simp: wp_iff wlp_iff)

lemma wp_conj: "wp m Q s \<Longrightarrow> wlp m R X s \<Longrightarrow> wp m (\<lambda>a t. Q a t \<and> R a t) s"
  by (auto simp: wp_iff wlp_iff)

lemma settles_conj:
  "settles (\<lambda>a t. Q a t \<and> R a t) (\<lambda>p t. X p t \<and> Y p t) rt \<longleftrightarrow> settles Q X rt \<and> settles R Y rt"
  by (cases "(Q, X, rt)" rule: settles.cases) auto

lemma wlp_conj:
  "wlp m Q X s \<Longrightarrow> wlp m R Y s \<Longrightarrow> wlp m (\<lambda>a t. Q a t \<and> R a t) (\<lambda>p t. X p t \<and> Y p t) s"
  by (auto simp: wlp_iff settles_conj)

lemma wlp_recover [wp_simps]:
  "wlp (recover_go m) Q X s =
     wlp m (\<lambda>_. Q ()) (\<lambda>p. case p of None \<Rightarrow> X None | Some _ \<Rightarrow> Q ()) s"
  by (auto simp: wlp_def recover_go_def split: option.splits result.splits)

lemma wlp_defer [wp_simps]:
  "wlp (defer_go d m) Q X s =
     wlp m (\<lambda>a. wlp d (\<lambda>_. Q a) X) (\<lambda>p. case p of None \<Rightarrow> X None | Some q \<Rightarrow> wlp d (\<lambda>_. X (Some q)) X) s"
  by (auto simp: wlp_def defer_go_def split: option.splits result.splits)

lemma wp_defer [wp_simps]: "wp (defer_go d m) Q s = wp m (\<lambda>a. wp d (\<lambda>_. Q a)) s"
  by (auto simp: wp_def defer_go_def split: option.splits result.splits)

lemma wp_recover: "wp m (\<lambda>_. Q ()) s \<Longrightarrow> wp (recover_go m) Q s"
  by (auto simp: wp_def recover_go_def split: option.splits result.splits)

text \<open>Loops: an invariant for partial correctness, a decreasing index for termination.\<close>

lemma forever_invariant:
  fixes body :: "('s, 'a option) go"
  assumes ret: "forever body s = Some rt" and "I s"
    and body: "\<And>s. I s \<Longrightarrow> wlp body (\<lambda>c s'. case c of None \<Rightarrow> I s' | Some a \<Rightarrow> Q a s') X s"
  shows "settles Q X rt"
proof -
  define P where "P = (\<lambda>b s rt. b = body \<longrightarrow> I s \<longrightarrow> settles Q X rt)"
  have "P body s rt"
  proof (rule forever.raw_induct [where P = P, OF _ ret])
    fix f :: "('s, 'a option) go \<Rightarrow> ('s, 'a) go" and b s rt
    assume IH: "\<And>b s rt. f b s = Some rt \<Longrightarrow> P b s rt"
      and eq: "(case b s of None \<Rightarrow> None | Some (r, s') \<Rightarrow> (case r of
            Return c \<Rightarrow> (case c of None \<Rightarrow> f b s' | Some a \<Rightarrow> Some (Return a, s'))
          | Panicked p \<Rightarrow> Some (Panicked p, s') | Blocked \<Rightarrow> Some (Blocked, s'))) = Some rt"
    show "P b s rt"
      unfolding P_def
    proof (intro impI)
      assume "b = body" and "I s"
      with body have "wlp b (\<lambda>c s'. case c of None \<Rightarrow> I s' | Some a \<Rightarrow> Q a s') X s"
        by simp
      with eq IH [unfolded P_def] \<open>b = body\<close> show "settles Q X rt"
        by (cases rt) (auto simp: wlp_def split: option.splits result.splits)
    qed
  qed
  with assms(2) show ?thesis by (simp add: P_def)
qed

lemma wlp_forever:
  assumes "I s"
    and "\<And>s. I s \<Longrightarrow> wlp body (\<lambda>c s'. case c of None \<Rightarrow> I s' | Some a \<Rightarrow> Q a s') X s"
  shows "wlp (forever body) Q X s"
  unfolding wlp_iff using forever_invariant [OF _ assms] by blast

lemma forever_diverges:
  assumes "D s" and "\<And>s. D s \<Longrightarrow> \<exists>s'. body s = Some (Return None, s') \<and> D s'"
  shows "forever body s = None"
proof (rule ccontr)
  assume "forever body s \<noteq> None"
  moreover have "wlp (forever body) (\<lambda>_ _. False) (\<lambda>_ _. False) s"
    by (rule wlp_forever [where I = D]) (use assms in \<open>fastforce simp: wlp_def\<close>)+
  ultimately show False
    by (auto simp: wlp_def elim: settles.elims)
qed

lemma wp_forever:
  fixes n :: nat
  assumes "I n s"
    and "\<And>n s. I n s \<Longrightarrow> wp body (\<lambda>c s'. case c of None \<Rightarrow> \<exists>m<n. I m s' | Some a \<Rightarrow> Q a s') s"
  shows "wp (forever body) Q s"
  using assms(1)
proof (induction n arbitrary: s rule: less_induct)
  case (less n)
  from assms(2) [OF less.prems] obtain c s' where b: "body s = Some (Return c, s')"
    and c: "case c of None \<Rightarrow> \<exists>m<n. I m s' | Some a \<Rightarrow> Q a s'"
    by (auto simp: wp_iff)
  show ?case
  proof (cases c)
    case None
    with c obtain m where "m < n" "I m s'" by auto
    then have "wp (forever body) Q s'" by (rule less.IH)
    with b None show ?thesis by (simp add: wp_def forever.simps [of body s])
  next
    case (Some a)
    with b c show ?thesis by (simp add: wp_def forever.simps [of body s])
  qed
qed

text \<open>A loop whose body breaks at once, or goes round once more.\<close>

lemma forever_break: "body s = Some (Return (Some a), t) \<Longrightarrow> forever body s = Some (Return a, t)"
  by (simp add: forever.simps)

lemma forever_continue: "body s = Some (Return None, t) \<Longrightarrow> forever body s = forever body t"
  by (simp add: forever.simps [of body s])

text \<open>Sequencing is associative, with \<open>ret\<close> as its unit; nothing is required of code that is not looked at.\<close>

lemma bind_assoc: "bind_go (bind_go m f) g = bind_go m (\<lambda>a. bind_go (f a) g)"
  by (auto simp: bind_go_def fun_eq_iff split: option.splits result.splits)

lemma bind_ret: "bind_go (ret a) f = f a" "bind_go m ret = m"
  by (auto simp: bind_go_def ret_def fun_eq_iff split: option.splits result.splits)

lemma wlp_True:
  fixes m :: "('s, 'a) go"
  shows "wlp m (\<lambda>_ _. True) (\<lambda>_ _. True) s"
proof -
  have "settles (\<lambda>_ _. True) (\<lambda>_ _. True) (r, t)" for r :: "'a result" and t :: 's
    by (cases r) simp_all
  then show ?thesis by (auto simp: wlp_iff)
qed

subsection \<open>Lists, sums and multisets\<close>

text \<open>Sums over a list and what they become when one element changes; the values present in a list of options.\<close>

lemma sum_list_step:
  fixes f :: "'a \<Rightarrow> 'b::comm_monoid_add"
  shows "i < length xs \<Longrightarrow> (\<Sum>x\<leftarrow>xs[i := y]. f x) + f (xs ! i) = (\<Sum>x\<leftarrow>xs. f x) + f y"
proof (induction xs arbitrary: i)
  case (Cons a xs)
  then show ?case by (cases i) (auto simp: add.assoc add.left_commute add.commute)
qed simp

definition somes :: "'a option list \<Rightarrow> 'a list" where
  "somes xs = List.map_filter (\<lambda>x. x) xs"

lemma somes_simps [simp]: "somes [] = []" "somes (None # xs) = somes xs" "somes (Some x # xs) = x # somes xs"
  "somes (xs @ ys) = somes xs @ somes ys"
  by (simp_all add: somes_def List.map_filter_def)

lemma in_somes [simp]: "x \<in> set (somes xs) \<longleftrightarrow> Some x \<in> set xs"
  by (force simp: somes_def List.map_filter_def)

lemma nth_update_proj: "f y = f (xs ! l) \<Longrightarrow> f (xs[l := y] ! n) = f (xs ! n)"
  by (cases "l < length xs"; cases "n = l") (simp_all add: list_update_beyond)

lemma nth_map_update: "i < length xs \<Longrightarrow> f y = f (xs ! i) \<Longrightarrow> map f (xs[i := y]) = map f xs"
  by (simp add: map_update list_update_same_conv)

lemma length_filter_sum: "length (filter P xs) = (\<Sum>x\<leftarrow>xs. if P x then 1 else 0)"
  by (induction xs) simp_all

lemma swap_sums:
  fixes a :: "'a multiset"
  assumes "h' + w = h + w'" "a' + w' = a + w"
  shows "a' + h' = a + h"
proof (rule multiset_eqI)
  fix x
  show "count (a' + h') x = count (a + h) x"
    using arg_cong [OF assms(1), of "\<lambda>m. count m x"] arg_cong [OF assms(2), of "\<lambda>m. count m x"] by simp
qed

lemma elem_le_sum_list: "x \<in> set xs \<Longrightarrow> f x \<subseteq># (\<Sum>x\<leftarrow>xs. f x)"
  by (induction xs) (auto intro: subset_mset.order_trans)

subsection \<open>Transition systems with an invariant\<close>

text \<open>
  The state machines of the development (pool sessions, the auto publisher, the consumer loop)
  share one contract: the initial states satisfy the invariant and every step keeps it.
\<close>

locale invariant_system =
  fixes start :: "'s \<Rightarrow> bool"
    and move :: "'s \<Rightarrow> 's \<Rightarrow> bool"
    and inv :: "'s \<Rightarrow> bool"
  assumes start_inv: "start s \<Longrightarrow> inv s"
    and move_inv: "inv s \<Longrightarrow> move s t \<Longrightarrow> inv t"
begin

lemma moves_inv: "move\<^sup>*\<^sup>* s t \<Longrightarrow> inv s \<Longrightarrow> inv t"
  by (induction rule: rtranclp_induct) (auto intro: move_inv)

lemma reachable_inv: "start s \<Longrightarrow> move\<^sup>*\<^sup>* s t \<Longrightarrow> inv t"
  by (auto intro: moves_inv start_inv)

end

end
