(* ===== verification/FR_Chan.thy ===== *)
theory FR_Chan
  imports FR_Go
begin

section \<open>Buffered channels\<close>

text \<open>
  \<^verbatim>\<open>chan T\<close> made with a capacity: the buffer in arrival order, the capacity, the closed flag.
  One goroutine's view of the three operations: a send appends, parks on a full buffer and
  panics on a closed channel; a receive takes the oldest element, yields the zero value of a
  closed and drained channel at once, and parks on an open empty one. \<^verbatim>\<open>select\<close> with a
  \<^verbatim>\<open>default\<close> branch turns a receive that would park into the default branch.
\<close>

record 'a gochan =
  ch_buf :: "'a list"
  ch_cap :: nat
  ch_closed :: bool

datatype 'a received = Received 'a | ZeroValue | WouldBlock

definition make_chan :: "nat \<Rightarrow> 'a gochan" where
  "make_chan n = \<lparr>ch_buf = [], ch_cap = n, ch_closed = False\<rparr>"

definition chan_send :: "'a \<Rightarrow> 'a gochan \<Rightarrow> 'a gochan result" where
  "chan_send x c =
     (if ch_closed c then Panicked SendOnClosedChannel
      else if length (ch_buf c) < ch_cap c then Return (c\<lparr>ch_buf := ch_buf c @ [x]\<rparr>)
      else Blocked)"

definition chan_recv :: "'a gochan \<Rightarrow> 'a received \<times> 'a gochan" where
  "chan_recv c = (case ch_buf c of
       x # xs \<Rightarrow> (Received x, c\<lparr>ch_buf := xs\<rparr>)
     | [] \<Rightarrow> ((if ch_closed c then ZeroValue else WouldBlock), c))"

definition chan_close :: "'a gochan \<Rightarrow> 'a gochan result" where
  "chan_close c =
     (if ch_closed c then Panicked CloseOfClosedChannel else Return (c\<lparr>ch_closed := True\<rparr>))"

definition chan_ok :: "'a gochan \<Rightarrow> bool" where
  "chan_ok c \<longleftrightarrow> length (ch_buf c) \<le> ch_cap c"

text \<open>A sequence of operations: the values accepted by sends and the values handed out.\<close>

datatype 'a chan_op = OpSend 'a | OpRecv

fun chan_run ::
  "('a \<Rightarrow> 'c \<Rightarrow> 'c result) \<Rightarrow> ('c \<Rightarrow> 'a received \<times> 'c) \<Rightarrow> 'a chan_op list \<Rightarrow> 'c
     \<Rightarrow> 'a list \<times> 'a list \<times> 'c" where
  "chan_run snd_op rcv_op [] c = ([], [], c)"
| "chan_run snd_op rcv_op (OpSend x # ops) c =
     (case snd_op x c of
        Return c' \<Rightarrow> (let (a, r, d) = chan_run snd_op rcv_op ops c' in (x # a, r, d))
      | Panicked p \<Rightarrow> chan_run snd_op rcv_op ops c
      | Blocked \<Rightarrow> chan_run snd_op rcv_op ops c)"
| "chan_run snd_op rcv_op (OpRecv # ops) c =
     (case rcv_op c of
        (Received x, c') \<Rightarrow> (let (a, r, d) = chan_run snd_op rcv_op ops c' in (a, x # r, d))
      | (_, c') \<Rightarrow> chan_run snd_op rcv_op ops c')"

subsection \<open>The contract of a bounded FIFO\<close>

text \<open>
  What the components rely on when they hand work over a channel: the content grows at its end
  by exactly the accepted value, shrinks at its front by exactly the value handed out, stays as
  it is otherwise, and never exceeds the capacity.
\<close>

locale bounded_fifo =
  fixes contents :: "'c \<Rightarrow> 'a list"
    and capacity :: "'c \<Rightarrow> nat"
    and snd_op :: "'a \<Rightarrow> 'c \<Rightarrow> 'c result"
    and rcv_op :: "'c \<Rightarrow> 'a received \<times> 'c"
  assumes send_appends: "snd_op x c = Return c' \<Longrightarrow> contents c' = contents c @ [x]"
    and send_room: "snd_op x c = Return c' \<Longrightarrow> length (contents c) < capacity c"
    and send_capacity: "snd_op x c = Return c' \<Longrightarrow> capacity c' = capacity c"
    and recv_takes: "rcv_op c = (Received x, c') \<Longrightarrow> contents c = x # contents c'"
    and recv_idle: "rcv_op c = (r, c') \<Longrightarrow> r = ZeroValue \<or> r = WouldBlock \<Longrightarrow> contents c' = contents c"
    and recv_capacity: "rcv_op c = (r, c') \<Longrightarrow> capacity c' = capacity c"
begin

lemma run_fifo:
  "chan_run snd_op rcv_op ops c = (a, r, d) \<Longrightarrow> contents c @ a = r @ contents d"
proof (induction ops arbitrary: c a r d)
  case Nil
  then show ?case by simp
next
  case (Cons op ops)
  show ?case
  proof (cases op)
    case (OpSend x)
    with Cons.prems Cons.IH show ?thesis
      by (fastforce split: result.splits prod.splits dest: send_appends)
  next
    case OpRecv
    obtain g c' where g: "rcv_op c = (g, c')" by (cases "rcv_op c")
    with OpRecv Cons.prems Cons.IH show ?thesis
      by (cases g) (fastforce split: prod.splits dest: recv_takes recv_idle)+
  qed
qed

lemma recv_length: "rcv_op c = (g, c') \<Longrightarrow> length (contents c') \<le> length (contents c)"
  by (cases g) (use recv_takes recv_idle in auto)

lemma run_bounded:
  "chan_run snd_op rcv_op ops c = (a, r, d) \<Longrightarrow> length (contents c) \<le> capacity c \<Longrightarrow>
     length (contents d) \<le> capacity d \<and> capacity d = capacity c"
proof (induction ops arbitrary: c a r d)
  case Nil
  then show ?case by simp
next
  case (Cons op ops)
  show ?case
  proof (cases op)
    case (OpSend x)
    show ?thesis
    proof (cases "snd_op x c")
      case (Return c')
      then have c': "length (contents c') \<le> capacity c'" "capacity c' = capacity c"
        using send_appends [OF Return] send_room [OF Return] send_capacity [OF Return] by simp_all
      obtain a' r' where "chan_run snd_op rcv_op ops c' = (a', r', d)"
        using OpSend Return Cons.prems(1) by (auto split: prod.splits)
      from Cons.IH [OF this c'(1)] c'(2) show ?thesis by simp
    qed (use OpSend Cons.prems Cons.IH in fastforce)+
  next
    case OpRecv
    obtain g c' where g: "rcv_op c = (g, c')" by (cases "rcv_op c")
    have c': "length (contents c') \<le> capacity c'" "capacity c' = capacity c"
      using Cons.prems(2) recv_capacity [OF g] recv_length [OF g] by simp_all
    obtain a' r' where "chan_run snd_op rcv_op ops c' = (a', r', d)"
      using OpRecv g Cons.prems(1) by (cases g) (auto split: prod.splits)
    from Cons.IH [OF this c'(1)] c'(2) show ?thesis by simp
  qed
qed

end

interpretation gc: bounded_fifo ch_buf ch_cap chan_send chan_recv
  by unfold_locales
    (auto simp: chan_send_def chan_recv_def split: if_splits list.splits)

lemma chan_recv_Nil [simp]:
  "ch_buf c = [] \<Longrightarrow> chan_recv c = ((if ch_closed c then ZeroValue else WouldBlock), c)"
  by (simp add: chan_recv_def)

lemma chan_recv_Cons [simp]:
  "ch_buf c = x # xs \<Longrightarrow> chan_recv c = (Received x, c\<lparr>ch_buf := xs\<rparr>)"
  by (simp add: chan_recv_def)

lemma make_chan_sel [simp]:
  "ch_buf (make_chan n) = []" "ch_cap (make_chan n) = n" "\<not> ch_closed (make_chan n)"
  by (simp_all add: make_chan_def)

lemma chan_recv_cases:
  obtains (got) x xs where "ch_buf c = x # xs" "chan_recv c = (Received x, c\<lparr>ch_buf := xs\<rparr>)"
  | (zero) "ch_buf c = []" "ch_closed c" "chan_recv c = (ZeroValue, c)"
  | (wait) "ch_buf c = []" "\<not> ch_closed c" "chan_recv c = (WouldBlock, c)"
  by (cases "ch_buf c"; cases "ch_closed c") auto

lemma chan_send_ok: "chan_ok c \<Longrightarrow> chan_send x c = Return c' \<Longrightarrow> chan_ok c'"
  by (auto simp: chan_ok_def chan_send_def split: if_splits)

lemma chan_recv_ok: "chan_ok c \<Longrightarrow> chan_ok (snd (chan_recv c))"
  by (rule chan_recv_cases [of c]) (auto simp: chan_ok_def)

subsection \<open>Channels that are fields of a state\<close>

text \<open>
  A channel reached through a getter and a setter. \<open>recv_field\<close> is the receive of a \<^verbatim>\<open>select\<close>,
  \<open>flush_field\<close> the idiom the sources repeat for every internal buffer:
  \<^verbatim>\<open>for { select { case <-c: default: break loop } }\<close>.
\<close>

definition recv_field ::
  "('s \<Rightarrow> 'a gochan) \<Rightarrow> ('a gochan \<Rightarrow> 's \<Rightarrow> 's) \<Rightarrow> ('s, 'a received) go" where
  "recv_field get put = (\<lambda>s. let (r, c) = chan_recv (get s) in Some (Return r, put c s))"

definition send_field ::
  "('s \<Rightarrow> 'a gochan) \<Rightarrow> ('a gochan \<Rightarrow> 's \<Rightarrow> 's) \<Rightarrow> 'a \<Rightarrow> ('s, unit) go" where
  "send_field get put x = (\<lambda>s. case chan_send x (get s) of
       Return c \<Rightarrow> Some (Return (), put c s)
     | Panicked p \<Rightarrow> Some (Panicked p, s)
     | Blocked \<Rightarrow> Some (Blocked, s))"

definition flush_field ::
  "('s \<Rightarrow> 'a gochan) \<Rightarrow> ('a gochan \<Rightarrow> 's \<Rightarrow> 's) \<Rightarrow> ('s, unit) go" where
  "flush_field get put = forever (bind_go (recv_field get put) (\<lambda>r.
       case r of WouldBlock \<Rightarrow> ret (Some ()) | Received x \<Rightarrow> ret None | ZeroValue \<Rightarrow> ret None))"

locale chan_field =
  fixes get :: "'s \<Rightarrow> 'a gochan"
    and put :: "'a gochan \<Rightarrow> 's \<Rightarrow> 's"
  assumes get_put [simp]: "get (put c s) = c"
    and put_get [simp]: "put (get s) s = s"
    and put_put [simp]: "put c (put d s) = put c s"
begin

lemma put_empty_self: "ch_buf (get s) = [] \<Longrightarrow> put ((get s)\<lparr>ch_buf := []\<rparr>) s = s"
  by (metis gochan.surjective gochan.update_convs(1) put_get)

lemma flush_open:
  "\<not> ch_closed (get s) \<Longrightarrow>
     flush_field get put s = Some (Return (), put ((get s)\<lparr>ch_buf := []\<rparr>) s)"
proof (induction "ch_buf (get s)" arbitrary: s)
  case Nil
  then show ?case
    unfolding flush_field_def
    by (subst forever_break [where a = "()" and t = s])
      (simp_all add: recv_field_def go_prims put_empty_self)
next
  case (Cons x xs)
  let ?s = "put ((get s)\<lparr>ch_buf := xs\<rparr>) s"
  have "flush_field get put s = flush_field get put ?s"
    unfolding flush_field_def using Cons.hyps(2)
    by (subst forever_continue [where t = ?s])
      (simp_all add: recv_field_def go_prims chan_recv_Cons [OF sym])
  also have "\<dots> = Some (Return (), put ((get ?s)\<lparr>ch_buf := []\<rparr>) ?s)"
    by (rule Cons.hyps(1)) (use Cons.prems in simp_all)
  finally show ?case by simp
qed

lemma flush_closed: "ch_closed (get s) \<Longrightarrow> flush_field get put s = None"
  unfolding flush_field_def
  by (rule forever_diverges [where D = "\<lambda>s. ch_closed (get s)"])
    (auto simp: recv_field_def go_prims chan_recv_def split: list.splits)

end

lemma wlp_send_field [wp_simps]:
  "wlp (send_field get put x) Q X s = (case chan_send x (get s) of
      Return c \<Rightarrow> Q () (put c s) | Panicked p \<Rightarrow> X (Some p) s | Blocked \<Rightarrow> X None s)"
  by (simp add: wlp_def send_field_def split: result.splits)

lemma wp_send_field [wp_simps]:
  "wp (send_field get put x) Q s = (case chan_send x (get s) of
      Return c \<Rightarrow> Q () (put c s) | Panicked p \<Rightarrow> False | Blocked \<Rightarrow> False)"
  by (simp add: wp_def send_field_def split: result.splits)

lemma wlp_recv [wp_simps]:
  "wlp (recv_field get put) Q X s = Q (fst (chan_recv (get s))) (put (snd (chan_recv (get s))) s)"
  by (simp add: wlp_def recv_field_def split: prod.splits)

lemma wp_recv [wp_simps]:
  "wp (recv_field get put) Q s = Q (fst (chan_recv (get s))) (put (snd (chan_recv (get s))) s)"
  by (simp add: wp_def recv_field_def split: prod.splits)

subsection \<open>Numbers as text, durations\<close>

definition undecimal :: "string \<Rightarrow> nat" where
  "undecimal = foldl (\<lambda>acc c. 10 * acc + (of_char c - 48)) 0"

lemma of_char_digit: "n < 10 \<Longrightarrow> of_char (digit n) = 48 + n"
  by (simp add: digit_def of_char_of take_bit_eq_mod)

lemma undecimal_decimal: "undecimal (decimal n) = n"
proof (induction n rule: decimal.induct)
  case (1 n)
  then show ?case
    by (subst decimal.simps) (auto simp: undecimal_def of_char_digit)
qed

lemma decimal_inj: "decimal m = decimal n \<longleftrightarrow> m = n"
  by (metis undecimal_decimal)

lemma FormatUint_inj: "FormatUint m = FormatUint n \<longleftrightarrow> m = n"
  by (simp add: FormatUint_def decimal_inj word_unat_eq_iff)

lemma sint_small:
  fixes x :: int
  assumes "0 \<le> x" and "x < 9223372036854775808"
  shows "sint (word_of_int x :: int64) = x"
  using assms by (simp add: signed_of_int signed_take_bit_int_eq_self)

lemma sint_mult_small:
  fixes n :: uint32 and k :: nat
  assumes "k \<le> 1000000000"
  shows "sint (ucast n * of_nat k :: int64) = uint n * int k"
proof -
  have n: "uint n < 4294967296" using uint_lt2p [of n] by simp
  have "uint n * int k \<le> 4294967296 * 1000000000"
    using n assms by (intro mult_mono) auto
  then have "sint (word_of_int (uint n * int k) :: int64) = uint n * int k"
    by (intro sint_small) auto
  moreover have "(ucast n * of_nat k :: int64) = word_of_int (uint n * int k)"
    by (simp add: of_int_mult)
  ultimately show ?thesis by (simp only:)
qed

text \<open>The two units the sources multiply configuration values by never overflow an int64.\<close>

lemma sint_Duration_Second: "sint (Duration n Second) = uint n * 1000000000"
  using sint_mult_small [of 1000000000 n] by (simp add: Duration_def Second_def)

lemma sint_Duration_Millisecond: "sint (Duration n Millisecond) = uint n * 1000000"
  using sint_mult_small [of 1000000 n] by (simp add: Duration_def Millisecond_def)

lemma Duration_Millisecond_pos: "0 <s Duration n Millisecond \<longleftrightarrow> n \<noteq> 0"
  by (simp add: word_sless_alt sint_Duration_Millisecond word_neq_0_conv word_less_def)

end
