(* ===== verification/FR_Time.thy ===== *)
theory FR_Time
  imports FR_Chan
begin

section \<open>Timestamps (internal/utils/json/json.go)\<close>

text \<open>
  \<^verbatim>\<open>time.Time\<close> as its instant (seconds since the Unix epoch) and the offset of its location in
  seconds east of UTC; \<^verbatim>\<open>Format(time.RFC3339)\<close> prints the wall clock of that location, then \<open>Z\<close>
  for offset zero and the signed offset otherwise. Below, \<open>UtcTimestamp\<close> and
  \<open>UtcTimestampFromTime\<close> are the two functions of the source.
\<close>

record gotime =
  unix_sec :: int
  zone_offset :: int

definition UTC :: "gotime \<Rightarrow> gotime" where
  "UTC t = t\<lparr>zone_offset := 0\<rparr>"

text \<open>Proleptic Gregorian date of a day number (day 0 is 1970-01-01).\<close>

definition civil_date :: "int \<Rightarrow> int \<times> int \<times> int" where
  "civil_date days =
     (let z = days + 719468;
          era = z div 146097;
          doe = z mod 146097;
          yoe = (doe - doe div 1460 + doe div 36524 - doe div 146096) div 365;
          doy = doe - (365 * yoe + yoe div 4 - yoe div 100);
          mp = (5 * doy + 2) div 153;
          d = doy - (153 * mp + 2) div 5 + 1;
          m = (if mp < 10 then mp + 3 else mp - 9);
          y = yoe + era * 400 + (if m \<le> 2 then 1 else 0)
      in (y, m, d))"

text \<open>The standard library's \<^verbatim>\<open>appendInt\<close>: a sign for negative numbers, zero padding to a width.\<close>

definition append_int :: "int \<Rightarrow> nat \<Rightarrow> string" where
  "append_int x width =
     (let u = decimal (nat \<bar>x\<bar>)
      in (if x < 0 then ''-'' else []) @ replicate (width - length u) (CHR ''0'') @ u)"

definition format_zone :: "int \<Rightarrow> string" where
  "format_zone offset =
     (if offset = 0 then ''Z''
      else let zone = sgn offset * (\<bar>offset\<bar> div 60)
           in (if zone < 0 then ''-'' else ''+'') @ append_int (\<bar>zone\<bar> div 60) 2 @ '':''
              @ append_int (\<bar>zone\<bar> mod 60) 2)"

definition Format_RFC3339 :: "gotime \<Rightarrow> string" where
  "Format_RFC3339 t =
     (let l = unix_sec t + zone_offset t;
          (y, mo, d) = civil_date (l div 86400);
          r = l mod 86400
      in append_int y 4 @ ''-'' @ append_int mo 2 @ ''-'' @ append_int d 2 @ ''T''
         @ append_int (r div 3600) 2 @ '':'' @ append_int (r div 60 mod 60) 2 @ '':''
         @ append_int (r mod 60) 2 @ format_zone (zone_offset t))"

definition UtcTimestamp :: "gotime \<Rightarrow> string" where
  "UtcTimestamp now = Format_RFC3339 (UTC now)"

definition UtcTimestampFromTime :: "gotime \<Rightarrow> string" where
  "UtcTimestampFromTime t = Format_RFC3339 t"

subsection \<open>What the two functions print\<close>

lemma decimal_nonempty: "decimal n \<noteq> []"
  by (subst decimal.simps) simp

lemma last_decimal: "last (decimal n) = digit (n mod 10)"
  by (subst decimal.simps) simp

lemma digit_not_Z: "n < 10 \<Longrightarrow> digit n \<noteq> CHR ''Z''"
proof
  assume n: "n < 10" and "digit n = CHR ''Z''"
  then have "of_char (digit n) = (of_char (CHR ''Z'') :: nat)" by simp
  with n show False by (simp add: of_char_digit)
qed

lemma last_append_int: "append_int x w \<noteq> [] \<and> last (append_int x w) \<noteq> CHR ''Z''"
  by (simp add: append_int_def Let_def decimal_nonempty last_decimal digit_not_Z)

lemma last_format_zone: "format_zone z \<noteq> [] \<and> (last (format_zone z) = CHR ''Z'' \<longleftrightarrow> z = 0)"
  using last_append_int [of "\<bar>sgn z * (\<bar>z\<bar> div 60)\<bar> mod 60" 2]
  by (auto simp: format_zone_def Let_def)

lemma last_Format: "last (Format_RFC3339 t) = CHR ''Z'' \<longleftrightarrow> zone_offset t = 0"
  using last_format_zone [of "zone_offset t"]
  by (simp add: Format_RFC3339_def Let_def split: prod.splits)

lemma UTC_id: "zone_offset t = 0 \<Longrightarrow> UTC t = t"
  by (simp add: UTC_def)

lemma epoch_text: "UtcTimestamp \<lparr>unix_sec = 0, zone_offset = 3600\<rparr> = ''1970-01-01T00:00:00Z''"
  by code_simp

lemma leap_day_text:
  "UtcTimestamp \<lparr>unix_sec = 1709210096, zone_offset = 0\<rparr> = ''2024-02-29T12:34:56Z''"
  by code_simp

end
