(* ===== verification/FR_Env.thy ===== *)
theory FR_Env
  imports FR_Time
begin

section \<open>What is outside the repository\<close>

text \<open>
  The broker, the AMQP client library, the file system, the clock and the scheduler are a
  parameter of the model: a record \<open>'w env\<close> of operations over an opaque world \<open>'w\<close>. Every call
  takes the world and returns the next one, so consecutive calls may answer differently and
  connections may drop at any moment. \<open>feed_Errors\<close>, \<open>feed_Blockers\<close> and \<open>feed_ChanErrors\<close> are
  the asynchronous side of the library: what it has pushed onto a notification channel
  (\<^verbatim>\<open>NotifyClose\<close>, \<^verbatim>\<open>NotifyBlocked\<close>) since the channel was last looked at.
  Connections and AMQP channels are opaque handles. A second record holds the operations of the
  queue package the connection pool is built on.
\<close>

type_synonym conn = nat
type_synonym achan = nat
type_synonym cert = bytes
type_synonym 'w handler = "goerror \<Rightarrow> 'w \<Rightarrow> 'w"

text \<open>Values of \<^verbatim>\<open>interface{}\<close> in a table, and \<^verbatim>\<open>amqp.Table\<close> / \<^verbatim>\<open>map[string]interface{}\<close>; a nil map is \<open>None\<close> of \<open>table option\<close>.\<close>

datatype gvalue = GString string | GInt int | GBool bool | GOpaque nat

type_synonym table = "string \<Rightarrow> gvalue option"

record tls_Config =
  RootCAs :: "cert list"
  Certificates :: "cert list"

record amqp_Config =
  cfg_Heartbeat :: duration
  cfg_DialTimeout :: duration
  cfg_TLS :: "tls_Config option"
  cfg_connection_name :: string

record amqp_Blocking =
  Active :: bool
  BlockReason :: string

record amqp_Publishing =
  pm_ContentType :: string
  pm_Body :: bytes
  pm_Headers :: "table option"
  pm_DeliveryMode :: uint8
  pm_Priority :: uint8
  pm_MessageId :: string
  pm_CorrelationId :: string
  pm_Type :: string
  pm_Timestamp :: gotime
  pm_AppId :: string

record amqp_Delivery =
  d_Acknowledger :: "achan option"
  d_DeliveryTag :: uint64
  d_MessageId :: string
  d_AppId :: string
  d_Timestamp :: gotime
  d_Body :: bytes

text \<open>Synchronous topology and acknowledgement methods of an AMQP channel, with their arguments.\<close>

datatype amqp_cmd =
    ExchangeDeclare string string bool bool bool bool "table option"
  | ExchangeDeclarePassive string string bool bool bool bool "table option"
  | ExchangeBindCmd string string string bool "table option"
  | ExchangeDeleteCmd string bool bool
  | ExchangeUnbindCmd string string string bool "table option"
  | QueueDeclare string bool bool bool bool "table option"
  | QueueDeclarePassive string bool bool bool bool "table option"
  | QueueDeleteCmd string bool bool bool
  | QueueBindCmd string string string bool "table option"
  | QueuePurge string bool
  | QueueUnbind string string string "table option"
  | AckCmd uint64 bool
  | NackCmd uint64 bool bool
  | RejectCmd uint64 bool
  | QosCmd int int bool

text \<open>The branch a \<^verbatim>\<open>select\<close> over context, timer and confirmation takes.\<close>

datatype confirm_event = CtxDone | TimedOut | ConfirmDone

record 'w env =
  DialConfig :: "string \<Rightarrow> amqp_Config \<Rightarrow> 'w \<Rightarrow> (goerror + conn) \<times> 'w"
  Conn_IsClosed :: "conn \<Rightarrow> 'w \<Rightarrow> bool \<times> 'w"
  Conn_Close :: "conn \<Rightarrow> 'w \<Rightarrow> 'w"
  Conn_NotifyClose :: "conn \<Rightarrow> 'w \<Rightarrow> 'w"
  Conn_NotifyBlocked :: "conn \<Rightarrow> 'w \<Rightarrow> 'w"
  feed_Errors :: "conn \<Rightarrow> amqp_error gochan \<Rightarrow> 'w \<Rightarrow> amqp_error gochan \<times> 'w"
  feed_Blockers :: "conn \<Rightarrow> amqp_Blocking gochan \<Rightarrow> 'w \<Rightarrow> amqp_Blocking gochan \<times> 'w"
  Conn_Channel :: "conn \<Rightarrow> 'w \<Rightarrow> (achan option \<times> goerror option) \<times> 'w"
  Chan_Confirm :: "achan \<Rightarrow> bool \<Rightarrow> 'w \<Rightarrow> goerror option \<times> 'w"
  Chan_NotifyClose :: "achan \<Rightarrow> 'w \<Rightarrow> 'w"
  feed_ChanErrors :: "achan \<Rightarrow> amqp_error gochan \<Rightarrow> 'w \<Rightarrow> amqp_error gochan \<times> 'w"
  Chan_Close :: "achan \<Rightarrow> 'w \<Rightarrow> 'w"
  Chan_Publish ::
    "achan \<Rightarrow> nat \<Rightarrow> string \<Rightarrow> string \<Rightarrow> bool \<Rightarrow> bool \<Rightarrow> amqp_Publishing \<Rightarrow> 'w \<Rightarrow> goerror option \<times> 'w"
  Chan_PublishDeferred ::
    "achan \<Rightarrow> nat \<Rightarrow> string \<Rightarrow> string \<Rightarrow> bool \<Rightarrow> bool \<Rightarrow> amqp_Publishing \<Rightarrow> 'w
       \<Rightarrow> (nat option \<times> goerror option) \<times> 'w"
  Select_Confirm :: "nat \<Rightarrow> nat \<Rightarrow> duration \<Rightarrow> 'w \<Rightarrow> confirm_event \<times> 'w"
  Conf_Acked :: "nat \<Rightarrow> 'w \<Rightarrow> bool \<times> 'w"
  Chan_Call :: "achan \<Rightarrow> amqp_cmd \<Rightarrow> 'w \<Rightarrow> (int64 \<times> goerror option) \<times> 'w"
  Chan_Get :: "achan \<Rightarrow> string \<Rightarrow> bool \<Rightarrow> 'w \<Rightarrow> (amqp_Delivery \<times> bool \<times> goerror option) \<times> 'w"
  Chan_Consume ::
    "achan \<Rightarrow> string \<Rightarrow> string \<Rightarrow> bool \<Rightarrow> bool \<Rightarrow> bool \<Rightarrow> bool \<Rightarrow> 'w \<Rightarrow> goerror option \<times> 'w"
  time_Sleep :: "duration \<Rightarrow> 'w \<Rightarrow> 'w"
  time_Now :: "'w \<Rightarrow> gotime \<times> 'w"
  os_ReadFile :: "string \<Rightarrow> 'w \<Rightarrow> (goerror + bytes) \<times> 'w"
  os_Hostname :: "'w \<Rightarrow> (goerror + string) \<times> 'w"
  LoadX509KeyPair :: "string \<Rightarrow> string \<Rightarrow> 'w \<Rightarrow> (goerror + cert) \<times> 'w"
  ParsePEM :: "bytes \<Rightarrow> cert list"
  uuid_New :: "'w \<Rightarrow> uint64 \<times> 'w"
  uuid_String :: "uint64 \<Rightarrow> string"

text \<open>
  The queue of the pool (\<^verbatim>\<open>Workiva/go-datastructures/queue\<close>): items are interface values, here a
  pointer to a connection host or something else. \<open>qNew\<close> takes the capacity to start with and may
  panic, \<open>qGet\<close> parks on an empty queue.
\<close>

datatype qitem = QConnHost nat | QOther

record 'q queue_ops =
  qNew :: "int64 \<Rightarrow> 'q result"
  qPut :: "qitem \<Rightarrow> 'q \<Rightarrow> goerror option \<times> 'q"
  qGet :: "int64 \<Rightarrow> 'q \<Rightarrow> ((goerror + qitem list) \<times> 'q) result"
  qLen :: "'q \<Rightarrow> int64"
  qEmpty :: "'q \<Rightarrow> bool"

record 'w base_st =
  world :: 'w

definition env_call :: "('w \<Rightarrow> 'a \<times> 'w) \<Rightarrow> (('w, 'x) base_st_scheme, 'a) go" where
  "env_call f = (\<lambda>s. Some (Return (fst (f (world s))), s\<lparr>world := snd (f (world s))\<rparr>))"

definition env_do :: "('w \<Rightarrow> 'w) \<Rightarrow> (('w, 'x) base_st_scheme, unit) go" where
  "env_do f = (\<lambda>s. Some (Return (), s\<lparr>world := f (world s)\<rparr>))"

text \<open>\<^verbatim>\<open>if interval > 0 { time.Sleep(interval) }\<close>.\<close>

definition sleep_if_positive :: "('w, 'e) env_scheme \<Rightarrow> duration \<Rightarrow> (('w, 'x) base_st_scheme, unit) go" where
  "sleep_if_positive E d = (if 0 <s d then env_do (time_Sleep E d) else ret ())"

text \<open>\<^verbatim>\<open>if handler != nil { handler(err) }\<close>.\<close>

definition call_handler :: "'w handler option \<Rightarrow> goerror \<Rightarrow> (('w, 'x) base_st_scheme, unit) go" where
  "call_handler h e = (case h of None \<Rightarrow> ret () | Some f \<Rightarrow> env_do (f e))"

declare env_call_def [go_simps] env_do_def [go_simps] sleep_if_positive_def [go_simps]
  call_handler_def [go_simps]

lemma wlp_env_call [wp_simps]:
  "wlp (env_call f) Q X s = Q (fst (f (world s))) (s\<lparr>world := snd (f (world s))\<rparr>)"
  by (simp add: wlp_def env_call_def)

lemma wlp_env_do [wp_simps]: "wlp (env_do f) Q X s = Q () (s\<lparr>world := f (world s)\<rparr>)"
  by (simp add: wlp_def env_do_def)

lemma wp_env_call [wp_simps]:
  "wp (env_call f) Q s = Q (fst (f (world s))) (s\<lparr>world := snd (f (world s))\<rparr>)"
  by (simp add: wp_def env_call_def)

lemma wp_env_do [wp_simps]: "wp (env_do f) Q s = Q () (s\<lparr>world := f (world s)\<rparr>)"
  by (simp add: wp_def env_do_def)

text \<open>Two states that differ in the world only.\<close>

definition only_world :: "('w, 'x) base_st_scheme \<Rightarrow> ('w, 'x) base_st_scheme \<Rightarrow> bool" where
  "only_world s t \<longleftrightarrow> base_st.more t = base_st.more s"

lemma only_world_simps [simp]:
  "only_world s s" "only_world s (t\<lparr>world := w\<rparr>) = only_world s t" "only_world (s\<lparr>world := w\<rparr>) t = only_world s t"
  by (simp_all add: only_world_def)

lemma only_worldE:
  assumes "only_world s t"
  obtains w where "t = s\<lparr>world := w\<rparr>"
  using assms by (cases s; cases t) (simp add: only_world_def)

lemma only_world_trans: "only_world s t \<Longrightarrow> only_world t u \<Longrightarrow> only_world s u"
  by (simp add: only_world_def)

subsection \<open>Documented behaviour the code relies on\<close>

text \<open>
  A notification channel is only written by the library: it may append to an open channel and
  close it; nothing can be sent on a closed channel.
\<close>

definition feed_law :: "(nat \<Rightarrow> 'a gochan \<Rightarrow> 'w \<Rightarrow> 'a gochan \<times> 'w) \<Rightarrow> bool" where
  "feed_law f \<longleftrightarrow> (\<forall>p c w. ch_closed c \<longrightarrow> fst (f p c w) = c)"

text \<open>
  Sizes \<^verbatim>\<open>make\<close> accepts on a 64-bit platform: not negative, and no more than \<open>2 ^ 48\<close> bytes in all (16 per interface
  value of a slice; 8 per pointer of a channel, less the 96 of its header). Otherwise it panics.
\<close>

definition slice_fits :: "int64 \<Rightarrow> bool" where
  "slice_fits n \<longleftrightarrow> 0 \<le> sint n \<and> 16 * sint n \<le> 281474976710656"

definition chan_fits :: "uint64 \<Rightarrow> bool" where
  "chan_fits n \<longleftrightarrow> 8 * unat n \<le> 281474976710656 - 96"

text \<open>
  The queue is first in, first out, and never fails while it is not disposed. Its constructor allocates a
  slice of interface values with the given capacity. A get of at least one item parks on an empty queue.
\<close>

definition fifo_queue :: "'q queue_ops \<Rightarrow> ('q \<Rightarrow> qitem list) \<Rightarrow> bool" where
  "fifo_queue K items \<longleftrightarrow>
     (\<forall>n. slice_fits n \<longrightarrow> (\<exists>q. qNew K n = Return q \<and> items q = [])) \<and>
     (\<forall>n. \<not> slice_fits n \<longrightarrow> qNew K n = Panicked MakeSizeOutOfRange) \<and>
     (\<forall>x q. fst (qPut K x q) = None \<and> items (snd (qPut K x q)) = items q @ [x]) \<and>
     (\<forall>q n. items q = [] \<longrightarrow> 0 <s n \<longrightarrow> qGet K n q = Blocked) \<and>
     (\<forall>q n. items q \<noteq> [] \<longrightarrow> 0 <s n \<longrightarrow>
        (\<exists>q'. qGet K n q = Return (Inr (take (nat (sint n)) (items q)), q') \<and>
              items q' = drop (nat (sint n)) (items q))) \<and>
     (\<forall>q. qLen K q = of_nat (length (items q))) \<and>
     (\<forall>q. qEmpty K q \<longleftrightarrow> items q = [])"

text \<open>A list as a queue: the instance the witnesses use.\<close>

definition list_queue :: "qitem list queue_ops" where
  "list_queue =
     \<lparr>qNew = (\<lambda>n. if slice_fits n then Return [] else Panicked MakeSizeOutOfRange),
      qPut = (\<lambda>x q. (None, q @ [x])),
      qGet = (\<lambda>n q. if sint n \<le> 0 then Return (Inr [], q) else if q = [] then Blocked
                    else Return (Inr (take (nat (sint n)) q), drop (nat (sint n)) q)),
      qLen = (\<lambda>q. of_nat (length q)),
      qEmpty = (\<lambda>q. q = [])\<rparr>"

lemma list_queue_fifo: "fifo_queue list_queue (\<lambda>q. q)"
  by (simp add: fifo_queue_def list_queue_def word_sless_alt)

end
