(* ===== verification/FR_Config.thy ===== *)
theory FR_Config
  imports FR_Env
begin

section \<open>Configuration (configs.go)\<close>

text \<open>
  The configuration structs, field by field, and \<open>createTLSConfig\<close>. A pointer field that may be
  nil is an \<open>option\<close>. The topology structs are with the Topologer.
\<close>

record TLSConfig =
  EnableTLS :: bool
  PEMCertLocation :: string
  LocalCertLocation :: string
  CertServerName :: string

record PoolConfig =
  ApplicationName :: string
  pc_URI :: string
  Heartbeat :: uint32
  ConnectionTimeout :: uint32
  pc_SleepOnErrorInterval :: uint32
  MaxConnectionCount :: uint64
  MaxCacheChannelCount :: uint64
  pc_TLSConfig :: "TLSConfig option"

record ConsumerConfig =
  cc_QueueName :: string
  cc_ConsumerName :: string
  cc_AutoAck :: bool
  cc_Exclusive :: bool
  cc_NoWait :: bool
  cc_Args :: "table option"
  cc_QosCountOverride :: int
  cc_SleepOnErrorInterval :: uint32

record PublisherConfig =
  pb_AutoAck :: bool
  SleepOnIdleInterval :: uint32
  pb_SleepOnErrorInterval :: uint32
  PublishTimeOutInterval :: uint32
  MaxRetryCount :: uint16

record CompressionConfig =
  cmp_Enabled :: bool
  cmp_Type :: string

record EncryptionConfig =
  enc_Enabled :: bool
  enc_Type :: string
  Hashkey :: bytes
  TimeConsideration :: uint32
  MemoryMultiplier :: uint32
  Threads :: uint8

record RabbitSeasoning =
  rs_EncryptionConfig :: "EncryptionConfig option"
  rs_CompressionConfig :: "CompressionConfig option"
  rs_PoolConfig :: "PoolConfig option"
  rs_ConsumerConfigs :: "(string \<times> ConsumerConfig option) list"
  rs_PublisherConfig :: "PublisherConfig option"

text \<open>
  The certificate pool collects what \<^verbatim>\<open>AppendCertsFromPEM\<close> parses (its result is not looked at);
  the key pair is read with the local file as certificate and as key.
\<close>

definition createTLSConfig ::
  "('w, 'e) env_scheme \<Rightarrow> string \<Rightarrow> string
     \<Rightarrow> (('w, 'x) base_st_scheme, goerror + tls_Config) go" where
  "createTLSConfig E pemLocation localLocation =
     bind_go (env_call (os_ReadFile E pemLocation)) (\<lambda>ca. case ca of
       Inl err \<Rightarrow> ret (Inl err)
     | Inr pem \<Rightarrow>
         bind_go (env_call (LoadX509KeyPair E localLocation localLocation)) (\<lambda>kp. case kp of
           Inl err \<Rightarrow> ret (Inl err)
         | Inr crt \<Rightarrow> ret (Inr \<lparr>RootCAs = ParsePEM E pem, Certificates = [crt]\<rparr>)))"

lemma createTLSConfig_wlp:
  "(\<And>r w. Q r (s\<lparr>world := w\<rparr>)) \<Longrightarrow> wlp (createTLSConfig E pem loc) Q X s"
  by (auto simp: createTLSConfig_def wp_simps split: sum.splits)

lemma createTLSConfig_wp:
  "(\<And>r w. Q r (s\<lparr>world := w\<rparr>)) \<Longrightarrow> wp (createTLSConfig E pem loc) Q s"
  by (auto simp: createTLSConfig_def wp_simps split: sum.splits)

end
