(* ===== verification/FR_Compression.thy ===== *)
theory FR_Compression
  imports FR_Config
begin

section \<open>Compression (internal/utils/compression/compression.go)\<close>

text \<open>
  The two codecs are outside the repository: a record of what their writers and readers do. A
  \<^verbatim>\<open>*bytes.Buffer\<close> is the list of its unread bytes; a function that takes one returns the error and
  the buffer it leaves. Writers flush some bytes while they are written to and the rest on
  \<^verbatim>\<open>Close\<close>; a reader that fails leaves part of the buffer unread.
\<close>

record codec_lib =
  zstd_NewWriter :: "goerror option"
  zstd_Write :: "bytes \<Rightarrow> goerror option \<times> bytes"
  zstd_CloseWriter :: "bytes \<Rightarrow> goerror option \<times> bytes"
  zstd_NewReader :: "bytes \<Rightarrow> goerror option"
  zstd_ReadAll :: "bytes \<Rightarrow> goerror + bytes"
  gzip_Write :: "bytes \<Rightarrow> goerror option \<times> bytes"
  gzip_CloseWriter :: "bytes \<Rightarrow> goerror option \<times> bytes"
  gzip_NewReader :: "bytes \<Rightarrow> goerror option"
  gzip_ReadAll :: "bytes \<Rightarrow> goerror + bytes"
  gzip_CloseReader :: "bytes \<Rightarrow> goerror option"
  unread :: "bytes \<Rightarrow> bytes"

definition GzipType :: string where
  "GzipType = ''gzip''"

definition ZstdType :: string where
  "ZstdType = ''zstd''"

text \<open>If copying into the zstd writer fails, an error of the closing hides it.\<close>

definition compressWithZstd :: "codec_lib \<Rightarrow> bytes \<Rightarrow> bytes \<Rightarrow> goerror option \<times> bytes" where
  "compressWithZstd L data buffer = (case zstd_NewWriter L of
       Some err \<Rightarrow> (Some err, buffer)
     | None \<Rightarrow>
         (let (err, out) = zstd_Write L data; (closeErr, out2) = zstd_CloseWriter L data
          in case err of
               Some e \<Rightarrow> (case closeErr of Some ce \<Rightarrow> (Some ce, buffer @ out @ out2) | None \<Rightarrow> (Some e, buffer @ out @ out2))
             | None \<Rightarrow> (closeErr, buffer @ out @ out2)))"

definition decompressWithZstd :: "codec_lib \<Rightarrow> bytes \<Rightarrow> goerror option \<times> bytes" where
  "decompressWithZstd L buffer = (case zstd_NewReader L buffer of
       Some err \<Rightarrow> (Some err, unread L buffer)
     | None \<Rightarrow> (case zstd_ReadAll L buffer of
         Inl err \<Rightarrow> (Some err, unread L buffer)
       | Inr data \<Rightarrow> (None, data)))"

definition compressWithGzip :: "codec_lib \<Rightarrow> bytes \<Rightarrow> bytes \<Rightarrow> goerror option \<times> bytes" where
  "compressWithGzip L data buffer =
     (let (err, out) = gzip_Write L data
      in case err of
           Some e \<Rightarrow> (Some e, buffer @ out)
         | None \<Rightarrow>
             (let (closeErr, out2) = gzip_CloseWriter L data
              in case closeErr of
                   Some e \<Rightarrow> (Some e, buffer @ out @ out2)
                 | None \<Rightarrow> (None, buffer @ out @ out2)))"

definition decompressWithGzip :: "codec_lib \<Rightarrow> bytes \<Rightarrow> goerror option \<times> bytes" where
  "decompressWithGzip L buffer = (case gzip_NewReader L buffer of
       Some err \<Rightarrow> (Some err, unread L buffer)
     | None \<Rightarrow> (case gzip_ReadAll L buffer of
         Inl err \<Rightarrow> (Some err, unread L buffer)
       | Inr data \<Rightarrow> (case gzip_CloseReader L buffer of
           Some err \<Rightarrow> (Some err, unread L buffer)
         | None \<Rightarrow> (None, data))))"

text \<open>The switch: zstd by its name, everything else is gzip.\<close>

definition Compress :: "codec_lib \<Rightarrow> string \<Rightarrow> bytes \<Rightarrow> bytes \<Rightarrow> goerror option \<times> bytes" where
  "Compress L compressionType data buffer =
     (if compressionType = ZstdType then compressWithZstd L data buffer
      else compressWithGzip L data buffer)"

definition Decompress :: "codec_lib \<Rightarrow> string \<Rightarrow> bytes \<Rightarrow> goerror option \<times> bytes" where
  "Decompress L compressionType buffer =
     (if compressionType = ZstdType then decompressWithZstd L buffer
      else decompressWithGzip L buffer)"

subsection \<open>What the codecs promise\<close>

text \<open>
  Writing to memory succeeds and a reader on a complete stream yields what was written. A gzip
  stream always has its header and trailer. The zstd writer emits a frame only once it was given
  data: of the encoding of no data nothing is promised.
\<close>

definition gzip_law :: "codec_lib \<Rightarrow> bool" where
  "gzip_law L \<longleftrightarrow> (\<forall>d. fst (gzip_Write L d) = None \<and> fst (gzip_CloseWriter L d) = None \<and>
     (let z = snd (gzip_Write L d) @ snd (gzip_CloseWriter L d)
      in z \<noteq> [] \<and> gzip_NewReader L z = None \<and> gzip_ReadAll L z = Inr d \<and> gzip_CloseReader L z = None))"

definition zstd_law :: "codec_lib \<Rightarrow> bool" where
  "zstd_law L \<longleftrightarrow> zstd_NewWriter L = None \<and>
     (\<forall>d. d \<noteq> [] \<longrightarrow> fst (zstd_Write L d) = None \<and> fst (zstd_CloseWriter L d) = None \<and>
     (let z = snd (zstd_Write L d) @ snd (zstd_CloseWriter L d)
      in z \<noteq> [] \<and> zstd_NewReader L z = None \<and> zstd_ReadAll L z = Inr d))"

definition codec_law :: "codec_lib \<Rightarrow> bool" where
  "codec_law L \<longleftrightarrow> gzip_law L \<and> zstd_law L"

lemma Compress_law:
  assumes "codec_law L" "ty = ZstdType \<Longrightarrow> d \<noteq> []"
  shows "\<exists>z. z \<noteq> [] \<and> Compress L ty d [] = (None, z) \<and> Decompress L ty z = (None, d)"
proof (cases "ty = ZstdType")
  case True
  let ?z = "snd (zstd_Write L d) @ snd (zstd_CloseWriter L d)"
  have "?z \<noteq> []" "Compress L ty d [] = (None, ?z)" "Decompress L ty ?z = (None, d)"
    using assms True
    by (simp_all add: codec_law_def zstd_law_def Let_def Compress_def Decompress_def compressWithZstd_def
        decompressWithZstd_def case_prod_beta)
  then show ?thesis by blast
next
  case False
  let ?z = "snd (gzip_Write L d) @ snd (gzip_CloseWriter L d)"
  have "?z \<noteq> []" "Compress L ty d [] = (None, ?z)" "Decompress L ty ?z = (None, d)"
    using assms False
    by (simp_all add: codec_law_def gzip_law_def Let_def Compress_def Decompress_def compressWithGzip_def
        decompressWithGzip_def case_prod_beta)
  then show ?thesis by blast
qed

text \<open>
  A codec pair that keeps the laws: a one-byte header and the data, the header tells the format;
  the zstd writer writes nothing for no data.
\<close>

definition framed :: codec_lib where
  "framed = \<lparr>zstd_NewWriter = None, zstd_Write = (\<lambda>d. (None, if d = [] then [] else [40])), zstd_CloseWriter = (\<lambda>d. (None, d)),
     zstd_NewReader = (\<lambda>z. if z \<noteq> [] \<and> hd z = 40 then None else Some (LibraryError ''invalid input: magic number mismatch'')),
     zstd_ReadAll = (\<lambda>z. Inr (tl z)),
     gzip_Write = (\<lambda>d. (None, [31])), gzip_CloseWriter = (\<lambda>d. (None, d)),
     gzip_NewReader = (\<lambda>z. if z \<noteq> [] \<and> hd z = 31 then None else Some (LibraryError ''gzip: invalid header'')),
     gzip_ReadAll = (\<lambda>z. Inr (tl z)), gzip_CloseReader = (\<lambda>z. None), unread = (\<lambda>z. [])\<rparr>"

lemma framed_law: "codec_law framed"
  by (simp add: codec_law_def gzip_law_def zstd_law_def framed_def)

end
