(* ===== verification/FR_Crypto.thy ===== *)
theory FR_Crypto
  imports FR_Config
begin

section \<open>Encryption and key derivation (internal/utils/crypto/crypto.go)\<close>

text \<open>
  AES, GCM and Argon2 are outside the repository. A block cipher is determined by its key and an
  AEAD by key and nonce size, so their constructors are modelled by the error they report. The
  random source of one call is an argument: what \<^verbatim>\<open>io.ReadFull(rand.Reader, nonce)\<close> yields for a
  slice of the given length.
\<close>

record crypto_lib =
  aes_NewCipher :: "bytes \<Rightarrow> goerror option"
  NewGCMWithNonceSize :: "bytes \<Rightarrow> int \<Rightarrow> goerror option"
  gcm_Seal :: "bytes \<Rightarrow> bytes \<Rightarrow> bytes \<Rightarrow> bytes"
  gcm_Open :: "bytes \<Rightarrow> bytes \<Rightarrow> bytes \<Rightarrow> goerror + bytes"
  argon2_IDKey :: "bytes \<Rightarrow> bytes \<Rightarrow> uint32 \<Rightarrow> uint32 \<Rightarrow> uint8 \<Rightarrow> uint32 \<Rightarrow> bytes result"

type_synonym random_reader = "int \<Rightarrow> goerror + bytes"

definition defaultNonceSize :: int where
  "defaultNonceSize = 12"

definition AesSymmetricType :: string where
  "AesSymmetricType = ''aes''"

definition encryptWithAes ::
  "crypto_lib \<Rightarrow> random_reader \<Rightarrow> bytes \<Rightarrow> bytes \<Rightarrow> int \<Rightarrow> goerror + bytes" where
  "encryptWithAes L rd data hashedKey nonceSize =
     (if data = [] \<or> hashedKey = [] then Inl (ErrorString ''data or hash can't be zero length'')
      else
        (let nonceSize = (if nonceSize < 12 \<or> nonceSize > 32 then defaultNonceSize else nonceSize)
         in case aes_NewCipher L hashedKey of
              Some err \<Rightarrow> Inl err
            | None \<Rightarrow> (case NewGCMWithNonceSize L hashedKey nonceSize of
                Some err \<Rightarrow> Inl err
              | None \<Rightarrow> (case rd nonceSize of
                  Inl err \<Rightarrow> Inl err
                | Inr nonce \<Rightarrow>
                    (let cipherData = nonce @ gcm_Seal L hashedKey nonce data
                     in if cipherData = [] then Inl (ErrorString ''aes seal failed to generate encrypted data'')
                        else Inr cipherData)))))"

text \<open>
  The nonce size is not normalised here. Slicing is within bounds: the guard makes the data longer
  than the nonce, and the GCM constructor refuses nonce sizes that are not positive.
\<close>

definition decryptWithAes :: "crypto_lib \<Rightarrow> bytes \<Rightarrow> bytes \<Rightarrow> int \<Rightarrow> goerror + bytes" where
  "decryptWithAes L cipherDataWithNonce hashedKey nonceSize =
     (if cipherDataWithNonce = [] \<or> hashedKey = [] \<or> int (length cipherDataWithNonce) \<le> nonceSize then
        Inl (ErrorString ''cipherDataWithNonce or hash can't be zero length or cipherDataWithNonce can't be the same size as nonce'')
      else (case aes_NewCipher L hashedKey of
          Some err \<Rightarrow> Inl err
        | None \<Rightarrow> (case NewGCMWithNonceSize L hashedKey nonceSize of
            Some err \<Rightarrow> Inl err
          | None \<Rightarrow> gcm_Open L hashedKey (take (nat nonceSize) cipherDataWithNonce)
                     (drop (nat nonceSize) cipherDataWithNonce))))"

text \<open>The switch on the type has a single outcome: AES, also by default.\<close>

definition Encrypt ::
  "crypto_lib \<Rightarrow> random_reader \<Rightarrow> string \<Rightarrow> bytes \<Rightarrow> bytes \<Rightarrow> bytes \<Rightarrow> goerror option \<times> bytes" where
  "Encrypt L rd encryptionType hasKey data buffer =
     (case encryptWithAes L rd data hasKey 12 of
        Inl err \<Rightarrow> (Some err, buffer)
      | Inr data \<Rightarrow> (None, data))"

definition Decrypt :: "crypto_lib \<Rightarrow> string \<Rightarrow> bytes \<Rightarrow> bytes \<Rightarrow> goerror option \<times> bytes" where
  "Decrypt L encryptionType hasKey buffer =
     (case decryptWithAes L buffer hasKey 12 of
        Inl err \<Rightarrow> (Some err, buffer)
      | Inr data \<Rightarrow> (None, data))"

text \<open>\<open>None\<close> is the nil slice. The memory parameter is a wrapping product of uint32.\<close>

definition GetHashWithArgon ::
  "crypto_lib \<Rightarrow> string \<Rightarrow> string \<Rightarrow> uint32 \<Rightarrow> uint32 \<Rightarrow> uint8 \<Rightarrow> uint32 \<Rightarrow> bytes option result" where
  "GetHashWithArgon L passphrase salt timeConsideration multiplier threads hashLength =
     (if passphrase = [] \<or> salt = [] then Return None
      else
        (let timeConsideration = (if timeConsideration = 0 then 1 else timeConsideration);
             threads = (if threads = 0 then 1 else threads)
         in case argon2_IDKey L (bytes_of_string passphrase) (bytes_of_string salt) timeConsideration
                 (multiplier * 1024) threads hashLength of
              Return k \<Rightarrow> Return (Some k)
            | Panicked p \<Rightarrow> Panicked p
            | Blocked \<Rightarrow> Blocked))"

subsection \<open>What the cryptographic packages promise\<close>

text \<open>
  AES takes keys of 16, 24 or 32 bytes, GCM any positive nonce size; opening what was sealed under
  the same key and nonce gives the plaintext; a sealed text carries a 16-byte tag.
\<close>

definition aead_law :: "crypto_lib \<Rightarrow> bool" where
  "aead_law L \<longleftrightarrow>
     (\<forall>k. aes_NewCipher L k = None \<longleftrightarrow> length k \<in> {16, 24, 32}) \<and>
     (\<forall>k n. NewGCMWithNonceSize L k n = None \<longleftrightarrow> 0 < n) \<and>
     (\<forall>k n d. gcm_Open L k n (gcm_Seal L k n d) = Inr d) \<and>
     (\<forall>k n d. length (gcm_Seal L k n d) = length d + 16)"

text \<open>A full read fills the slice or fails.\<close>

definition reader_law :: "random_reader \<Rightarrow> bool" where
  "reader_law rd \<longleftrightarrow> (\<forall>n b. 0 \<le> n \<longrightarrow> rd n = Inr b \<longrightarrow> int (length b) = n)"

text \<open>Argon2 panics on zero passes or zero threads and otherwise returns a key of the asked length.\<close>

definition argon_law :: "crypto_lib \<Rightarrow> bool" where
  "argon_law L \<longleftrightarrow> (\<forall>p s t m th n. t \<noteq> 0 \<longrightarrow> th \<noteq> 0 \<longrightarrow>
     (\<exists>k. argon2_IDKey L p s t m th n = Return k \<and> length k = unat n))"

text \<open>The nonce size \<open>encryptWithAes\<close> really uses.\<close>

definition effectiveNonce :: "int \<Rightarrow> int" where
  "effectiveNonce n = (if n < 12 \<or> n > 32 then 12 else n)"

lemma effectiveNonce_range: "12 \<le> effectiveNonce n \<and> effectiveNonce n \<le> 32"
  by (simp add: effectiveNonce_def)

lemma encrypt_cases:
  assumes "aead_law L"
  shows "encryptWithAes L rd d k n =
    (if d = [] \<or> k = [] then Inl (ErrorString ''data or hash can't be zero length'')
     else if length k \<in> {16, 24, 32} then
       (case rd (effectiveNonce n) of Inl e \<Rightarrow> Inl e | Inr nonce \<Rightarrow> Inr (nonce @ gcm_Seal L k nonce d))
     else Inl (the (aes_NewCipher L k)))"
proof -
  have gcm: "NewGCMWithNonceSize L k (effectiveNonce n) = None"
    using assms effectiveNonce_range [of n] by (simp add: aead_law_def)
  have sealed: "gcm_Seal L k nonce d \<noteq> []" for nonce
  proof
    assume "gcm_Seal L k nonce d = []"
    moreover have "length (gcm_Seal L k nonce d) = length d + 16" using assms by (simp add: aead_law_def)
    ultimately show False by simp
  qed
  have aes: "aes_NewCipher L k = None \<longleftrightarrow> length k \<in> {16, 24, 32}"
    using assms unfolding aead_law_def by blast
  have eff: "(if n < 12 \<or> n > 32 then defaultNonceSize else n) = effectiveNonce n"
    by (simp add: defaultNonceSize_def effectiveNonce_def)
  show ?thesis
    unfolding encryptWithAes_def eff Let_def
    using gcm sealed aes by (cases "aes_NewCipher L k") (simp_all split: sum.splits)
qed

lemma decrypt_encrypt:
  assumes "aead_law L" "reader_law rd" "encryptWithAes L rd d k n = Inr z"
  shows "decryptWithAes L z k (effectiveNonce n) = Inr d"
proof -
  from assms(3) obtain nonce where k: "k \<noteq> []" "length k \<in> {16, 24, 32}"
    and rd: "rd (effectiveNonce n) = Inr nonce" and z: "z = nonce @ gcm_Seal L k nonce d"
    unfolding encrypt_cases [OF assms(1)] by (auto split: if_splits sum.splits)
  have len: "int (length nonce) = effectiveNonce n"
    using assms(2) rd effectiveNonce_range [of n] by (simp add: reader_law_def)
  have sl: "length (gcm_Seal L k nonce d) = length d + 16" using assms(1) by (simp add: aead_law_def)
  then have ne: "gcm_Seal L k nonce d \<noteq> []" by auto
  have aes: "aes_NewCipher L k = None" "NewGCMWithNonceSize L k (effectiveNonce n) = None"
    "gcm_Open L k nonce (gcm_Seal L k nonce d) = Inr d"
    using assms(1) k(2) effectiveNonce_range [of n] unfolding aead_law_def by auto
  have n: "nat (effectiveNonce n) = length nonce" using len by simp
  have "\<not> int (length z) \<le> effectiveNonce n" using z len sl by simp
  then show ?thesis
    using k(1) ne aes z n by (simp add: decryptWithAes_def)
qed

subsection \<open>Properties\<close>




subsection \<open>An instance\<close>

text \<open>Sealing appends a tag of sixteen zero bytes; opening checks and removes it.\<close>

definition tagging :: crypto_lib where
  "tagging = \<lparr>aes_NewCipher = (\<lambda>k. if length k \<in> {16, 24, 32} then None else Some (LibraryError ''invalid key size'')),
     NewGCMWithNonceSize = (\<lambda>k n. if 0 < n then None else Some (LibraryError ''nonce can't have zero length'')),
     gcm_Seal = (\<lambda>k n d. d @ replicate 16 0),
     gcm_Open = (\<lambda>k n c. if drop (length c - 16) c = replicate 16 0 then Inr (take (length c - 16) c)
                         else Inl (LibraryError ''message authentication failed'')),
     argon2_IDKey = (\<lambda>p s t m th n. if t = 0 \<or> th = 0 then Panicked IndexOutOfRange else Return (replicate (unat n) 7))\<rparr>"

lemma tagging_aead: "aead_law tagging"
  by (simp add: aead_law_def tagging_def)

lemma tagging_argon: "argon_law tagging"
  by (simp add: argon_law_def tagging_def)

definition zeros :: random_reader where
  "zeros n = Inr (replicate (nat n) 0)"

lemma zeros_law: "reader_law zeros"
  by (simp add: reader_law_def zeros_def)



end
