(* ===== verification/FR_Broker.thy ===== *)
theory FR_Broker
  imports FR_Env
begin

section \<open>A scripted broker\<close>

text \<open>
  A concrete environment the witnesses run against: a broker whose answers follow scripts. Dials
  follow \<open>dials\<close> (success once the script is used up), confirmations follow \<open>confirms\<close> and \<open>acks\<close>,
  publishing follows \<open>publishes\<close>, synchronous methods follow \<open>calls\<close>; connections stay open until they
  are closed; nothing is pushed onto notification channels. Everything published and every
  synchronous method, with its answer, is logged.
\<close>

record broker =
  dials :: "bool list"
  confirms :: "confirm_event list"
  acks :: "bool list"
  publishes :: "bool list"
  calls :: "(int64 \<times> goerror option) list"
  next_handle :: nat
  closed_conns :: "nat list"
  published :: "(string \<times> string \<times> amqp_Publishing) list"
  called :: "(amqp_cmd \<times> int64 \<times> goerror option) list"

definition refused :: goerror where
  "refused = LibraryError ''connection refused''"

definition next_of :: "'a \<Rightarrow> 'a list \<Rightarrow> 'a" where
  "next_of d xs = (case xs of [] \<Rightarrow> d | x # _ \<Rightarrow> x)"

lemma next_of_simps [simp]: "next_of d [] = d" "next_of d (x # xs) = x"
  by (simp_all add: next_of_def)

definition scripted :: "broker env" where
  "scripted = \<lparr>
     DialConfig = (\<lambda>u c w. if next_of True (dials w)
        then (Inr (next_handle w), w\<lparr>dials := tl (dials w), next_handle := Suc (next_handle w)\<rparr>)
        else (Inl refused, w\<lparr>dials := tl (dials w)\<rparr>)),
     Conn_IsClosed = (\<lambda>p w. (p \<in> set (closed_conns w), w)),
     Conn_Close = (\<lambda>p w. w\<lparr>closed_conns := p # closed_conns w\<rparr>),
     Conn_NotifyClose = (\<lambda>p w. w),
     Conn_NotifyBlocked = (\<lambda>p w. w),
     feed_Errors = (\<lambda>p c w. (c, w)),
     feed_Blockers = (\<lambda>p c w. (c, w)),
     Conn_Channel = (\<lambda>p w. ((Some (next_handle w), None), w\<lparr>next_handle := Suc (next_handle w)\<rparr>)),
     Chan_Confirm = (\<lambda>a b w. (None, w)),
     Chan_NotifyClose = (\<lambda>a w. w),
     feed_ChanErrors = (\<lambda>a c w. (c, w)),
     Chan_Close = (\<lambda>a w. w),
     Chan_Publish = (\<lambda>a c x k m i p w. if next_of True (publishes w)
        then (None, w\<lparr>publishes := tl (publishes w), published := published w @ [(x, k, p)]\<rparr>)
        else (Some refused, w\<lparr>publishes := tl (publishes w)\<rparr>)),
     Chan_PublishDeferred = (\<lambda>a c x k m i p w. if next_of True (publishes w)
        then ((Some (length (published w)), None),
              w\<lparr>publishes := tl (publishes w), published := published w @ [(x, k, p)]\<rparr>)
        else ((None, Some refused), w\<lparr>publishes := tl (publishes w)\<rparr>)),
     Select_Confirm = (\<lambda>c d t w. (next_of ConfirmDone (confirms w), w\<lparr>confirms := tl (confirms w)\<rparr>)),
     Conf_Acked = (\<lambda>d w. (next_of True (acks w), w\<lparr>acks := tl (acks w)\<rparr>)),
     Chan_Call = (\<lambda>a cmd w. (next_of (0, None) (calls w), w\<lparr>calls := tl (calls w), called := called w @ [(cmd, next_of (0, None) (calls w))]\<rparr>)),
     Chan_Get = (\<lambda>a q b w. ((\<lparr>d_Acknowledger = Some a, d_DeliveryTag = 0, d_MessageId = '''', d_AppId = '''',
        d_Timestamp = \<lparr>unix_sec = 0, zone_offset = 0\<rparr>, d_Body = []\<rparr>, False, None), w)),
     Chan_Consume = (\<lambda>a q n ack ex nl nw w. (None, w)),
     time_Sleep = (\<lambda>d w. w),
     time_Now = (\<lambda>w. (\<lparr>unix_sec = 0, zone_offset = 0\<rparr>, w)),
     os_ReadFile = (\<lambda>f w. (Inl (LibraryError ''no such file''), w)),
     os_Hostname = (\<lambda>w. (Inr ''host'', w)),
     LoadX509KeyPair = (\<lambda>a b w. (Inl (LibraryError ''no such file''), w)),
     ParsePEM = (\<lambda>b. []),
     uuid_New = (\<lambda>w. (of_nat (next_handle w), w\<lparr>next_handle := Suc (next_handle w)\<rparr>)),
     uuid_String = FormatUint\<rparr>"

definition calm :: broker where
  "calm = \<lparr>dials = [], confirms = [], acks = [], publishes = [], calls = [], next_handle = 0,
     closed_conns = [], published = [], called = []\<rparr>"

text \<open>A broker that is gone: every connection is closed, every dial is refused.\<close>

definition dead :: "broker env" where
  "dead = scripted\<lparr>DialConfig := (\<lambda>u c w. (Inl refused, w)), Conn_IsClosed := (\<lambda>p w. (True, w))\<rparr>"

lemma scripted_feed: "feed_law (feed_Errors scripted)"
  by (simp add: feed_law_def scripted_def)

end
