(* ===== verification/FR_Payload.thy ===== *)
theory FR_Payload
  imports FR_Compression FR_Crypto FR_Broker
begin

section \<open>Payloads and configuration files (json.go)\<close>

text \<open>
  A payload is marshalled (unless it is bytes already), compressed and encrypted as configured;
  reading undoes encryption, then compression. The JSON package, the codecs and the cryptographic
  packages are the parameters of the model, collected in \<open>'v payload_lib\<close>; \<open>'v\<close> is the type of the
  values the program marshals. An \<^verbatim>\<open>interface{}\<close> input is nil, a byte slice or another value.
\<close>

datatype 'v input = NilInput | BytesInput bytes | ValueInput 'v

record 'v payload_lib =
  codecs :: codec_lib
  cryptos :: crypto_lib
  json_Marshal :: "'v input \<Rightarrow> goerror + bytes"

definition cEnabled :: "CompressionConfig option \<Rightarrow> bool" where
  "cEnabled cc \<longleftrightarrow> (case cc of None \<Rightarrow> False | Some c \<Rightarrow> cmp_Enabled c)"

definition eEnabled :: "EncryptionConfig option \<Rightarrow> bool" where
  "eEnabled ec \<longleftrightarrow> (case ec of None \<Rightarrow> False | Some e \<Rightarrow> enc_Enabled e)"

text \<open>The compression block of \<^verbatim>\<open>ToPayload\<close>: data and buffer after it, or the error.\<close>

definition compressStage ::
  "codec_lib \<Rightarrow> CompressionConfig option \<Rightarrow> bytes \<Rightarrow> goerror + (bytes \<times> bytes)" where
  "compressStage L cc data =
     (if cEnabled cc then
        (case Compress L (cmp_Type (the cc)) data [] of
           (Some err, buffer) \<Rightarrow> Inl err
         | (None, buffer) \<Rightarrow> Inr (buffer, buffer))
      else Inr (data, []))"

definition encryptStage ::
  "crypto_lib \<Rightarrow> random_reader \<Rightarrow> EncryptionConfig option \<Rightarrow> bytes \<times> bytes \<Rightarrow> goerror + bytes" where
  "encryptStage L rd ec = (\<lambda>(data, buffer).
     if eEnabled ec then
       (case Encrypt L rd (enc_Type (the ec)) (Hashkey (the ec)) data buffer of
          (Some err, buffer) \<Rightarrow> Inl err
        | (None, buffer) \<Rightarrow> Inr buffer)
     else Inr data)"

definition ToPayload ::
  "'v payload_lib \<Rightarrow> random_reader \<Rightarrow> 'v input \<Rightarrow> CompressionConfig option \<Rightarrow> EncryptionConfig option
     \<Rightarrow> goerror + bytes" where
  "ToPayload L rd inp compressionConf encryptionConf =
     (case (case inp of BytesInput b \<Rightarrow> Inr b | _ \<Rightarrow> json_Marshal L inp) of
        Inl err \<Rightarrow> Inl err
      | Inr data \<Rightarrow> (case compressStage (codecs L) compressionConf data of
          Inl err \<Rightarrow> Inl err
        | Inr db \<Rightarrow> encryptStage (cryptos L) rd encryptionConf db))"

definition decryptStage :: "crypto_lib \<Rightarrow> EncryptionConfig option \<Rightarrow> bytes \<Rightarrow> goerror option \<times> bytes" where
  "decryptStage L ec buffer =
     (if eEnabled ec then Decrypt L (enc_Type (the ec)) (Hashkey (the ec)) buffer else (None, buffer))"

definition decompressStage :: "codec_lib \<Rightarrow> CompressionConfig option \<Rightarrow> bytes \<Rightarrow> goerror option \<times> bytes" where
  "decompressStage L cc buffer =
     (if cEnabled cc then Decompress L (cmp_Type (the cc)) buffer else (None, buffer))"

definition ReadPayload ::
  "'v payload_lib \<Rightarrow> CompressionConfig option \<Rightarrow> EncryptionConfig option \<Rightarrow> bytes \<Rightarrow> goerror option \<times> bytes" where
  "ReadPayload L compressionConf encryptionConf buffer =
     (case decryptStage (cryptos L) encryptionConf buffer of
        (Some err, b) \<Rightarrow> (Some err, b)
      | (None, b) \<Rightarrow> decompressStage (codecs L) compressionConf b)"

subsection \<open>Configuration files\<close>

text \<open>\<^verbatim>\<open>json.Unmarshal\<close> is a parameter: the bytes and the old value give an error and the new value.\<close>

definition ConvertJsonToStruct ::
  "('w, 'e) env_scheme \<Rightarrow> (bytes \<Rightarrow> 'c \<Rightarrow> goerror option \<times> 'c) \<Rightarrow> string \<Rightarrow> 'c
     \<Rightarrow> (('w, 'x) base_st_scheme, goerror option \<times> 'c) go" where
  "ConvertJsonToStruct E unmarshal fileNamePath c =
     bind_go (env_call (os_ReadFile E fileNamePath)) (\<lambda>r. case r of
       Inl err \<Rightarrow> ret (None, c)
     | Inr byteValue \<Rightarrow> ret (unmarshal byteValue c))"

definition emptySeasoning :: RabbitSeasoning where
  "emptySeasoning = \<lparr>rs_EncryptionConfig = None, rs_CompressionConfig = None, rs_PoolConfig = None,
     rs_ConsumerConfigs = [], rs_PublisherConfig = None\<rparr>"

definition ConvertJSONFileToConfig ::
  "('w, 'e) env_scheme \<Rightarrow> (bytes \<Rightarrow> RabbitSeasoning \<Rightarrow> goerror option \<times> RabbitSeasoning) \<Rightarrow> string
     \<Rightarrow> (('w, 'x) base_st_scheme, RabbitSeasoning \<times> goerror option) go" where
  "ConvertJSONFileToConfig E unmarshal fileNamePath =
     bind_go (ConvertJsonToStruct E unmarshal fileNamePath emptySeasoning) (\<lambda>(err, config). ret (config, err))"

subsection \<open>Stages\<close>

text \<open>
  A stage of the payload pipeline: where its configuration is usable for the data, encoding
  succeeds and decoding gives the data back. Two stages in a row are a stage.
\<close>

locale payload_stage =
  fixes usable :: "'c \<Rightarrow> 'a \<Rightarrow> bool"
    and enc :: "'c \<Rightarrow> 'a \<Rightarrow> goerror + 'b"
    and dec :: "'c \<Rightarrow> 'b \<Rightarrow> goerror option \<times> 'a"
  assumes stage: "usable c d \<Longrightarrow> \<exists>z. enc c d = Inr z \<and> dec c z = (None, d)"

locale two_stages =
  one: payload_stage usable1 enc1 dec1 + two: payload_stage usable2 enc2 dec2
  for usable1 :: "'c \<Rightarrow> 'a \<Rightarrow> bool" and enc1 :: "'c \<Rightarrow> 'a \<Rightarrow> goerror + 'b" and dec1
    and usable2 :: "'d \<Rightarrow> 'b \<Rightarrow> bool" and enc2 :: "'d \<Rightarrow> 'b \<Rightarrow> goerror + 'e" and dec2
begin

lemma both_stages:
  assumes "usable1 c d" "\<And>z. enc1 c d = Inr z \<Longrightarrow> usable2 k z"
  shows "\<exists>z y. enc1 c d = Inr z \<and> enc2 k z = Inr y \<and> dec2 k y = (None, z) \<and> dec1 c z = (None, d)"
  using one.stage [OF assms(1)] two.stage [OF assms(2)] by blast

end

text \<open>
  The two stages of \<open>ToPayload\<close>, from bytes to bytes: what the buffer holds when the encryption
  starts does not matter. An enabled encryption needs data, an AES key and a random source.
\<close>

definition compressBytes :: "codec_lib \<times> CompressionConfig option \<Rightarrow> bytes \<Rightarrow> goerror + bytes" where
  "compressBytes c d = map_sum id fst (compressStage (fst c) (snd c) d)"

definition encryptBytes :: "crypto_lib \<times> random_reader \<times> EncryptionConfig option \<Rightarrow> bytes \<Rightarrow> goerror + bytes" where
  "encryptBytes k d = encryptStage (fst k) (fst (snd k)) (snd (snd k)) (d, [])"

definition encryptable :: "crypto_lib \<times> random_reader \<times> EncryptionConfig option \<Rightarrow> bytes \<Rightarrow> bool" where
  "encryptable k d \<longleftrightarrow> (case k of (L, rd, ec) \<Rightarrow> aead_law L \<and> reader_law rd \<and>
     (eEnabled ec \<longrightarrow> d \<noteq> [] \<and> length (Hashkey (the ec)) \<in> {16, 24, 32} \<and> (\<exists>b. rd 12 = Inr b)))"

lemma encryptStage_buffer: "encryptStage L rd ec (d, b) = encryptStage L rd ec (d, [])"
  by (simp add: encryptStage_def Encrypt_def split: sum.splits)

text \<open>An enabled zstd compression needs data: for no data nothing is known of its stream.\<close>

definition compressible :: "codec_lib \<times> CompressionConfig option \<Rightarrow> bytes \<Rightarrow> bool" where
  "compressible c d \<longleftrightarrow> codec_law (fst c) \<and>
     (cEnabled (snd c) \<and> cmp_Type (the (snd c)) = ZstdType \<longrightarrow> d \<noteq> [])"

lemma Compress_enabled:
  assumes "compressible c d" "cEnabled (snd c)"
  shows "\<exists>z. z \<noteq> [] \<and> Compress (fst c) (cmp_Type (the (snd c))) d [] = (None, z) \<and>
    Decompress (fst c) (cmp_Type (the (snd c))) z = (None, d)"
  by (rule Compress_law) (use assms in \<open>auto simp: compressible_def\<close>)

interpretation wire: two_stages compressible compressBytes "\<lambda>c. decompressStage (fst c) (snd c)"
  encryptable encryptBytes "\<lambda>k. decryptStage (fst k) (snd (snd k))"
proof unfold_locales
  fix c :: "codec_lib \<times> CompressionConfig option" and d
  assume "compressible c d"
  from Compress_enabled [OF this] show "\<exists>z. compressBytes c d = Inr z \<and> decompressStage (fst c) (snd c) z = (None, d)"
    by (auto simp: compressBytes_def compressStage_def decompressStage_def)
next
  fix k :: "crypto_lib \<times> random_reader \<times> EncryptionConfig option" and d
  obtain L rd ec where k: "k = (L, rd, ec)" by (cases k)
  assume "encryptable k d"
  then have laws: "aead_law L" "reader_law rd"
    and on: "eEnabled ec \<Longrightarrow> d \<noteq> [] \<and> length (Hashkey (the ec)) \<in> {16, 24, 32} \<and> (\<exists>b. rd 12 = Inr b)"
    by (auto simp: k encryptable_def)
  show "\<exists>z. encryptBytes k d = Inr z \<and> decryptStage (fst k) (snd (snd k)) z = (None, d)"
  proof (cases "eEnabled ec")
    case True
    have nonce: "effectiveNonce 12 = 12" by (simp add: effectiveNonce_def)
    have key: "Hashkey (the ec) \<noteq> []" using on [OF True] by auto
    obtain b where b: "rd 12 = Inr b" using on [OF True] by blast
    obtain z where z: "encryptWithAes L rd d (Hashkey (the ec)) 12 = Inr z"
      unfolding encrypt_cases [OF laws(1)] nonce using on [OF True] key b by simp
    from decrypt_encrypt [OF laws this] z True show ?thesis
      by (simp add: k encryptBytes_def encryptStage_def Encrypt_def decryptStage_def Decrypt_def nonce)
  qed (simp add: k encryptBytes_def encryptStage_def decryptStage_def)
qed

lemma ToPayload_stages:
  assumes "(case inp of BytesInput b \<Rightarrow> Inr b | _ \<Rightarrow> json_Marshal L inp) = Inr d"
  shows "ToPayload L rd inp cc ec = (case compressBytes (codecs L, cc) d of
     Inl err \<Rightarrow> Inl err | Inr z \<Rightarrow> encryptBytes (cryptos L, rd, ec) z)"
proof (cases "compressStage (codecs L) cc d")
  case (Inr db)
  then show ?thesis
    using assms encryptStage_buffer [of "cryptos L" rd ec "fst db" "snd db"]
    by (simp add: ToPayload_def compressBytes_def encryptBytes_def)
qed (use assms in \<open>simp add: ToPayload_def compressBytes_def\<close>)

lemma payload_roundtrip_lemma:
  assumes "codec_law (codecs L)" "aead_law (cryptos L)" "reader_law rd"
    and "(case inp of BytesInput b \<Rightarrow> Inr b | _ \<Rightarrow> json_Marshal L inp) = Inr d"
    and "eEnabled ec \<Longrightarrow> length (Hashkey (the ec)) \<in> {16, 24, 32} \<and> (\<exists>b. rd 12 = Inr b) \<and> (d \<noteq> [] \<or> cEnabled cc)"
    and "cEnabled cc \<Longrightarrow> cmp_Type (the cc) = ZstdType \<Longrightarrow> d \<noteq> []"
  shows "\<exists>z. ToPayload L rd inp cc ec = Inr z \<and> ReadPayload L cc ec z = (None, d)"
proof -
  have c: "compressible (codecs L, cc) d" using assms(1,6) by (auto simp: compressible_def)
  have "encryptable (cryptos L, rd, ec) z" if z: "compressBytes (codecs L, cc) d = Inr z" for z
  proof -
    have "z \<noteq> []" if "cEnabled cc \<or> d \<noteq> []"
      using that z Compress_enabled [OF c]
      by (auto simp: compressBytes_def compressStage_def split: if_splits)
    then show ?thesis using assms(2,3,5) by (auto simp: encryptable_def)
  qed
  from wire.both_stages [of "(codecs L, cc)" d "(cryptos L, rd, ec)", OF c this]
  show ?thesis
    by (auto simp: ToPayload_stages [OF assms(4)] ReadPayload_def)
qed

subsection \<open>Properties\<close>

text \<open>
  C31: what \<open>ToPayload\<close> writes, \<open>ReadPayload\<close> reads back, for every combination of enabled and disabled
  stages and every type string (an unknown compression type means gzip, an unknown encryption type
  AES on both sides). An enabled encryption needs an AES key, a random source that yields a nonce,
  and something to encrypt: the marshalled input is not empty, or compression is enabled. With zstd
  compression the marshalled input must not be empty.
\<close>

theorem payload_roundtrip:
  assumes "codec_law (codecs L)" "aead_law (cryptos L)" "reader_law rd"
    and "(case inp of BytesInput b \<Rightarrow> Inr b | _ \<Rightarrow> json_Marshal L inp) = Inr d"
    and "eEnabled ec \<longrightarrow> length (Hashkey (the ec)) \<in> {16, 24, 32} \<and> (\<exists>b. rd 12 = Inr b) \<and> (d \<noteq> [] \<or> cEnabled cc)"
    and "cEnabled cc \<and> cmp_Type (the cc) = ZstdType \<longrightarrow> d \<noteq> []"
  shows "\<exists>z. ToPayload L rd inp cc ec = Inr z \<and> ReadPayload L cc ec z = (None, d)"
  by (rule payload_roundtrip_lemma) (use assms in auto)

text \<open>
  C32: nothing half-done leaves \<open>ToPayload\<close>. It fails with the marshalling error if marshalling fails;
  with the codec's error if compression fails; and if encryption is enabled it never returns the
  plaintext: either an error, or a payload of which the nonce and the tag are a part.
\<close>

theorem ToPayload_never_leaks:
  assumes "aead_law (cryptos L)" "reader_law rd" "eEnabled ec" "ToPayload L rd inp cc ec = Inr z"
  shows "\<exists>d nonce. z = nonce @ gcm_Seal (cryptos L) (Hashkey (the ec)) nonce d \<and> length nonce = 12 \<and>
    length (Hashkey (the ec)) \<in> {16, 24, 32} \<and> ReadPayload L None ec z = (None, d)"
proof -
  from assms(4) obtain d b where "encryptStage (cryptos L) rd ec (d, b) = Inr z"
    by (auto simp: ToPayload_def split: sum.splits)
  with assms(3) have z: "encryptWithAes (cryptos L) rd d (Hashkey (the ec)) 12 = Inr z"
    by (simp add: encryptStage_def Encrypt_def split: sum.splits)
  have nonce: "effectiveNonce 12 = 12" by (simp add: effectiveNonce_def)
  from z obtain n where n: "rd 12 = Inr n" "z = n @ gcm_Seal (cryptos L) (Hashkey (the ec)) n d"
    "length (Hashkey (the ec)) \<in> {16, 24, 32}"
    unfolding encrypt_cases [OF assms(1)] by (auto simp: nonce split: if_splits sum.splits)
  have "int (length n) = 12"
    by (rule assms(2) [unfolded reader_law_def, rule_format, OF _ n(1)]) simp
  then have "length n = 12" by simp
  moreover have "ReadPayload L None ec z = (None, d)"
    using decrypt_encrypt [OF assms(1,2) z] assms(3)
    by (simp add: ReadPayload_def decryptStage_def decompressStage_def Decrypt_def cEnabled_def nonce)
  ultimately show ?thesis using n by blast
qed

text \<open>
  C38: a configuration file that cannot be read is not an error. \<open>ConvertJSONFileToConfig\<close> then returns
  an empty configuration and no error, as if the file had held an empty object.
\<close>

theorem unreadable_config_is_silent:
  assumes "fst (os_ReadFile E f (world s)) = Inl err"
  shows "\<exists>t. ConvertJSONFileToConfig E unmarshal f s = Some (Return (emptySeasoning, None), t) \<and> only_world s t"
  using assms by (simp add: ConvertJSONFileToConfig_def ConvertJsonToStruct_def go_prims env_call_def)

subsection \<open>Instances\<close>

definition plain_lib :: "nat payload_lib" where
  "plain_lib = \<lparr>codecs = framed, cryptos = tagging,
     json_Marshal = (\<lambda>v. case v of ValueInput n \<Rightarrow> Inr (bytes_of_string (decimal n)) | _ \<Rightarrow> Inr (bytes_of_string ''null''))\<rparr>"

definition zstdConf :: CompressionConfig where
  "zstdConf = \<lparr>cmp_Enabled = True, cmp_Type = ''zstd''\<rparr>"

definition aesConf :: EncryptionConfig where
  "aesConf = \<lparr>enc_Enabled = True, enc_Type = ''aes'', Hashkey = replicate 32 7, TimeConsideration = 1,
     MemoryMultiplier = 64, Threads = 2\<rparr>"

theorem payload_roundtrip_witness:
  "\<exists>z. ToPayload plain_lib zeros (BytesInput [1, 2]) (Some zstdConf) (Some aesConf) = Inr z \<and>
     ReadPayload plain_lib (Some zstdConf) (Some aesConf) z = (None, [1, 2])"
  by (rule payload_roundtrip)
    (simp_all add: plain_lib_def framed_law tagging_aead zeros_law aesConf_def eEnabled_def zeros_def)

theorem ToPayload_never_leaks_witness:
  "\<exists>d nonce. replicate 12 0 @ [5] @ replicate 16 0 = nonce @ gcm_Seal tagging (replicate 32 7) nonce d \<and>
     length nonce = 12 \<and> ReadPayload plain_lib None (Some aesConf) (replicate 12 0 @ [5] @ replicate 16 0) = (None, d)"
proof -
  have p: "ToPayload plain_lib zeros (BytesInput [5]) None (Some aesConf) = Inr (replicate 12 0 @ [5] @ replicate 16 0)"
    by (simp add: ToPayload_def compressStage_def encryptStage_def Encrypt_def encryptWithAes_def plain_lib_def
        cEnabled_def eEnabled_def aesConf_def tagging_def zeros_def defaultNonceSize_def Let_def)
  show ?thesis
    using ToPayload_never_leaks [OF _ zeros_law _ p] tagging_aead
    by (auto simp: plain_lib_def aesConf_def eEnabled_def)
qed

theorem unreadable_config_is_silent_witness:
  "\<exists>t. ConvertJSONFileToConfig scripted (\<lambda>b c. (None, c)) ''missing.json'' \<lparr>world = calm\<rparr> =
     Some (Return (emptySeasoning, None), t) \<and> only_world \<lparr>world = calm\<rparr> t"
  by (rule unreadable_config_is_silent [where err = "LibraryError ''no such file''"]) (simp add: scripted_def)

end
