(* ===== verification/FR_ConnectionHost.thy ===== *)
theory FR_ConnectionHost
  imports FR_Config
begin

section \<open>Connection hosts (connectionhost.go)\<close>

text \<open>
  A connection host wraps one AMQP connection. Hosts are shared by pointer: the pool's queue and
  every channel host made on a connection refer to the same object. They live in a heap, the list
  \<open>connHosts\<close> of the state, and a pointer is an index. \<open>ConnectWithErrorHandler\<close> is the only
  operation that dials; \<open>PauseOnFlowControl\<close> waits while the broker reports back-pressure. The
  mutex of the host is not part of the state: an operation of this theory is one goroutine's run
  between taking and releasing it, and what other parties do meanwhile is in the world.
\<close>

record ConnectionHost =
  Connection :: "conn option"
  ConnectionID :: uint64
  CachedChannelCount :: uint64
  uri :: string
  connectionName :: string
  heartbeatInterval :: duration
  connectionTimeout :: duration
  tlsConfig :: "TLSConfig option"
  Errors :: "amqp_error gochan"
  Blockers :: "amqp_Blocking gochan"

record 'w conn_st = "'w base_st" +
  connHosts :: "ConnectionHost list"

definition host_at :: "nat \<Rightarrow> (('w, 'x) conn_st_scheme, ConnectionHost) go" where
  "host_at h = (\<lambda>s. if h < length (connHosts s) then Some (Return (connHosts s ! h), s)
                    else Some (Panicked NilDereference, s))"

definition upd_host :: "nat \<Rightarrow> (ConnectionHost \<Rightarrow> ConnectionHost) \<Rightarrow> (('w, 'x) conn_st_scheme, unit) go" where
  "upd_host h f = modify_go (\<lambda>s. s\<lparr>connHosts := (connHosts s)[h := f (connHosts s ! h)]\<rparr>)"

text \<open>A receive on \<^verbatim>\<open>ch.Errors\<close> (\<^verbatim>\<open>ch.Blockers\<close>) sees what the library pushed there before it.\<close>

definition poll_Errors :: "('w, 'e) env_scheme \<Rightarrow> nat \<Rightarrow> (('w, 'x) conn_st_scheme, amqp_error received) go" where
  "poll_Errors E h =
     bind_go (host_at h) (\<lambda>ch.
     bind_go (case Connection ch of
                None \<Rightarrow> ret (Errors ch)
              | Some p \<Rightarrow> env_call (feed_Errors E p (Errors ch))) (\<lambda>c.
     bind_go (upd_host h (\<lambda>ch. ch\<lparr>Errors := snd (chan_recv c)\<rparr>)) (\<lambda>_.
     ret (fst (chan_recv c)))))"

definition poll_Blockers :: "('w, 'e) env_scheme \<Rightarrow> nat \<Rightarrow> (('w, 'x) conn_st_scheme, amqp_Blocking received) go" where
  "poll_Blockers E h =
     bind_go (host_at h) (\<lambda>ch.
     bind_go (case Connection ch of
                None \<Rightarrow> ret (Blockers ch)
              | Some p \<Rightarrow> env_call (feed_Blockers E p (Blockers ch))) (\<lambda>c.
     bind_go (upd_host h (\<lambda>ch. ch\<lparr>Blockers := snd (chan_recv c)\<rparr>)) (\<lambda>_.
     ret (fst (chan_recv c)))))"

text \<open>\<^verbatim>\<open>ch.Connection != nil && !ch.Connection.IsClosed()\<close>.\<close>

definition isConnected :: "('w, 'e) env_scheme \<Rightarrow> nat \<Rightarrow> (('w, 'x) conn_st_scheme, bool) go" where
  "isConnected E h =
     bind_go (host_at h) (\<lambda>ch. case Connection ch of
       None \<Rightarrow> ret False
     | Some p \<Rightarrow> bind_go (env_call (Conn_IsClosed E p)) (\<lambda>closed. ret (\<not> closed)))"

text \<open>The TLS part of a connect: no configuration, or the result of \<open>createTLSConfig\<close>.\<close>

definition hostTLS :: "('w, 'e) env_scheme \<Rightarrow> ConnectionHost \<Rightarrow> (('w, 'x) conn_st_scheme, goerror + tls_Config option) go" where
  "hostTLS E ch = (case tlsConfig ch of
       None \<Rightarrow> ret (Inr None)
     | Some t \<Rightarrow>
         if EnableTLS t then
           bind_go (createTLSConfig E (PEMCertLocation t) (LocalCertLocation t)) (\<lambda>r. case r of
             Inl err \<Rightarrow> ret (Inl err)
           | Inr c \<Rightarrow> ret (Inr (Some c)))
         else ret (Inr None))"

definition dialTarget :: "ConnectionHost \<Rightarrow> tls_Config option \<Rightarrow> string" where
  "dialTarget ch tls = (case (tls, tlsConfig ch) of
       (Some _, Some t) \<Rightarrow> ''amqps://'' @ CertServerName t
     | _ \<Rightarrow> uri ch)"

definition dialSettings :: "ConnectionHost \<Rightarrow> tls_Config option \<Rightarrow> amqp_Config" where
  "dialSettings ch tls =
     \<lparr>cfg_Heartbeat = heartbeatInterval ch, cfg_DialTimeout = connectionTimeout ch,
      cfg_TLS = tls, cfg_connection_name = connectionName ch\<rparr>"

definition ConnectWithErrorHandler ::
  "('w, 'e) env_scheme \<Rightarrow> 'w handler option \<Rightarrow> nat \<Rightarrow> (('w, 'x) conn_st_scheme, bool) go" where
  "ConnectWithErrorHandler E errorHandler h =
     bind_go (isConnected E h) (\<lambda>ok. if ok then ret True else
     bind_go (isConnected E h) (\<lambda>ok. if ok then ret True else
     bind_go (host_at h) (\<lambda>ch.
     bind_go (hostTLS E ch) (\<lambda>tls. case tls of
       Inl err \<Rightarrow> bind_go (call_handler errorHandler err) (\<lambda>_. ret False)
     | Inr actual \<Rightarrow>
         bind_go (env_call (DialConfig E (dialTarget ch actual) (dialSettings ch actual))) (\<lambda>r. case r of
           Inl err \<Rightarrow> bind_go (call_handler errorHandler err) (\<lambda>_. ret False)
         | Inr p \<Rightarrow>
             bind_go (upd_host h (\<lambda>ch. ch\<lparr>Connection := Some p, Errors := make_chan 10,
                                         Blockers := make_chan 10\<rparr>)) (\<lambda>_.
             bind_go (env_do (Conn_NotifyClose E p)) (\<lambda>_.
             bind_go (env_do (Conn_NotifyBlocked E p)) (\<lambda>_. ret True))))))))"

definition Connect :: "('w, 'e) env_scheme \<Rightarrow> nat \<Rightarrow> (('w, 'x) conn_st_scheme, bool) go" where
  "Connect E h = ConnectWithErrorHandler E None h"

definition NewConnectionHost ::
  "('w, 'e) env_scheme \<Rightarrow> string \<Rightarrow> string \<Rightarrow> uint64 \<Rightarrow> duration \<Rightarrow> duration \<Rightarrow> TLSConfig option
     \<Rightarrow> (('w, 'x) conn_st_scheme, goerror + nat) go" where
  "NewConnectionHost E u name cid hb timeout tls =
     bind_go (gets_go (\<lambda>s. length (connHosts s))) (\<lambda>h.
     bind_go (modify_go (\<lambda>s. s\<lparr>connHosts := connHosts s @
       [\<lparr>Connection = None, ConnectionID = cid, CachedChannelCount = 0, uri = u,
         connectionName = name, heartbeatInterval = hb, connectionTimeout = timeout,
         tlsConfig = tls, Errors = make_chan 10, Blockers = make_chan 10\<rparr>]\<rparr>)) (\<lambda>_.
     bind_go (Connect E h) (\<lambda>ok.
       if \<not> ok then ret (Inl (ErrorString ''unable to connect'')) else ret (Inr h))))"

definition pauseRound :: "('w, 'e) env_scheme \<Rightarrow> nat \<Rightarrow> (('w, 'x) conn_st_scheme, unit option) go" where
  "pauseRound E h =
     bind_go (host_at h) (\<lambda>ch. case Connection ch of
       None \<Rightarrow> panic_go NilDereference
     | Some p \<Rightarrow>
         bind_go (env_call (Conn_IsClosed E p)) (\<lambda>closed.
           if closed then ret (Some ())
           else bind_go (poll_Blockers E h) (\<lambda>r. case r of
             Received b \<Rightarrow>
               if \<not> Active b then ret (Some ())
               else bind_go (env_do (time_Sleep E Second)) (\<lambda>_. ret None)
           | ZeroValue \<Rightarrow> ret (Some ())
           | WouldBlock \<Rightarrow> ret (Some ()))))"

definition PauseOnFlowControl :: "('w, 'e) env_scheme \<Rightarrow> nat \<Rightarrow> (('w, 'x) conn_st_scheme, unit) go" where
  "PauseOnFlowControl E h = forever (pauseRound E h)"

subsection \<open>Which parts of a host an operation may touch\<close>

definition host_static :: "ConnectionHost \<Rightarrow>
  uint64 \<times> string \<times> string \<times> duration \<times> duration \<times> TLSConfig option" where
  "host_static ch = (ConnectionID ch, uri ch, connectionName ch, heartbeatInterval ch,
     connectionTimeout ch, tlsConfig ch)"

text \<open>
  \<open>conn_live s h\<close>: host \<open>h\<close> exists and has a connection object, so that methods on it do not dereference
  nil. The connection it stands for may be open or closed.
\<close>

definition conn_live :: "('w, 'x) conn_st_scheme \<Rightarrow> nat \<Rightarrow> bool" where
  "conn_live s h \<longleftrightarrow> h < length (connHosts s) \<and> Connection (connHosts s ! h) \<noteq> None"

text \<open>
  \<open>conn_ext s t\<close>: from \<open>s\<close> to \<open>t\<close> hosts were only added, identities and settings are the same, a
  host that had a connection still has one (an open one or a closed one, never nil), and the parts
  of the state that later components add are untouched.
\<close>

definition hosts_ext :: "ConnectionHost list \<Rightarrow> ConnectionHost list \<Rightarrow> bool" where
  "hosts_ext xs ys \<longleftrightarrow> length xs \<le> length ys \<and>
     (\<forall>h < length xs. host_static (ys ! h) = host_static (xs ! h) \<and>
        (Connection (xs ! h) \<noteq> None \<longrightarrow> Connection (ys ! h) \<noteq> None))"

definition conn_ext :: "('w, 'x) conn_st_scheme \<Rightarrow> ('w, 'x) conn_st_scheme \<Rightarrow> bool" where
  "conn_ext s t \<longleftrightarrow> hosts_ext (connHosts s) (connHosts t) \<and> conn_st.more t = conn_st.more s"

lemma hosts_ext_refl [simp, intro]: "hosts_ext xs xs"
  by (simp add: hosts_ext_def)

lemma hosts_ext_trans: "hosts_ext xs ys \<Longrightarrow> hosts_ext ys zs \<Longrightarrow> hosts_ext xs zs"
  by (auto simp: hosts_ext_def)

lemma hosts_ext_append [simp, intro]: "hosts_ext xs (xs @ ys)"
  by (simp add: hosts_ext_def nth_append)

lemma hosts_ext_update:
  assumes "h < length xs \<Longrightarrow> host_static c = host_static (xs ! h)"
    and "h < length xs \<Longrightarrow> Connection (xs ! h) \<noteq> None \<Longrightarrow> Connection c \<noteq> None"
  shows "hosts_ext xs (xs[h := c])"
  unfolding hosts_ext_def
proof (intro conjI allI impI)
  fix i assume "i < length xs"
  then show "host_static (xs[h := c] ! i) = host_static (xs ! i)"
    and "Connection (xs ! i) \<noteq> None \<Longrightarrow> Connection (xs[h := c] ! i) \<noteq> None"
    using assms by (cases "i = h"; simp)+
qed simp

lemma conn_ext_refl [simp, intro]: "conn_ext s s"
  by (simp add: conn_ext_def)

lemma conn_ext_trans [trans]: "conn_ext s t \<Longrightarrow> conn_ext t u \<Longrightarrow> conn_ext s u"
  by (auto simp: conn_ext_def intro: hosts_ext_trans)

lemma conn_ext_world [simp]: "conn_ext s (t\<lparr>world := w\<rparr>) = conn_ext s t"
  by (simp add: conn_ext_def)

lemma conn_live_hosts: "conn_live s h \<Longrightarrow> hosts_ext (connHosts s) (connHosts t) \<Longrightarrow> conn_live t h"
  by (auto simp: conn_live_def hosts_ext_def)

lemma conn_live_ext: "conn_live s h \<Longrightarrow> conn_ext s t \<Longrightarrow> conn_live t h"
  by (auto simp: conn_ext_def intro: conn_live_hosts)

lemma conn_live_world [simp]: "conn_live (s\<lparr>world := w\<rparr>) h = conn_live s h"
  by (simp add: conn_live_def)

lemma wlp_host_at [wp_simps]:
  "wlp (host_at h) Q X s =
     (if h < length (connHosts s) then Q (connHosts s ! h) s else X (Some NilDereference) s)"
  by (simp add: wlp_def host_at_def)

lemma wp_host_at [wp_simps]:
  "wp (host_at h) Q s = (h < length (connHosts s) \<and> Q (connHosts s ! h) s)"
  by (simp add: wp_def host_at_def)

lemma wlp_upd_host [wp_simps]:
  "wlp (upd_host h f) Q X s = Q () (s\<lparr>connHosts := (connHosts s)[h := f (connHosts s ! h)]\<rparr>)"
  by (simp add: upd_host_def wp_simps)

lemma wp_upd_host [wp_simps]:
  "wp (upd_host h f) Q s = Q () (s\<lparr>connHosts := (connHosts s)[h := f (connHosts s ! h)]\<rparr>)"
  by (simp add: upd_host_def wp_simps)

text \<open>
  The facts a poll or a connect leaves behind, ready for the loops of the pool: each returns
  whenever the pointer is valid, and keeps to \<open>conn_ext\<close>.
\<close>

lemma host_static_update [simp]:
  "host_static (c\<lparr>Errors := e\<rparr>) = host_static c"
  "host_static (c\<lparr>Blockers := b\<rparr>) = host_static c"
  "host_static (c\<lparr>Connection := p\<rparr>) = host_static c"
  by (simp_all add: host_static_def)

lemma hosts_ext_fields [simp]:
  "hosts_ext xs (xs[h := (xs ! h)\<lparr>Errors := e\<rparr>])"
  "hosts_ext xs (xs[h := (xs ! h)\<lparr>Blockers := b\<rparr>])"
  "hosts_ext xs (xs[h := (xs ! h)\<lparr>Connection := Some p, Errors := e, Blockers := b\<rparr>])"
  by (rule hosts_ext_update; simp)+

lemma poll_Errors_wp:
  "h < length (connHosts s) \<Longrightarrow> wp (poll_Errors E h) (\<lambda>_ t. conn_ext s t) s"
  by (auto simp: poll_Errors_def wp_simps conn_ext_def split: option.splits)

lemma poll_Blockers_wp:
  "h < length (connHosts s) \<Longrightarrow> wp (poll_Blockers E h) (\<lambda>_ t. conn_ext s t) s"
  by (auto simp: poll_Blockers_def wp_simps conn_ext_def split: option.splits)

lemma isConnected_wp:
  "h < length (connHosts s) \<Longrightarrow>
     wp (isConnected E h) (\<lambda>ok t. (ok \<longrightarrow> conn_live t h) \<and> (\<exists>w. t = s\<lparr>world := w\<rparr>)) s"
  by (auto simp: isConnected_def wp_simps conn_live_def intro: exI [of _ "world s"] split: option.splits)

lemma hostTLS_wp: "wp (hostTLS E ch) (\<lambda>_ t. \<exists>w. t = s\<lparr>world := w\<rparr>) s"
  by (auto simp: hostTLS_def createTLSConfig_def wp_simps intro: exI [of _ "world s"]
      split: option.splits sum.splits)

lemma call_handler_wp: "wp (call_handler eh e) (\<lambda>_ t. \<exists>w. t = s\<lparr>world := w\<rparr>) s"
  by (auto simp: call_handler_def wp_simps intro: exI [of _ "world s"] split: option.splits)

lemma ConnectWithErrorHandler_wp:
  assumes "h < length (connHosts s)"
  shows "wp (ConnectWithErrorHandler E eh h) (\<lambda>ok t. conn_ext s t \<and> (ok \<longrightarrow> conn_live t h)) s"
  using assms
  by (auto simp: ConnectWithErrorHandler_def isConnected_def hostTLS_def createTLSConfig_def
      call_handler_def wp_simps conn_ext_def conn_live_def split: option.splits sum.splits)

lemma NewConnectionHost_wp:
  "wp (NewConnectionHost E u name cid hb to tls)
     (\<lambda>r t. conn_ext s t \<and> (\<forall>h. r = Inr h \<longrightarrow> h = length (connHosts s) \<and> conn_live t h
         \<and> host_static (connHosts t ! h) = (cid, u, name, hb, to, tls))) s"
proof -
  let ?c = "\<lparr>Connection = None, ConnectionID = cid, CachedChannelCount = 0, uri = u,
         connectionName = name, heartbeatInterval = hb, connectionTimeout = to,
         tlsConfig = tls, Errors = make_chan 10, Blockers = make_chan 10\<rparr>"
  let ?s = "s\<lparr>connHosts := connHosts s @ [?c]\<rparr>"
  have "wp (ConnectWithErrorHandler E None (length (connHosts s)))
      (\<lambda>ok t. conn_ext ?s t \<and> (ok \<longrightarrow> conn_live t (length (connHosts s)))) ?s"
    by (rule ConnectWithErrorHandler_wp) simp
  then have "wp (ConnectWithErrorHandler E None (length (connHosts s)))
      (\<lambda>ok t. conn_ext s t \<and> (ok \<longrightarrow> conn_live t (length (connHosts s))
         \<and> host_static (connHosts t ! length (connHosts s)) = (cid, u, name, hb, to, tls))) ?s"
  proof (rule wp_mono)
    fix ok t
    assume a: "conn_ext ?s t \<and> (ok \<longrightarrow> conn_live t (length (connHosts s)))"
    then have "hosts_ext (connHosts s) (connHosts t)"
      using hosts_ext_trans [OF hosts_ext_append] by (auto simp: conn_ext_def)
    with a show "conn_ext s t \<and> (ok \<longrightarrow> conn_live t (length (connHosts s))
         \<and> host_static (connHosts t ! length (connHosts s)) = (cid, u, name, hb, to, tls))"
      by (auto simp: conn_ext_def hosts_ext_def host_static_def)
  qed
  then show ?thesis
    by (simp add: NewConnectionHost_def Connect_def wp_simps)
      (erule wp_mono, auto simp: wp_simps)
qed

text \<open>
  \<open>PauseOnFlowControl\<close> may wait as long as the broker keeps blocking; whatever it does, it keeps to
  \<open>conn_ext\<close>, never panics on a host with a connection object and never blocks on the notification channel.
\<close>

lemma PauseOnFlowControl_wlp:
  assumes "conn_live s h"
  shows "wlp (PauseOnFlowControl E h) (\<lambda>_ t. conn_ext s t) (\<lambda>_ _. False) s"
  unfolding PauseOnFlowControl_def
proof (rule wlp_forever [where I = "\<lambda>t. conn_live t h \<and> conn_ext s t"])
  fix t assume t: "conn_live t h \<and> conn_ext s t"
  have step: "hosts_ext (connHosts s) ((connHosts t)[h := (connHosts t ! h)\<lparr>Blockers := c\<rparr>])" for c
    using t hosts_ext_trans [OF _ hosts_ext_fields(2)] by (auto simp: conn_ext_def)
  with t show "wlp (pauseRound E h)
      (\<lambda>c u. case c of None \<Rightarrow> conn_live u h \<and> conn_ext s u | Some a \<Rightarrow> conn_ext s u) (\<lambda>_ _. False) t"
    by (auto simp: pauseRound_def poll_Blockers_def wp_simps conn_live_def conn_ext_def
        split: option.splits received.splits)
qed (use assms in simp)

end
