(* ===== verification/FR_ChannelHost.thy ===== *)
theory FR_ChannelHost
  imports FR_ConnectionHost
begin

section \<open>Channel hosts (channelhost.go)\<close>

text \<open>
  A channel host wraps one AMQP channel and points to the connection host it was opened on.
  Channel hosts are shared by pointer too (the pool's cache holds pointers) and live in the heap
  \<open>chanHosts\<close>. The field the source calls \<open>transient\<close> is true for the cached, managed channels.
\<close>

record ChannelHost =
  Channel :: "achan option"
  chan_ID :: uint64
  chan_ConnectionID :: uint64
  Ackable :: bool
  transient :: bool
  chan_Errors :: "amqp_error gochan"
  connHost :: nat

record 'w chan_st = "'w conn_st" +
  chanHosts :: "ChannelHost list"

definition chan_at :: "nat \<Rightarrow> (('w, 'x) chan_st_scheme, ChannelHost) go" where
  "chan_at c = (\<lambda>s. if c < length (chanHosts s) then Some (Return (chanHosts s ! c), s)
                    else Some (Panicked NilDereference, s))"

definition upd_chan :: "nat \<Rightarrow> (ChannelHost \<Rightarrow> ChannelHost) \<Rightarrow> (('w, 'x) chan_st_scheme, unit) go" where
  "upd_chan c f = modify_go (\<lambda>s. s\<lparr>chanHosts := (chanHosts s)[c := f (chanHosts s ! c)]\<rparr>)"

definition poll_ChanErrors :: "('w, 'e) env_scheme \<Rightarrow> nat \<Rightarrow> (('w, 'x) chan_st_scheme, amqp_error received) go" where
  "poll_ChanErrors E c =
     bind_go (chan_at c) (\<lambda>ch.
     bind_go (case Channel ch of
                None \<Rightarrow> ret (chan_Errors ch)
              | Some p \<Rightarrow> env_call (feed_ChanErrors E p (chan_Errors ch))) (\<lambda>q.
     bind_go (upd_chan c (\<lambda>ch. ch\<lparr>chan_Errors := snd (chan_recv q)\<rparr>)) (\<lambda>_.
     ret (fst (chan_recv q)))))"

text \<open>The pointer \<^verbatim>\<open>connHost.Connection\<close>, dereferenced by a method call on it.\<close>

definition host_conn :: "nat \<Rightarrow> (('w, 'x) conn_st_scheme, conn) go" where
  "host_conn h = bind_go (host_at h) (\<lambda>ch. case Connection ch of
     None \<Rightarrow> panic_go NilDereference | Some p \<Rightarrow> ret p)"

definition chan_ptr :: "nat \<Rightarrow> (('w, 'x) chan_st_scheme, achan) go" where
  "chan_ptr c = bind_go (chan_at c) (\<lambda>ch. case Channel ch of
     None \<Rightarrow> panic_go NilDereference | Some p \<Rightarrow> ret p)"

text \<open>
  \<open>MakeChannel\<close> stores whatever pointer the library returned before it looks at the error; a
  channel marked ackable is put into confirm mode; the error channel is replaced last.
\<close>

definition confirmMode :: "('w, 'e) env_scheme \<Rightarrow> nat \<Rightarrow> (('w, 'x) chan_st_scheme, goerror option) go" where
  "confirmMode E c =
     bind_go (chan_at c) (\<lambda>ch.
       if Ackable ch then bind_go (chan_ptr c) (\<lambda>p. env_call (Chan_Confirm E p False))
       else ret None)"

definition MakeChannel :: "('w, 'e) env_scheme \<Rightarrow> nat \<Rightarrow> (('w, 'x) chan_st_scheme, goerror option) go" where
  "MakeChannel E c =
     bind_go (chan_at c) (\<lambda>ch.
     bind_go (host_conn (connHost ch)) (\<lambda>cn.
     bind_go (env_call (Conn_Channel E cn)) (\<lambda>r.
     bind_go (upd_chan c (\<lambda>ch. ch\<lparr>Channel := fst r\<rparr>)) (\<lambda>_. case snd r of
       Some err \<Rightarrow> ret (Some err)
     | None \<Rightarrow>
         bind_go (confirmMode E c) (\<lambda>e. case e of
           Some err \<Rightarrow> ret (Some err)
         | None \<Rightarrow>
             bind_go (upd_chan c (\<lambda>ch. ch\<lparr>chan_Errors := make_chan 100\<rparr>)) (\<lambda>_.
             bind_go (chan_ptr c) (\<lambda>p.
             bind_go (env_do (Chan_NotifyClose E p)) (\<lambda>_. ret None))))))))"

definition NewChannelHost ::
  "('w, 'e) env_scheme \<Rightarrow> nat \<Rightarrow> uint64 \<Rightarrow> uint64 \<Rightarrow> bool \<Rightarrow> bool
     \<Rightarrow> (('w, 'x) chan_st_scheme, goerror + nat) go" where
  "NewChannelHost E h cid connectionID ackable tr =
     bind_go (host_conn h) (\<lambda>cn.
     bind_go (env_call (Conn_IsClosed E cn)) (\<lambda>closed.
       if closed then ret (Inl (ErrorString ''can't open a channel - connection is already closed''))
       else
         bind_go (gets_go (\<lambda>s. length (chanHosts s))) (\<lambda>c.
         bind_go (modify_go (\<lambda>s. s\<lparr>chanHosts := chanHosts s @
           [\<lparr>Channel = None, chan_ID = cid, chan_ConnectionID = connectionID, Ackable = ackable,
             transient = tr, chan_Errors = make_chan 0, connHost = h\<rparr>]\<rparr>)) (\<lambda>_.
         bind_go (MakeChannel E c) (\<lambda>e. case e of
           Some err \<Rightarrow> ret (Inl err)
         | None \<Rightarrow> ret (Inr c))))))"

text \<open>\<^verbatim>\<open>Close\<close> panics on a host whose channel is nil.\<close>

definition ChannelHost_Close :: "('w, 'e) env_scheme \<Rightarrow> nat \<Rightarrow> (('w, 'x) chan_st_scheme, unit) go" where
  "ChannelHost_Close E c = bind_go (chan_ptr c) (\<lambda>p. env_do (Chan_Close E p))"

definition PauseForFlowControl :: "('w, 'e) env_scheme \<Rightarrow> nat \<Rightarrow> (('w, 'x) chan_st_scheme, unit) go" where
  "PauseForFlowControl E c = bind_go (chan_at c) (\<lambda>ch. PauseOnFlowControl E (connHost ch))"

subsection \<open>Documented behaviour of the client library\<close>

text \<open>\<^verbatim>\<open>Connection.Channel\<close> returns a channel whenever it returns no error.\<close>

definition channel_law :: "('w, 'e) env_scheme \<Rightarrow> bool" where
  "channel_law E \<longleftrightarrow> (\<forall>p w. snd (fst (Conn_Channel E p w)) = None \<longrightarrow> fst (fst (Conn_Channel E p w)) \<noteq> None)"

subsection \<open>What an operation may do to the heaps\<close>

definition chan_static :: "ChannelHost \<Rightarrow> uint64 \<times> uint64 \<times> bool \<times> bool \<times> nat" where
  "chan_static c = (chan_ID c, chan_ConnectionID c, Ackable c, transient c, connHost c)"

definition chans_ext :: "ChannelHost list \<Rightarrow> ChannelHost list \<Rightarrow> bool" where
  "chans_ext xs ys \<longleftrightarrow> length xs \<le> length ys \<and>
     (\<forall>c < length xs. chan_static (ys ! c) = chan_static (xs ! c))"

text \<open>Both heaps only grow, and no object changes its identity, its mode or its connection.\<close>

definition heap_ext :: "('w, 'x) chan_st_scheme \<Rightarrow> ('w, 'x) chan_st_scheme \<Rightarrow> bool" where
  "heap_ext s t \<longleftrightarrow> hosts_ext (connHosts s) (connHosts t) \<and> chans_ext (chanHosts s) (chanHosts t)"

text \<open>Every channel host is meant for confirmations and points to a host that has a connection.\<close>

definition heap_ok :: "('w, 'x) chan_st_scheme \<Rightarrow> bool" where
  "heap_ok s \<longleftrightarrow> (\<forall>c < length (chanHosts s).
     conn_live s (connHost (chanHosts s ! c)) \<and> Ackable (chanHosts s ! c))"

lemma chans_ext_refl [simp, intro]: "chans_ext xs xs"
  by (simp add: chans_ext_def)

lemma chans_ext_trans: "chans_ext xs ys \<Longrightarrow> chans_ext ys zs \<Longrightarrow> chans_ext xs zs"
  by (auto simp: chans_ext_def)

lemma chans_ext_append [simp, intro]: "chans_ext xs (xs @ ys)"
  by (simp add: chans_ext_def nth_append)

lemma chan_static_update [simp]:
  "chan_static (c\<lparr>Channel := p\<rparr>) = chan_static c"
  "chan_static (c\<lparr>chan_Errors := e\<rparr>) = chan_static c"
  by (simp_all add: chan_static_def)

lemma chans_ext_update:
  assumes "chan_static d = chan_static (xs ! c)"
  shows "chans_ext xs (xs[c := d])"
  unfolding chans_ext_def
proof (intro conjI allI impI)
  fix i assume "i < length xs"
  then show "chan_static (xs[c := d] ! i) = chan_static (xs ! i)"
    using assms by (cases "i = c") simp_all
qed simp

lemma heap_ext_refl [simp, intro]: "heap_ext s s"
  by (simp add: heap_ext_def)

lemma heap_ext_trans [trans]: "heap_ext s t \<Longrightarrow> heap_ext t u \<Longrightarrow> heap_ext s u"
  by (auto simp: heap_ext_def intro: hosts_ext_trans chans_ext_trans)

lemma heap_ext_world [simp]: "heap_ext s (t\<lparr>world := w\<rparr>) = heap_ext s t"
  by (simp add: heap_ext_def)

lemma heap_ok_world [simp]: "heap_ok (s\<lparr>world := w\<rparr>) = heap_ok s"
  by (simp add: heap_ok_def)

lemma conn_live_heap: "conn_live s h \<Longrightarrow> heap_ext s t \<Longrightarrow> conn_live t h"
  by (auto simp: heap_ext_def intro: conn_live_hosts)

lemma heap_ext_length: "heap_ext s t \<Longrightarrow> c < length (chanHosts s) \<Longrightarrow> c < length (chanHosts t)"
  by (simp add: heap_ext_def chans_ext_def)

lemma chan_static_heap:
  "heap_ext s t \<Longrightarrow> c < length (chanHosts s) \<Longrightarrow> chan_static (chanHosts t ! c) = chan_static (chanHosts s ! c)"
  by (simp add: heap_ext_def chans_ext_def)

lemma heap_ok_ext:
  assumes "heap_ok s" "heap_ext s t" "length (chanHosts t) = length (chanHosts s)"
  shows "heap_ok t"
  unfolding heap_ok_def
proof (intro allI impI)
  fix c assume c: "c < length (chanHosts t)"
  with assms have "connHost (chanHosts t ! c) = connHost (chanHosts s ! c)"
    and "Ackable (chanHosts t ! c) = Ackable (chanHosts s ! c)"
    using chan_static_heap [OF assms(2), of c] by (simp_all add: chan_static_def)
  with assms c show "conn_live t (connHost (chanHosts t ! c)) \<and> Ackable (chanHosts t ! c)"
    by (auto simp: heap_ok_def intro: conn_live_heap)
qed

lemma wlp_chan_at [wp_simps]:
  "wlp (chan_at c) Q X s =
     (if c < length (chanHosts s) then Q (chanHosts s ! c) s else X (Some NilDereference) s)"
  by (simp add: wlp_def chan_at_def)

lemma wp_chan_at [wp_simps]:
  "wp (chan_at c) Q s = (c < length (chanHosts s) \<and> Q (chanHosts s ! c) s)"
  by (simp add: wp_def chan_at_def)

lemma wlp_upd_chan [wp_simps]:
  "wlp (upd_chan c f) Q X s = Q () (s\<lparr>chanHosts := (chanHosts s)[c := f (chanHosts s ! c)]\<rparr>)"
  by (simp add: upd_chan_def wp_simps)

lemma wp_upd_chan [wp_simps]:
  "wp (upd_chan c f) Q s = Q () (s\<lparr>chanHosts := (chanHosts s)[c := f (chanHosts s ! c)]\<rparr>)"
  by (simp add: upd_chan_def wp_simps)

lemma wp_host_conn [wp_simps]:
  "wp (host_conn h) Q s = (conn_live s h \<and> Q (the (Connection (connHosts s ! h))) s)"
  by (auto simp: host_conn_def wp_simps conn_live_def split: option.splits)

lemma wp_chan_ptr [wp_simps]:
  "wp (chan_ptr c) Q s =
     (c < length (chanHosts s) \<and> (\<exists>p. Channel (chanHosts s ! c) = Some p \<and> Q p s))"
  by (auto simp: chan_ptr_def wp_simps split: option.splits)

lemma wlp_host_conn [wp_simps]:
  "wlp (host_conn h) Q X s =
     (if conn_live s h then Q (the (Connection (connHosts s ! h))) s else X (Some NilDereference) s)"
  by (auto simp: host_conn_def wp_simps conn_live_def split: option.splits)

lemma wlp_chan_ptr [wp_simps]:
  "wlp (chan_ptr c) Q X s =
     (if c < length (chanHosts s) then
        (case Channel (chanHosts s ! c) of None \<Rightarrow> X (Some NilDereference) s | Some p \<Rightarrow> Q p s)
      else X (Some NilDereference) s)"
  by (auto simp: chan_ptr_def wp_simps split: option.splits)

lemma chans_ext_fields [simp]:
  "chans_ext xs (xs[c := (xs ! c)\<lparr>Channel := p\<rparr>])"
  "chans_ext xs (xs[c := (xs ! c)\<lparr>chan_Errors := e\<rparr>])"
  "chans_ext xs (xs[c := (xs ! c)\<lparr>Channel := p, chan_Errors := e\<rparr>])"
  by (rule chans_ext_update; simp)+

lemma MakeChannel_wp:
  assumes "channel_law E" "c < length (chanHosts s)" "conn_live s (connHost (chanHosts s ! c))"
  shows "wp (MakeChannel E c)
    (\<lambda>e t. heap_ext s t \<and> connHosts t = connHosts s \<and> length (chanHosts t) = length (chanHosts s)
       \<and> chan_st.more t = chan_st.more s
       \<and> (e = None \<longrightarrow> Channel (chanHosts t ! c) \<noteq> None \<and> chan_Errors (chanHosts t ! c) = make_chan 100)) s"
  using assms
  by (auto simp: MakeChannel_def confirmMode_def wp_simps heap_ext_def channel_law_def
      split: option.splits)

lemma NewChannelHost_wp:
  assumes "channel_law E" "conn_live s h"
  shows "wp (NewChannelHost E h cid kid ack tr)
    (\<lambda>r t. heap_ext s t \<and> (heap_ok s \<and> ack \<longrightarrow> heap_ok t) \<and> connHosts t = connHosts s \<and>
       chan_st.more t = chan_st.more s \<and>
       (\<forall>c. r = Inr c \<longrightarrow> c = length (chanHosts s) \<and> c < length (chanHosts t)
          \<and> chan_static (chanHosts t ! c) = (cid, kid, ack, tr, h)
          \<and> Channel (chanHosts t ! c) \<noteq> None)) s"
proof -
  let ?d = "\<lparr>Channel = None, chan_ID = cid, chan_ConnectionID = kid, Ackable = ack,
             transient = tr, chan_Errors = make_chan 0, connHost = h\<rparr>"
  define c where "c = length (chanHosts s)"
  define u where "u = (\<lambda>w. s\<lparr>world := w, chanHosts := chanHosts s @ [?d]\<rparr>)"
  have "wp (MakeChannel E c) (\<lambda>e t. heap_ext (u w) t \<and> connHosts t = connHosts (u w)
       \<and> length (chanHosts t) = length (chanHosts (u w))
       \<and> chan_st.more t = chan_st.more (u w)
       \<and> (e = None \<longrightarrow> Channel (chanHosts t ! c) \<noteq> None \<and> chan_Errors (chanHosts t ! c) = make_chan 100)) (u w)" for w
    by (rule MakeChannel_wp) (use assms in \<open>auto simp: c_def u_def conn_live_def\<close>)
  then have "wp (MakeChannel E c) (\<lambda>e t. heap_ext s t \<and> (heap_ok s \<and> ack \<longrightarrow> heap_ok t) \<and> connHosts t = connHosts s
       \<and> chan_st.more t = chan_st.more s
       \<and> (e = None \<longrightarrow> c < length (chanHosts t) \<and> chan_static (chanHosts t ! c) = (cid, kid, ack, tr, h)
          \<and> Channel (chanHosts t ! c) \<noteq> None)) (u w)" for w
  proof (rule wp_mono)
    fix e t
    assume a: "heap_ext (u w) t \<and> connHosts t = connHosts (u w)
       \<and> length (chanHosts t) = length (chanHosts (u w))
       \<and> chan_st.more t = chan_st.more (u w)
       \<and> (e = None \<longrightarrow> Channel (chanHosts t ! c) \<noteq> None \<and> chan_Errors (chanHosts t ! c) = make_chan 100)"
    have su: "heap_ext s (u w)" by (simp add: u_def heap_ext_def)
    have "heap_ok t" if "heap_ok s \<and> ack"
    proof (rule heap_ok_ext [of "u w"])
      show "heap_ok (u w)"
        using that assms(2) by (auto simp: heap_ok_def u_def conn_live_def nth_append less_Suc_eq)
    qed (use a in simp_all)
    moreover have "chan_static (chanHosts t ! c) = (cid, kid, ack, tr, h)" "c < length (chanHosts t)"
      using chan_static_heap [of "u w" t c] a by (auto simp: u_def c_def chan_static_def nth_append)
    moreover have "heap_ext s t" using a su heap_ext_trans by blast
    ultimately show "heap_ext s t \<and> (heap_ok s \<and> ack \<longrightarrow> heap_ok t) \<and> connHosts t = connHosts s
       \<and> chan_st.more t = chan_st.more s
       \<and> (e = None \<longrightarrow> c < length (chanHosts t) \<and> chan_static (chanHosts t ! c) = (cid, kid, ack, tr, h)
          \<and> Channel (chanHosts t ! c) \<noteq> None)"
      using a by (simp add: u_def)
  qed
  note made = wp_mono [OF this]
  show ?thesis
    using assms(2)
    by (auto simp: NewChannelHost_def wp_simps)
      (rule made [unfolded u_def c_def], auto simp: wp_simps split: option.splits)
qed

end
