(* ===== verification/FR_ConnectionPool.thy ===== *)
theory FR_ConnectionPool
  imports FR_ChannelHost
begin

section \<open>The connection pool (connectionpool.go)\<close>

text \<open>
  The pool keeps a queue of connection hosts, handed out round robin, and a buffered channel of
  cached channel hosts. Connections found dead are recovered in place: the goroutine that took
  one dials until the broker answers. All loops of the source that retry without a bound are
  \<open>forever\<close> loops here, so a theorem that an operation returns says when it does.

  A goroutine the pool starts only to close something (\<^verbatim>\<open>go func() { defer recover; Close }\<close>) is
  run on the spot; its panics end there, as in the source.
\<close>

record ('w, 'q) ConnectionPool =
  Config :: PoolConfig
  cp_uri :: string
  cp_heartbeatInterval :: duration
  cp_connectionTimeout :: duration
  connections :: 'q
  channels :: "nat gochan"
  connectionID :: uint64
  flaggedConnections :: "uint64 \<Rightarrow> bool option"
  sleepOnErrorInterval :: duration
  errorHandler :: "'w handler option"
  unhealthyHandler :: "'w handler option"

record ('w, 'q) pool_st = "'w chan_st" +
  pool :: "('w, 'q) ConnectionPool"

definition upd_pool ::
  "(('w, 'q) ConnectionPool \<Rightarrow> ('w, 'q) ConnectionPool) \<Rightarrow> (('w, 'q, 'x) pool_st_scheme, unit) go" where
  "upd_pool f = modify_go (\<lambda>s. s\<lparr>pool := f (pool s)\<rparr>)"

definition get_channels :: "('w, 'q, 'x) pool_st_scheme \<Rightarrow> nat gochan" where
  "get_channels s = channels (pool s)"

definition put_channels :: "nat gochan \<Rightarrow> ('w, 'q, 'x) pool_st_scheme \<Rightarrow> ('w, 'q, 'x) pool_st_scheme" where
  "put_channels c s = s\<lparr>pool := (pool s)\<lparr>channels := c\<rparr>\<rparr>"

subsection \<open>Errors and flags\<close>

definition handleError :: "('w, 'e) env_scheme \<Rightarrow> goerror \<Rightarrow> (('w, 'q, 'x) pool_st_scheme, unit) go" where
  "handleError E err =
     bind_go (gets_go pool) (\<lambda>cp.
     bind_go (call_handler (errorHandler cp) err) (\<lambda>_.
     sleep_if_positive E (sleepOnErrorInterval cp)))"

definition unflagConnection :: "uint64 \<Rightarrow> (('w, 'q, 'x) pool_st_scheme, unit) go" where
  "unflagConnection i = upd_pool (\<lambda>cp. cp\<lparr>flaggedConnections := (flaggedConnections cp)(i := Some False)\<rparr>)"

definition flagConnection :: "uint64 \<Rightarrow> (('w, 'q, 'x) pool_st_scheme, unit) go" where
  "flagConnection i = upd_pool (\<lambda>cp. cp\<lparr>flaggedConnections := (flaggedConnections cp)(i := Some True)\<rparr>)"

definition isConnectionFlagged :: "uint64 \<Rightarrow> (('w, 'q, 'x) pool_st_scheme, bool) go" where
  "isConnectionFlagged i = gets_go (\<lambda>s. case flaggedConnections (pool s) i of
     Some flagged \<Rightarrow> flagged | None \<Rightarrow> False)"

subsection \<open>Recovery\<close>

definition recoverRound :: "('w, 'e) env_scheme \<Rightarrow> nat \<Rightarrow> (('w, 'q, 'x) pool_st_scheme, unit option) go" where
  "recoverRound E h =
     bind_go (gets_go pool) (\<lambda>cp.
     bind_go (ConnectWithErrorHandler E (unhealthyHandler cp) h) (\<lambda>ok.
       if \<not> ok then bind_go (sleep_if_positive E (sleepOnErrorInterval cp)) (\<lambda>_. ret None)
       else ret (Some ())))"

definition flushErrorsRound :: "('w, 'e) env_scheme \<Rightarrow> nat \<Rightarrow> (('w, 'q, 'x) pool_st_scheme, unit option) go" where
  "flushErrorsRound E h =
     bind_go (poll_Errors E h) (\<lambda>r. case r of
       Received e \<Rightarrow> ret None
     | ZeroValue \<Rightarrow> ret None
     | WouldBlock \<Rightarrow>
         bind_go (host_at h) (\<lambda>ch.
         bind_go (unflagConnection (ConnectionID ch)) (\<lambda>_. ret (Some ()))))"

definition triggerConnectionRecovery :: "('w, 'e) env_scheme \<Rightarrow> nat \<Rightarrow> (('w, 'q, 'x) pool_st_scheme, unit) go" where
  "triggerConnectionRecovery E h =
     bind_go (forever (recoverRound E h)) (\<lambda>_. forever (flushErrorsRound E h))"

text \<open>
  The health check: an error (or the closing) of the notification channel is reported to the
  unhealthy handler; the three conditions are tested in the order of the source.
\<close>

definition reportUnhealthy :: "amqp_error received \<Rightarrow> (('w, 'q, 'x) pool_st_scheme, bool) go" where
  "reportUnhealthy r =
     bind_go (gets_go pool) (\<lambda>cp. case r of
       WouldBlock \<Rightarrow> ret True
     | Received e \<Rightarrow>
         bind_go (call_handler (unhealthyHandler cp) (BoxedAmqpError (Some e))) (\<lambda>_. ret False)
     | ZeroValue \<Rightarrow>
         bind_go (call_handler (unhealthyHandler cp) (BoxedAmqpError None)) (\<lambda>_. ret False))"

definition needsRecovery :: "('w, 'e) env_scheme \<Rightarrow> nat \<Rightarrow> bool \<Rightarrow> (('w, 'q, 'x) pool_st_scheme, bool) go" where
  "needsRecovery E h healthy =
     bind_go (host_at h) (\<lambda>ch.
     bind_go (isConnectionFlagged (ConnectionID ch)) (\<lambda>flagged.
       if flagged \<or> \<not> healthy then ret True
       else bind_go (host_conn h) (\<lambda>p. env_call (Conn_IsClosed E p))))"

definition verifyHealthyConnection :: "('w, 'e) env_scheme \<Rightarrow> nat \<Rightarrow> (('w, 'q, 'x) pool_st_scheme, unit) go" where
  "verifyHealthyConnection E h =
     bind_go (poll_Errors E h) (\<lambda>r.
     bind_go (reportUnhealthy r) (\<lambda>healthy.
     bind_go (needsRecovery E h healthy) (\<lambda>bad.
     bind_go (if bad then triggerConnectionRecovery E h else ret ()) (\<lambda>_.
     PauseOnFlowControl E h))))"

subsection \<open>Connections\<close>

definition getConnectionFromPool :: "'q queue_ops \<Rightarrow> (('w, 'q, 'x) pool_st_scheme, goerror + nat) go" where
  "getConnectionFromPool K =
     bind_go (gets_go pool) (\<lambda>cp. case qGet K 1 (connections cp) of
       Blocked \<Rightarrow> block_go
     | Panicked p \<Rightarrow> panic_go p
     | Return (r, q) \<Rightarrow>
         bind_go (upd_pool (\<lambda>cp. cp\<lparr>connections := q\<rparr>)) (\<lambda>_. case r of
           Inl err \<Rightarrow> ret (Inl err)
         | Inr structs \<Rightarrow> (case structs of
             [] \<Rightarrow> panic_go IndexOutOfRange
           | QConnHost h # _ \<Rightarrow> ret (Inr h)
           | QOther # _ \<Rightarrow>
               ret (Inl (ErrorString ''invalid struct type found in ConnectionPool queue'')))))"

definition GetConnection :: "('w, 'e) env_scheme \<Rightarrow> 'q queue_ops \<Rightarrow> (('w, 'q, 'x) pool_st_scheme, goerror + nat) go" where
  "GetConnection E K =
     bind_go (getConnectionFromPool K) (\<lambda>r. case r of
       Inl err \<Rightarrow> bind_go (handleError E err) (\<lambda>_. ret (Inl err))
     | Inr h \<Rightarrow> bind_go (verifyHealthyConnection E h) (\<lambda>_. ret (Inr h)))"

definition ActiveConnections :: "'q queue_ops \<Rightarrow> (('w, 'q, 'x) pool_st_scheme, int64) go" where
  "ActiveConnections K = gets_go (\<lambda>s. qLen K (connections (pool s)))"

definition putConnection :: "'q queue_ops \<Rightarrow> nat \<Rightarrow> (('w, 'q, 'x) pool_st_scheme, goerror option) go" where
  "putConnection K h =
     bind_go (gets_go pool) (\<lambda>cp.
     bind_go (upd_pool (\<lambda>cp. cp\<lparr>connections := snd (qPut K (QConnHost h) (connections cp))\<rparr>)) (\<lambda>_.
     ret (fst (qPut K (QConnHost h) (connections cp)))))"

definition ReturnConnection :: "'q queue_ops \<Rightarrow> nat \<Rightarrow> bool \<Rightarrow> (('w, 'q, 'x) pool_st_scheme, unit) go" where
  "ReturnConnection K h flag =
     bind_go (if flag then bind_go (host_at h) (\<lambda>ch. flagConnection (ConnectionID ch)) else ret ()) (\<lambda>_.
     bind_go (putConnection K h) (\<lambda>_. ret ()))"

subsection \<open>Channels\<close>

definition createChannelRound ::
  "('w, 'e) env_scheme \<Rightarrow> 'q queue_ops \<Rightarrow> uint64 \<Rightarrow> bool \<Rightarrow> (('w, 'q, 'x) pool_st_scheme, nat option) go" where
  "createChannelRound E K cid cacheble =
     bind_go (GetConnection E K) (\<lambda>r. case r of
       Inl err \<Rightarrow> bind_go (handleError E err) (\<lambda>_. ret None)
     | Inr h \<Rightarrow>
         bind_go (host_at h) (\<lambda>ch.
         bind_go (NewChannelHost E h cid (ConnectionID ch) True cacheble) (\<lambda>r. case r of
           Inl err \<Rightarrow>
             bind_go (handleError E err) (\<lambda>_.
             bind_go (ReturnConnection K h True) (\<lambda>_. ret None))
         | Inr c \<Rightarrow>
             bind_go (ReturnConnection K h False) (\<lambda>_. ret (Some c)))))"

definition createCacheChannel ::
  "('w, 'e) env_scheme \<Rightarrow> 'q queue_ops \<Rightarrow> uint64 \<Rightarrow> bool \<Rightarrow> (('w, 'q, 'x) pool_st_scheme, nat) go" where
  "createCacheChannel E K cid cacheble = forever (createChannelRound E K cid cacheble)"

definition GetTransientChannel ::
  "('w, 'e) env_scheme \<Rightarrow> 'q queue_ops \<Rightarrow> bool \<Rightarrow> (('w, 'q, 'x) pool_st_scheme, nat) go" where
  "GetTransientChannel E K ackable = createCacheChannel E K 0 False"

text \<open>The cache is never closed; the nil pointer a closed one would yield is dereferenced by every caller.\<close>

definition GetChannelFromPool :: "(('w, 'q, 'x) pool_st_scheme, nat) go" where
  "GetChannelFromPool =
     bind_go (recv_field get_channels put_channels) (\<lambda>r. case r of
       Received c \<Rightarrow> ret c
     | ZeroValue \<Rightarrow> panic_go NilDereference
     | WouldBlock \<Rightarrow> block_go)"

definition reconnectRound :: "('w, 'e) env_scheme \<Rightarrow> nat \<Rightarrow> (('w, 'q, 'x) pool_st_scheme, unit option) go" where
  "reconnectRound E c =
     bind_go (chan_at c) (\<lambda>ch.
     bind_go (verifyHealthyConnection E (connHost ch)) (\<lambda>_.
     bind_go (MakeChannel E c) (\<lambda>e. case e of
       Some err \<Rightarrow> bind_go (handleError E err) (\<lambda>_. ret None)
     | None \<Rightarrow> ret (Some ()))))"

definition reconnectChannel :: "('w, 'e) env_scheme \<Rightarrow> nat \<Rightarrow> (('w, 'q, 'x) pool_st_scheme, unit) go" where
  "reconnectChannel E c = forever (reconnectRound E c)"

definition ReturnChannel :: "('w, 'e) env_scheme \<Rightarrow> nat \<Rightarrow> bool \<Rightarrow> (('w, 'q, 'x) pool_st_scheme, unit) go" where
  "ReturnChannel E c erred =
     bind_go (chan_at c) (\<lambda>ch.
       if transient ch then
         bind_go (if erred then reconnectChannel E c else ret ()) (\<lambda>_.
         send_field get_channels put_channels c)
       else recover_go (ChannelHost_Close E c))"

subsection \<open>Construction\<close>

text \<open>The two counting loops of \<^verbatim>\<open>initializeConnections\<close>, by the number of rounds left.\<close>

fun initConnections :: "('w, 'e) env_scheme \<Rightarrow> 'q queue_ops \<Rightarrow> nat \<Rightarrow> (('w, 'q, 'x) pool_st_scheme, bool) go" where
  "initConnections E K 0 = ret True"
| "initConnections E K (Suc n) =
     bind_go (gets_go pool) (\<lambda>cp.
     bind_go (NewConnectionHost E (cp_uri cp)
        (ApplicationName (Config cp) @ ''-'' @ FormatUint (connectionID cp)) (connectionID cp)
        (cp_heartbeatInterval cp) (cp_connectionTimeout cp) (pc_TLSConfig (Config cp))) (\<lambda>r. case r of
       Inl err \<Rightarrow> bind_go (handleError E err) (\<lambda>_. ret False)
     | Inr h \<Rightarrow>
         bind_go (putConnection K h) (\<lambda>e. case e of
           Some err \<Rightarrow> bind_go (handleError E err) (\<lambda>_. ret False)
         | None \<Rightarrow>
             bind_go (upd_pool (\<lambda>cp. cp\<lparr>connectionID := connectionID cp + 1\<rparr>)) (\<lambda>_.
             initConnections E K n))))"

fun initChannels :: "('w, 'e) env_scheme \<Rightarrow> 'q queue_ops \<Rightarrow> uint64 \<Rightarrow> nat \<Rightarrow> (('w, 'q, 'x) pool_st_scheme, unit) go" where
  "initChannels E K i 0 = ret ()"
| "initChannels E K i (Suc n) =
     bind_go (createCacheChannel E K i True) (\<lambda>c.
     bind_go (send_field get_channels put_channels c) (\<lambda>_.
     initChannels E K (i + 1) n))"

text \<open>\<^verbatim>\<open>queue.New(int64(n))\<close> and \<^verbatim>\<open>make(chan *ChannelHost, n)\<close>, which panic on sizes that do not fit.\<close>

definition newQueue :: "'q queue_ops \<Rightarrow> uint64 \<Rightarrow> ('s, 'q) go" where
  "newQueue K n = (case qNew K n of Return q \<Rightarrow> ret q | Panicked p \<Rightarrow> panic_go p | Blocked \<Rightarrow> block_go)"

definition makeChannels :: "uint64 \<Rightarrow> ('s, nat gochan) go" where
  "makeChannels n = (if chan_fits n then ret (make_chan (unat n)) else panic_go MakeSizeOutOfRange)"

definition initializeConnections :: "('w, 'e) env_scheme \<Rightarrow> 'q queue_ops \<Rightarrow> (('w, 'q, 'x) pool_st_scheme, bool) go" where
  "initializeConnections E K =
     bind_go (upd_pool (\<lambda>cp. cp\<lparr>connectionID := 0\<rparr>)) (\<lambda>_.
     bind_go (gets_go pool) (\<lambda>cp.
     bind_go (newQueue K (MaxConnectionCount (Config cp))) (\<lambda>q.
     bind_go (upd_pool (\<lambda>cp. cp\<lparr>connections := q\<rparr>)) (\<lambda>_.
     bind_go (initConnections E K (unat (MaxConnectionCount (Config cp)))) (\<lambda>ok.
       if \<not> ok then ret False
       else bind_go (initChannels E K 0 (unat (MaxCacheChannelCount (Config cp)))) (\<lambda>_. ret True))))))"

definition newPool ::
  "'q \<Rightarrow> nat gochan \<Rightarrow> PoolConfig \<Rightarrow> 'w handler option \<Rightarrow> 'w handler option \<Rightarrow> ('w, 'q) ConnectionPool" where
  "newPool q c cfg eh uh =
     \<lparr>Config = cfg, cp_uri = pc_URI cfg,
      cp_heartbeatInterval = Duration (Heartbeat cfg) Second,
      cp_connectionTimeout = Duration (ConnectionTimeout cfg) Second,
      connections = q,
      channels = c,
      connectionID = 0,
      flaggedConnections = Map.empty,
      sleepOnErrorInterval = Duration (pc_SleepOnErrorInterval cfg) Millisecond,
      errorHandler = eh, unhealthyHandler = uh\<rparr>"

definition NewConnectionPool ::
  "('w, 'e) env_scheme \<Rightarrow> 'q queue_ops \<Rightarrow> PoolConfig \<Rightarrow> 'w handler option \<Rightarrow> 'w handler option
     \<Rightarrow> (('w, 'q, 'x) pool_st_scheme, goerror option) go" where
  "NewConnectionPool E K cfg eh uh =
     (if Heartbeat cfg = 0 \<or> ConnectionTimeout cfg = 0 then
        ret (Some (ErrorString ''connectionpool heartbeat or connectiontimeout can't be 0''))
      else if MaxConnectionCount cfg = 0 then
        ret (Some (ErrorString ''connectionpool maxconnectioncount can't be 0''))
      else
        bind_go (newQueue K (MaxConnectionCount cfg)) (\<lambda>q.
        bind_go (makeChannels (MaxCacheChannelCount cfg)) (\<lambda>c.
        bind_go (upd_pool (\<lambda>_. newPool q c cfg eh uh)) (\<lambda>_.
        bind_go (initializeConnections E K) (\<lambda>ok.
          if \<not> ok then ret (Some (ErrorString ''initialization failed during connection creation''))
          else ret None)))))"

subsection \<open>Shutdown\<close>

definition flushChannelsRound :: "('w, 'e) env_scheme \<Rightarrow> (('w, 'q, 'x) pool_st_scheme, unit option) go" where
  "flushChannelsRound E =
     bind_go (recv_field get_channels put_channels) (\<lambda>r. case r of
       Received c \<Rightarrow> bind_go (recover_go (ChannelHost_Close E c)) (\<lambda>_. ret None)
     | ZeroValue \<Rightarrow> ret None
     | WouldBlock \<Rightarrow> ret (Some ()))"

definition closeHost :: "('w, 'e) env_scheme \<Rightarrow> nat \<Rightarrow> (('w, 'q, 'x) pool_st_scheme, unit) go" where
  "closeHost E h = recover_go (
     bind_go (host_conn h) (\<lambda>p.
     bind_go (env_call (Conn_IsClosed E p)) (\<lambda>closed.
       if \<not> closed then env_do (Conn_Close E p) else ret ())))"

fun closeItems :: "('w, 'e) env_scheme \<Rightarrow> qitem list \<Rightarrow> (('w, 'q, 'x) pool_st_scheme, unit) go" where
  "closeItems E [] = ret ()"
| "closeItems E (QConnHost h # items) = bind_go (closeHost E h) (\<lambda>_. closeItems E items)"
| "closeItems E (QOther # items) = panic_go FailedTypeAssertion"

definition drainRound :: "('w, 'e) env_scheme \<Rightarrow> 'q queue_ops \<Rightarrow> (('w, 'q, 'x) pool_st_scheme, unit option) go" where
  "drainRound E K =
     bind_go (gets_go pool) (\<lambda>cp.
       if qEmpty K (connections cp) then ret (Some ())
       else (case qGet K (qLen K (connections cp)) (connections cp) of
         Blocked \<Rightarrow> block_go
       | Panicked p \<Rightarrow> panic_go p
       | Return (r, q) \<Rightarrow>
           bind_go (upd_pool (\<lambda>cp. cp\<lparr>connections := q\<rparr>)) (\<lambda>_.
           bind_go (closeItems E (case r of Inl _ \<Rightarrow> [] | Inr items \<Rightarrow> items)) (\<lambda>_. ret None))))"

definition ConnectionPool_Shutdown ::
  "('w, 'e) env_scheme \<Rightarrow> 'q queue_ops \<Rightarrow> bool \<Rightarrow> (('w, 'q, 'x) pool_st_scheme, unit) go" where
  "ConnectionPool_Shutdown E K nilReceiver =
     (if nilReceiver then ret ()
      else
        bind_go (forever (flushChannelsRound E)) (\<lambda>_.
        bind_go (forever (drainRound E K)) (\<lambda>_.
        bind_go (gets_go pool) (\<lambda>cp.
        bind_go (newQueue K (MaxConnectionCount (Config cp))) (\<lambda>q.
        upd_pool (\<lambda>cp. cp\<lparr>connections := q, flaggedConnections := Map.empty, connectionID := 0\<rparr>))))))"

subsection \<open>Frames\<close>

interpretation cache: chan_field get_channels put_channels
  by unfold_locales (simp_all add: get_channels_def put_channels_def)

lemma wlp_upd_pool [wp_simps]: "wlp (upd_pool f) Q X s = Q () (s\<lparr>pool := f (pool s)\<rparr>)"
  by (simp add: upd_pool_def wp_simps)

lemma wp_upd_pool [wp_simps]: "wp (upd_pool f) Q s = Q () (s\<lparr>pool := f (pool s)\<rparr>)"
  by (simp add: upd_pool_def wp_simps)

lemma newQueue_fits:
  assumes "fifo_queue K items" "slice_fits n"
  obtains q where "qNew K n = Return q" "items q = []"
  using assms unfolding fifo_queue_def by blast

lemma newQueue_ret: "qNew K n = Return q \<Longrightarrow> newQueue K n = ret q"
  by (simp add: newQueue_def)

lemma newQueue_panics: "fifo_queue K items \<Longrightarrow> \<not> slice_fits n \<Longrightarrow> newQueue K n = panic_go MakeSizeOutOfRange"
  by (simp add: fifo_queue_def newQueue_def)

text \<open>
  \<open>pool_step s t\<close>: what a health check or a recovery may have done between \<open>s\<close> and \<open>t\<close>. Hosts may have
  got new connections, flags may have changed; channel hosts, the queue, the cache and the
  settings of the pool are the same.
\<close>

definition pool_step :: "('w, 'q, 'x) pool_st_scheme \<Rightarrow> ('w, 'q, 'x) pool_st_scheme \<Rightarrow> bool" where
  "pool_step s t \<longleftrightarrow> hosts_ext (connHosts s) (connHosts t) \<and> chanHosts t = chanHosts s \<and>
     pool t = (pool s)\<lparr>flaggedConnections := flaggedConnections (pool t)\<rparr> \<and>
     pool_st.more t = pool_st.more s"

lemma pool_step_refl [simp, intro]: "pool_step s s"
  by (simp add: pool_step_def)

lemma pool_step_trans [trans]: "pool_step s t \<Longrightarrow> pool_step t u \<Longrightarrow> pool_step s u"
  unfolding pool_step_def by (metis (no_types, lifting) ConnectionPool.surjective ConnectionPool.update_convs(8) hosts_ext_trans)

lemma pool_step_world [simp]: "pool_step s (t\<lparr>world := w\<rparr>) = pool_step s t"
  by (simp add: pool_step_def)

lemma pool_step_flags [simp]:
  "pool_step s (t\<lparr>pool := (pool t)\<lparr>flaggedConnections := f\<rparr>\<rparr>) = pool_step s t"
  unfolding pool_step_def by (cases "pool s"; cases "pool t") auto

lemma conn_ext_pool_step: "conn_ext s t \<Longrightarrow> pool_step s t"
  by (cases s; cases t) (auto simp: conn_ext_def pool_step_def)

lemma pool_step_live: "conn_live s h \<Longrightarrow> pool_step s t \<Longrightarrow> conn_live t h"
  by (auto simp: pool_step_def intro: conn_live_hosts)

lemma pool_step_length: "pool_step s t \<Longrightarrow> h < length (connHosts s) \<Longrightarrow> h < length (connHosts t)"
  by (simp add: pool_step_def hosts_ext_def)

lemma pool_step_heap: "pool_step s t \<Longrightarrow> heap_ext s t"
  by (simp add: pool_step_def heap_ext_def)

lemma live_length: "conn_live s h \<Longrightarrow> h < length (connHosts s)"
  by (simp add: conn_live_def)

lemma wlp_sleep [wp_simps]:
  "wlp (sleep_if_positive E d) Q X s =
     Q () (if 0 <s d then s\<lparr>world := time_Sleep E d (world s)\<rparr> else s)"
  by (simp add: sleep_if_positive_def wp_simps)

lemma wp_sleep [wp_simps]:
  "wp (sleep_if_positive E d) Q s =
     Q () (if 0 <s d then s\<lparr>world := time_Sleep E d (world s)\<rparr> else s)"
  by (simp add: sleep_if_positive_def wp_simps)

lemma wlp_call_handler [wp_simps]:
  "wlp (call_handler eh e) Q X s =
     Q () (case eh of None \<Rightarrow> s | Some f \<Rightarrow> s\<lparr>world := f e (world s)\<rparr>)"
  by (simp add: call_handler_def wp_simps split: option.splits)

lemma wp_call_handler [wp_simps]:
  "wp (call_handler eh e) Q s =
     Q () (case eh of None \<Rightarrow> s | Some f \<Rightarrow> s\<lparr>world := f e (world s)\<rparr>)"
  by (simp add: call_handler_def wp_simps split: option.splits)

lemma handleError_wp: "wp (handleError E err) (\<lambda>_ t. \<exists>w. t = s\<lparr>world := w\<rparr>) s"
  by (auto simp: handleError_def wp_simps intro: exI [of _ "world s"] split: option.splits)

lemma recoverRound_wlp:
  assumes "h < length (connHosts s)"
  shows "wlp (recoverRound E h) (\<lambda>c t. pool_step s t \<and> (c \<noteq> None \<longrightarrow> conn_live t h)) X s"
proof -
  have "wp (ConnectWithErrorHandler E eh h) (\<lambda>ok t. pool_step s t \<and> (ok \<longrightarrow> conn_live t h)) s" for eh
    using ConnectWithErrorHandler_wp [OF assms] by (rule wp_mono) (auto intro: conn_ext_pool_step)
  note conn = wlp_mono [OF wp_imp_wlp [OF this]]
  show ?thesis
    by (auto simp: recoverRound_def wp_simps intro!: conn)
qed

lemma flushErrorsRound_wlp:
  assumes "h < length (connHosts s)"
  shows "wlp (flushErrorsRound E h) (\<lambda>_ t. pool_step s t) X s"
proof -
  have "wlp (poll_Errors E h) (\<lambda>_ t. pool_step s t \<and> h < length (connHosts t)) X s"
    by (rule wlp_mono [OF wp_imp_wlp [OF poll_Errors_wp [OF assms]]])
      (use assms in \<open>auto simp: conn_ext_def hosts_ext_def intro: conn_ext_pool_step\<close>)
  then show ?thesis
    unfolding flushErrorsRound_def
    by (rule wlp_seq) (auto simp: wp_simps unflagConnection_def split: received.splits)
qed

lemma triggerConnectionRecovery_wlp:
  assumes "h < length (connHosts s)"
  shows "wlp (triggerConnectionRecovery E h) (\<lambda>_ t. pool_step s t \<and> conn_live t h) X s"
  unfolding triggerConnectionRecovery_def
proof (rule wlp_seq)
  show "wlp (forever (recoverRound E h)) (\<lambda>_ t. pool_step s t \<and> conn_live t h) X s"
  proof (rule wlp_forever [where I = "\<lambda>t. pool_step s t \<and> h < length (connHosts t)"])
    fix t assume t: "pool_step s t \<and> h < length (connHosts t)"
    then have "wlp (recoverRound E h) (\<lambda>c u. pool_step t u \<and> (c \<noteq> None \<longrightarrow> conn_live u h)) X t"
      by (intro recoverRound_wlp) simp
    then show "wlp (recoverRound E h) (\<lambda>c u. case c of
        None \<Rightarrow> pool_step s u \<and> h < length (connHosts u) | Some a \<Rightarrow> pool_step s u \<and> conn_live u h) X t"
      by (rule wlp_mono)
        (use t in \<open>auto split: option.splits intro: pool_step_trans pool_step_length\<close>)
  qed (use assms in simp)
next
  fix a t assume t: "pool_step s t \<and> conn_live t h"
  show "wlp (forever (flushErrorsRound E h)) (\<lambda>_ u. pool_step s u \<and> conn_live u h) X t"
  proof (rule wlp_forever [where I = "\<lambda>u. pool_step s u \<and> conn_live u h"])
    fix u assume u: "pool_step s u \<and> conn_live u h"
    then have "wlp (flushErrorsRound E h) (\<lambda>_ v. pool_step u v) X u"
      by (intro flushErrorsRound_wlp) (auto simp: conn_live_def)
    then show "wlp (flushErrorsRound E h) (\<lambda>c v. case c of
        None \<Rightarrow> pool_step s v \<and> conn_live v h | Some a \<Rightarrow> pool_step s v \<and> conn_live v h) X u"
      by (rule wlp_mono) (use u in \<open>auto split: option.splits intro: pool_step_trans pool_step_live\<close>)
  qed (use t in simp)
qed

lemma verifyHealthyConnection_wlp:
  assumes "conn_live s h"
  shows "wlp (verifyHealthyConnection E h) (\<lambda>_ t. pool_step s t) (\<lambda>_ _. False) s"
proof -
  let ?R = "\<lambda>_ t. pool_step s t \<and> conn_live t h"
  have poll: "wlp (poll_Errors E h) ?R (\<lambda>_ _. False) s"
    by (rule wlp_mono [OF wp_imp_wlp [OF poll_Errors_wp [OF live_length [OF assms]]]])
      (use assms in \<open>auto intro: conn_ext_pool_step conn_live_ext\<close>)
  have recover: "wlp (if bad then triggerConnectionRecovery E h else ret ()) ?R (\<lambda>_ _. False) t"
    if "?R a t" for a t bad
  proof (cases bad)
    case True
    have "wlp (triggerConnectionRecovery E h) (\<lambda>_ u. pool_step t u \<and> conn_live u h) (\<lambda>_ _. False) t"
      by (rule triggerConnectionRecovery_wlp) (use that live_length in blast)
    then have "wlp (triggerConnectionRecovery E h) ?R (\<lambda>_ _. False) t"
      by (rule wlp_mono) (use that in \<open>auto intro: pool_step_trans\<close>)
    with True show ?thesis by simp
  qed (use that in \<open>simp add: wp_simps\<close>)
  have pause: "wlp (PauseOnFlowControl E h) (\<lambda>_ u. pool_step s u) (\<lambda>_ _. False) t"
    if "?R a t" for a t
    by (rule wlp_mono [OF PauseOnFlowControl_wlp])
      (use that in \<open>auto intro: conn_ext_pool_step pool_step_trans\<close>)
  have report: "wlp (reportUnhealthy r) ?R (\<lambda>_ _. False) t" if "?R r t" for r t
    using that by (auto simp: reportUnhealthy_def wp_simps split: received.splits option.splits)
  have needs: "wlp (needsRecovery E h healthy) ?R (\<lambda>_ _. False) t" if "?R healthy t" for healthy t
    using that by (auto simp: needsRecovery_def isConnectionFlagged_def wp_simps live_length)
  show ?thesis
    unfolding verifyHealthyConnection_def
    by (intro wlp_seq [OF poll] wlp_seq [OF report] wlp_seq [OF needs] wlp_seq [OF recover] pause)
qed

end
