(* ===== verification/FR_PoolSafety.thy ===== *)
theory FR_PoolSafety
  imports FR_ConnectionPool
begin

section \<open>Safety of the pool\<close>

text \<open>
  The invariant of the pool and its preservation by every operation, whatever the broker and the
  network do: the queue holds connection hosts only, each with a connection; the cache holds
  managed channels only, never more than its capacity; every channel host is in confirm mode and
  points to a connection host that has a connection; the queue of the pool can be allocated (again);
  no operation panics.
\<close>

definition pool_inv :: "('q \<Rightarrow> qitem list) \<Rightarrow> ('w, 'q, 'x) pool_st_scheme \<Rightarrow> bool" where
  "pool_inv items s \<longleftrightarrow> heap_ok s \<and>
     (\<forall>x \<in> set (items (connections (pool s))). \<exists>h. x = QConnHost h \<and> conn_live s h) \<and>
     (\<forall>c \<in> set (ch_buf (channels (pool s))). c < length (chanHosts s) \<and> transient (chanHosts s ! c)) \<and>
     \<not> ch_closed (channels (pool s)) \<and> chan_ok (channels (pool s)) \<and> slice_fits (MaxConnectionCount (Config (pool s)))"

text \<open>
  \<open>safe items m Q s\<close>: from \<open>s\<close> the code \<open>m\<close> keeps the invariant and the heaps' identities however it
  stops, it never panics, and if it returns \<open>Q\<close> holds.
\<close>

definition safe ::
  "('q \<Rightarrow> qitem list) \<Rightarrow> (('w, 'q, 'x) pool_st_scheme, 'a) go
     \<Rightarrow> ('a \<Rightarrow> ('w, 'q, 'x) pool_st_scheme \<Rightarrow> bool) \<Rightarrow> ('w, 'q, 'x) pool_st_scheme \<Rightarrow> bool" where
  "safe items m Q s \<longleftrightarrow>
     wlp m (\<lambda>a t. pool_inv items t \<and> heap_ext s t \<and> Q a t)
           (\<lambda>p t. p = None \<and> pool_inv items t \<and> heap_ext s t) s"

lemma safe_seq:
  assumes "safe items m R s" "\<And>a t. pool_inv items t \<Longrightarrow> heap_ext s t \<Longrightarrow> R a t \<Longrightarrow> safe items (f a) Q t"
  shows "safe items (bind_go m f) Q s"
  unfolding safe_def
proof (rule wlp_seq)
  show "wlp m (\<lambda>a t. pool_inv items t \<and> heap_ext s t \<and> R a t)
           (\<lambda>p t. p = None \<and> pool_inv items t \<and> heap_ext s t) s"
    using assms(1) by (simp add: safe_def)
  fix a t assume t: "pool_inv items t \<and> heap_ext s t \<and> R a t"
  with assms(2) have "safe items (f a) Q t" by blast
  then show "wlp (f a) (\<lambda>a t. pool_inv items t \<and> heap_ext s t \<and> Q a t)
           (\<lambda>p t. p = None \<and> pool_inv items t \<and> heap_ext s t) t"
    unfolding safe_def by (rule wlp_mono) (use t in \<open>auto intro: heap_ext_trans\<close>)
qed

lemma safe_mono: "safe items m R s \<Longrightarrow> (\<And>a t. heap_ext s t \<Longrightarrow> R a t \<Longrightarrow> Q a t) \<Longrightarrow> safe items m Q s"
  unfolding safe_def by (erule wlp_mono) auto

lemma safe_forever:
  assumes "pool_inv items s" "I s"
    and "\<And>t. pool_inv items t \<Longrightarrow> heap_ext s t \<Longrightarrow> I t \<Longrightarrow>
           safe items body (\<lambda>c u. case c of None \<Rightarrow> I u | Some a \<Rightarrow> Q a u) t"
  shows "safe items (forever body) Q s"
  unfolding safe_def
proof (rule wlp_forever [where I = "\<lambda>t. pool_inv items t \<and> heap_ext s t \<and> I t"])
  fix t assume t: "pool_inv items t \<and> heap_ext s t \<and> I t"
  with assms(3) have "safe items body (\<lambda>c u. case c of None \<Rightarrow> I u | Some a \<Rightarrow> Q a u) t" by blast
  then show "wlp body (\<lambda>c u. case c of None \<Rightarrow> pool_inv items u \<and> heap_ext s u \<and> I u
        | Some a \<Rightarrow> pool_inv items u \<and> heap_ext s u \<and> Q a u)
      (\<lambda>p u. p = None \<and> pool_inv items u \<and> heap_ext s u) t"
    unfolding safe_def
    by (rule wlp_mono) (use t in \<open>auto intro: heap_ext_trans split: option.splits\<close>)
qed (use assms in simp)

lemma safe_ret [simp]: "safe items (ret a) Q s \<longleftrightarrow> pool_inv items s \<and> Q a s"
  by (simp add: safe_def wp_simps)

lemma safe_if: "safe items (if b then m else n) Q s \<longleftrightarrow> (if b then safe items m Q s else safe items n Q s)"
  by simp

lemma inv_world [simp]: "pool_inv items (s\<lparr>world := w\<rparr>) = pool_inv items s"
  by (simp add: pool_inv_def)

lemma inv_flags [simp]:
  "pool_inv items (s\<lparr>pool := (pool s)\<lparr>flaggedConnections := f\<rparr>\<rparr>) = pool_inv items s"
  by (simp add: pool_inv_def heap_ok_def conn_live_def)

lemma heap_ext_pool [simp]: "heap_ext s (t\<lparr>pool := p\<rparr>) = heap_ext s t"
  by (simp add: heap_ext_def)

lemma pool_step_inv:
  assumes "pool_inv items s" "pool_step s t"
  shows "pool_inv items t"
proof -
  have "connections (pool t) = connections (pool s)" "channels (pool t) = channels (pool s)"
    "Config (pool t) = Config (pool s)" "chanHosts t = chanHosts s"
    using assms(2) unfolding pool_step_def
    by (metis ConnectionPool.select_convs(1,5,6) ConnectionPool.surjective ConnectionPool.update_convs(8))+
  moreover have "heap_ok t"
    using assms calculation(4) pool_step_live [OF _ assms(2)]
    by (auto simp: pool_inv_def heap_ok_def)
  moreover have "\<exists>h. x = QConnHost h \<and> conn_live t h" if "x \<in> set (items (connections (pool s)))" for x
    using that assms(1) pool_step_live [OF _ assms(2)] unfolding pool_inv_def by blast
  ultimately show ?thesis
    using assms(1) by (simp add: pool_inv_def)
qed

lemma safe_pool_step:
  assumes "pool_inv items s" "wlp m (\<lambda>a t. pool_step s t \<and> Q a t) (\<lambda>_ _. False) s"
  shows "safe items m Q s"
  unfolding safe_def
  by (rule wlp_mono [OF assms(2)]) (use assms in \<open>auto intro: pool_step_inv pool_step_heap\<close>)

lemma safe_gets: "pool_inv items s \<Longrightarrow> Q (f s) s \<Longrightarrow> safe items (gets_go f) Q s"
  by (simp add: safe_def wp_simps)

lemma handleError_safe: "pool_inv items s \<Longrightarrow> (\<And>t. pool_step s t \<Longrightarrow> Q () t) \<Longrightarrow> safe items (handleError E err) Q s"
  by (rule safe_pool_step) (auto simp: handleError_def wp_simps split: option.splits)

lemma verify_safe:
  "pool_inv items s \<Longrightarrow> conn_live s h \<Longrightarrow> safe items (verifyHealthyConnection E h) (\<lambda>_ t. conn_live t h) s"
  by (rule safe_pool_step, assumption, rule wlp_mono [OF verifyHealthyConnection_wlp])
    (auto intro: pool_step_live)

subsection \<open>Connections\<close>

lemma fifo_put:
  "fifo_queue K items \<Longrightarrow> fst (qPut K x q) = None \<and> items (snd (qPut K x q)) = items q @ [x]"
  by (simp add: fifo_queue_def)

lemma fifo_get_empty: "fifo_queue K items \<Longrightarrow> items q = [] \<Longrightarrow> qGet K 1 q = Blocked"
  by (simp add: fifo_queue_def word_sless_alt)

lemma fifo_get:
  "fifo_queue K items \<Longrightarrow> items q \<noteq> [] \<Longrightarrow> 0 <s n \<Longrightarrow>
     \<exists>q'. qGet K n q = Return (Inr (take (nat (sint n)) (items q)), q') \<and>
          items q' = drop (nat (sint n)) (items q)"
  by (simp add: fifo_queue_def)

lemma fifo_get_one:
  assumes "fifo_queue K items" "items q = x # xs"
  obtains q' where "qGet K 1 q = Return (Inr [x], q')" "items q' = xs"
  using fifo_get [OF assms(1), of q 1] assms(2) by (auto simp: word_sless_alt)

lemma getConnectionFromPool_safe:
  assumes "fifo_queue K items" "pool_inv items s"
  shows "safe items (getConnectionFromPool K) (\<lambda>r t. \<exists>h. r = Inr h \<and> conn_live t h) s"
proof (cases "items (connections (pool s))")
  case Nil
  with assms show ?thesis
    by (simp add: safe_def getConnectionFromPool_def wp_simps fifo_get_empty)
next
  case (Cons x xs)
  obtain q' where q': "qGet K 1 (connections (pool s)) = Return (Inr [x], q')" "items q' = xs"
    using fifo_get_one [OF assms(1) Cons] .
  obtain h where "x = QConnHost h" "conn_live s h"
    using assms(2) Cons by (auto simp: pool_inv_def)
  with assms(2) Cons q' show ?thesis
    by (auto simp: safe_def getConnectionFromPool_def wp_simps pool_inv_def heap_ok_def conn_live_def)
qed

lemma GetConnection_safe:
  assumes "fifo_queue K items" "pool_inv items s"
  shows "safe items (GetConnection E K) (\<lambda>r t. \<exists>h. r = Inr h \<and> conn_live t h) s"
  unfolding GetConnection_def
proof (rule safe_seq [OF getConnectionFromPool_safe [OF assms]], goal_cases)
  case (1 r t)
  then obtain h where "r = Inr h" "conn_live t h" by blast
  with 1 show ?case
    by (auto intro!: safe_seq [OF verify_safe])
qed

lemma putConnection_safe:
  assumes "fifo_queue K items" "pool_inv items s" "conn_live s h"
  shows "safe items (putConnection K h) (\<lambda>e t. e = None \<and> connHosts t = connHosts s) s"
  using assms fifo_put [OF assms(1)]
  by (auto simp: safe_def putConnection_def wp_simps pool_inv_def heap_ok_def conn_live_def)

lemma ReturnConnection_safe:
  assumes "fifo_queue K items" "pool_inv items s" "conn_live s h"
  shows "safe items (ReturnConnection K h flag) (\<lambda>_ t. conn_live t h) s"
  unfolding ReturnConnection_def
proof (rule safe_seq [where R = "\<lambda>_ t. conn_live t h"])
  show "safe items (if flag then bind_go (host_at h) (\<lambda>ch. flagConnection (ConnectionID ch)) else ret ())
     (\<lambda>_ t. conn_live t h) s"
    using assms by (auto simp: safe_def flagConnection_def wp_simps live_length conn_live_def)
next
  fix t assume "pool_inv items t" "conn_live t h"
  then show "safe items (bind_go (putConnection K h) (\<lambda>_. ret ())) (\<lambda>_ t. conn_live t h) t"
    by (intro safe_seq [OF putConnection_safe [OF assms(1)]]) (auto simp: conn_live_def)
qed

subsection \<open>Channels\<close>

definition managed :: "('w, 'q, 'x) pool_st_scheme \<Rightarrow> nat \<Rightarrow> bool" where
  "managed s c \<longleftrightarrow> c < length (chanHosts s) \<and> transient (chanHosts s ! c)"

lemma managed_ext: "managed s c \<Longrightarrow> heap_ext s t \<Longrightarrow> managed t c"
  using chan_static_heap [of s t c]
  by (auto simp: managed_def chan_static_def dest: heap_ext_length)

lemma inv_heap_ok: "pool_inv items s \<Longrightarrow> heap_ok s"
  by (simp add: pool_inv_def)

lemma inv_cache_ext:
  assumes "pool_inv items s" "heap_ext s t" "chan_st.more t = chan_st.more s" "heap_ok t"
  shows "pool_inv items t"
proof -
  have "pool t = pool s"
    using assms(3) by (cases s; cases t) simp
  moreover have "\<exists>h. x = QConnHost h \<and> conn_live t h" if "x \<in> set (items (connections (pool s)))" for x
    using that assms(1) conn_live_heap [OF _ assms(2)] unfolding pool_inv_def by blast
  moreover have "managed t c" if "c \<in> set (ch_buf (channels (pool s)))" for c
    by (rule managed_ext [OF _ assms(2)]) (use that assms(1) in \<open>simp add: pool_inv_def managed_def\<close>)
  ultimately show ?thesis
    using assms by (simp add: pool_inv_def managed_def)
qed

lemma NewChannelHost_safe:
  assumes "channel_law E" "pool_inv items s" "conn_live s h"
  shows "safe items (NewChannelHost E h cid kid True tr)
    (\<lambda>r t. conn_live t h \<and> (\<forall>c. r = Inr c \<longrightarrow> c < length (chanHosts t) \<and>
        chan_static (chanHosts t ! c) = (cid, kid, True, tr, h))) s"
  unfolding safe_def
  by (rule wp_imp_wlp, rule wp_mono [OF NewChannelHost_wp [OF assms(1,3)]])
    (use assms inv_heap_ok [OF assms(2)] in \<open>auto intro: inv_cache_ext [of items s] conn_live_heap\<close>)

text \<open>A channel the pool hands out: valid, in confirm mode, cached or not as asked.\<close>

definition handed_out :: "bool \<Rightarrow> uint64 \<Rightarrow> ('w, 'q, 'x) pool_st_scheme \<Rightarrow> nat \<Rightarrow> bool" where
  "handed_out cached cid s c \<longleftrightarrow> c < length (chanHosts s) \<and> Ackable (chanHosts s ! c) \<and>
     transient (chanHosts s ! c) = cached \<and> chan_ID (chanHosts s ! c) = cid"

lemma handed_out_ext: "handed_out b i s c \<Longrightarrow> heap_ext s t \<Longrightarrow> handed_out b i t c"
  using chan_static_heap [of s t c]
  by (auto simp: handed_out_def chan_static_def dest: heap_ext_length)

lemma handed_outI:
  "c < length (chanHosts s) \<Longrightarrow> chan_static (chanHosts s ! c) = (cid, kid, True, b, h) \<Longrightarrow> handed_out b cid s c"
  by (simp add: handed_out_def chan_static_def)

lemma createChannelRound_safe:
  assumes "fifo_queue K items" "channel_law E" "pool_inv items s"
  shows "safe items (createChannelRound E K cid b) (\<lambda>r t. \<forall>c. r = Some c \<longrightarrow> handed_out b cid t c) s"
  unfolding createChannelRound_def
proof (rule safe_seq [OF GetConnection_safe [OF assms(1,3)]], goal_cases)
  case (1 r t)
  then obtain h where r: "r = Inr h" and h: "conn_live t h" by blast
  let ?Q = "\<lambda>r t. \<forall>c. r = Some c \<longrightarrow> handed_out b cid t c"
  have host: "safe items (host_at h) (\<lambda>_ u. conn_live u h) t"
    using 1(1) h by (auto simp: safe_def wp_simps live_length)
  have fin: "safe items (bind_go (ReturnConnection K h fl) (\<lambda>_. ret res)) ?Q v"
    if "pool_inv items v" "conn_live v h" "\<And>c. res = Some c \<Longrightarrow> handed_out b cid v c" for fl v res
    by (rule safe_seq [OF ReturnConnection_safe [OF assms(1) that(1,2)]])
      (use that(3) handed_out_ext in auto)
  have err: "safe items (bind_go (handleError E e) (\<lambda>_. bind_go (ReturnConnection K h True) (\<lambda>_. ret None))) ?Q v"
    if "pool_inv items v" "conn_live v h" for e v
    by (rule safe_seq [OF handleError_safe [OF that(1), where Q = "\<lambda>_ u. conn_live u h"]])
      (use that pool_step_live in \<open>auto intro!: fin\<close>)
  show ?case
    unfolding r sum.case
    by (rule safe_seq [OF host], rule safe_seq [OF NewChannelHost_safe [OF assms(2)]])
      (auto split: sum.splits intro!: err fin intro: handed_outI)
qed

lemma createCacheChannel_safe:
  assumes "fifo_queue K items" "channel_law E" "pool_inv items s"
  shows "safe items (createCacheChannel E K cid b) (\<lambda>c t. handed_out b cid t c) s"
  unfolding createCacheChannel_def
  by (rule safe_forever [where I = "\<lambda>_. True"], rule assms(3), simp,
      rule safe_mono [OF createChannelRound_safe [OF assms(1,2)]])
    (auto split: option.splits)

lemma GetChannelFromPool_safe:
  assumes "pool_inv items s"
  shows "safe items GetChannelFromPool (\<lambda>c t. managed t c) s"
proof (cases "channels (pool s)" rule: chan_recv_cases)
  case (got x xs)
  with assms show ?thesis
    by (auto simp: safe_def GetChannelFromPool_def wp_simps get_channels_def put_channels_def
        pool_inv_def managed_def heap_ok_def conn_live_def chan_ok_def)
next
  case wait
  with assms show ?thesis
    by (simp add: safe_def GetChannelFromPool_def wp_simps get_channels_def put_channels_def)
next
  case zero
  with assms show ?thesis by (simp add: pool_inv_def)
qed

lemma MakeChannel_safe:
  assumes "channel_law E" "pool_inv items s" "c < length (chanHosts s)"
  shows "safe items (MakeChannel E c) (\<lambda>_ t. True) s"
  unfolding safe_def
proof (rule wp_imp_wlp, rule wp_mono [OF MakeChannel_wp [OF assms(1,3)]])
  show "conn_live s (connHost (chanHosts s ! c))"
    using assms(2,3) by (simp add: pool_inv_def heap_ok_def)
qed (use assms inv_heap_ok [OF assms(2)] in \<open>auto intro: inv_cache_ext [of items s] heap_ok_ext\<close>)

lemma reconnectChannel_safe:
  fixes s :: "('w, 'q, 'x) pool_st_scheme" and E :: "('w, 'e) env_scheme"
  assumes "channel_law E" "pool_inv items s" "c < length (chanHosts s)"
  shows "safe items (reconnectChannel E c) (\<lambda>_ t. True) s"
  unfolding reconnectChannel_def
proof (rule safe_forever [where I = "\<lambda>t. c < length (chanHosts t)"])
  fix t :: "('w, 'q, 'x) pool_st_scheme" assume t: "pool_inv items t" "c < length (chanHosts t)"
  let ?I = "\<lambda>_ u. c < length (chanHosts u)"
  have host: "safe items (chan_at c) (\<lambda>ch u. u = t \<and> ch = chanHosts t ! c) t"
    using t by (simp add: safe_def wp_simps)
  have live: "conn_live t (connHost (chanHosts t ! c))"
    using t by (simp add: pool_inv_def heap_ok_def)
  have verify: "safe items (verifyHealthyConnection E (connHost (chanHosts t ! c))) ?I t"
    by (rule safe_mono [OF verify_safe [OF t(1) live]]) (use t heap_ext_length in auto)
  have make: "safe items (MakeChannel E c) ?I u" if "pool_inv items u" "c < length (chanHosts u)" for u
    by (rule safe_mono [OF MakeChannel_safe [OF assms(1) that]]) (use that heap_ext_length in auto)
  have err: "safe items (handleError E e) ?I u" if "pool_inv items u" "c < length (chanHosts u)" for u e
    by (rule handleError_safe) (use that in \<open>auto simp: pool_step_def\<close>)
  show "safe items (reconnectRound E c) (\<lambda>r u. case r of None \<Rightarrow> c < length (chanHosts u) | Some a \<Rightarrow> True) t"
    unfolding reconnectRound_def
    by (rule safe_seq [OF host], simp, rule safe_seq [OF verify], rule safe_seq [OF make])
      (auto split: option.splits intro!: safe_seq [OF err])
qed (use assms in simp_all)

lemma ReturnChannel_safe:
  assumes "channel_law E" "pool_inv items s" "c < length (chanHosts s)"
  shows "safe items (ReturnChannel E c erred) (\<lambda>_ t. True) s"
proof (cases "transient (chanHosts s ! c)")
  case True
  then have m: "managed s c" using assms(3) by (simp add: managed_def)
  have rec: "safe items (if erred then reconnectChannel E c else ret ()) (\<lambda>_ t. managed t c) s"
    using safe_mono [OF reconnectChannel_safe [OF assms], of "\<lambda>_ t. managed t c"] assms(2) m
    by (auto intro: managed_ext)
  have send: "safe items (send_field get_channels put_channels c) (\<lambda>_ t. True) t"
    if "pool_inv items t" "managed t c" for t
    using that by (auto simp: safe_def wp_simps get_channels_def put_channels_def chan_send_def
        pool_inv_def managed_def heap_ok_def conn_live_def chan_ok_def)
  have "safe items (bind_go (if erred then reconnectChannel E c else ret ()) (\<lambda>_.
         send_field get_channels put_channels c)) (\<lambda>_ t. True) s"
    by (rule safe_seq [OF rec]) (rule send)
  then show ?thesis
    using True assms(3) by (simp add: ReturnChannel_def safe_def wp_simps)
next
  case False
  with assms show ?thesis
    by (simp add: ReturnChannel_def safe_def wp_simps ChannelHost_Close_def split: option.splits)
qed

subsection \<open>Construction and shutdown\<close>

lemma initConnections_safe:
  assumes "fifo_queue K items"
  shows "pool_inv items s \<Longrightarrow> safe items (initConnections E K n) (\<lambda>_ t. True) s"
proof (induction n arbitrary: s)
  case 0
  then show ?case by simp
next
  case (Suc n)
  have new: "safe items (NewConnectionHost E u nm i hb to tls) (\<lambda>r t. \<forall>h. r = Inr h \<longrightarrow> conn_live t h) s" for u nm i hb to tls
    by (rule safe_pool_step [OF Suc.prems], rule wlp_mono [OF wp_imp_wlp [OF NewConnectionHost_wp]])
      (auto intro: conn_ext_pool_step)
  have err: "safe items (bind_go (handleError E e) (\<lambda>_. ret b)) (\<lambda>_ t. True) t" if "pool_inv items t" for e t b
    by (rule safe_seq [OF handleError_safe [OF that, where Q = "\<lambda>_ _. True"]]) auto
  have bump: "safe items (upd_pool (\<lambda>cp. cp\<lparr>connectionID := connectionID cp + 1\<rparr>)) (\<lambda>_ t. True) t"
    if "pool_inv items t" for t
    using that by (simp add: safe_def wp_simps pool_inv_def heap_ok_def conn_live_def)
  show ?case
    unfolding initConnections.simps
    by (rule safe_seq [OF safe_gets [OF Suc.prems, where Q = "\<lambda>_ t. t = s"]], simp,
        simp, rule safe_seq [OF new])
      (auto split: sum.splits option.splits intro!: err safe_seq [OF putConnection_safe [OF assms]]
        safe_seq [OF bump] Suc.IH)
qed

lemma initChannels_safe:
  assumes "fifo_queue K items" "channel_law E"
  shows "pool_inv items s \<Longrightarrow> safe items (initChannels E K i n) (\<lambda>_ t. True) s"
proof (induction n arbitrary: s i)
  case 0
  then show ?case by simp
next
  case (Suc n)
  have send: "safe items (send_field get_channels put_channels c) (\<lambda>_ t. True) t"
    if "pool_inv items t" "handed_out True i t c" for t c i
    using that by (auto simp: safe_def wp_simps get_channels_def put_channels_def chan_send_def
        pool_inv_def handed_out_def heap_ok_def conn_live_def chan_ok_def)
  show ?case
    unfolding initChannels.simps
    by (rule safe_seq [OF createCacheChannel_safe [OF assms Suc.prems]], rule safe_seq [OF send])
      (auto intro: Suc.IH)
qed

text \<open>
  A new pool starts on heaps in which every existing channel host is sound (an empty heap, or the
  heap of a program that already runs other pools).
\<close>

lemma newPool_inv:
  "items q = [] \<Longrightarrow> slice_fits (MaxConnectionCount cfg) \<Longrightarrow> heap_ok s \<Longrightarrow>
     pool_inv items (s\<lparr>pool := newPool q (make_chan n) cfg eh uh\<rparr>)"
  by (simp add: pool_inv_def newPool_def heap_ok_def conn_live_def chan_ok_def)

text \<open>A configuration whose sizes can be allocated.\<close>

definition sizes_fit :: "PoolConfig \<Rightarrow> bool" where
  "sizes_fit cfg \<longleftrightarrow> slice_fits (MaxConnectionCount cfg) \<and> chan_fits (MaxCacheChannelCount cfg)"

lemma initializeConnections_safe:
  fixes s :: "('w, 'q, 'x) pool_st_scheme" and E :: "('w, 'e) env_scheme"
  assumes "fifo_queue K items" "channel_law E" "pool_inv items s"
  shows "safe items (initializeConnections E K) (\<lambda>_ t. True) s"
proof -
  have reset: "safe items (upd_pool (\<lambda>cp. cp\<lparr>connectionID := 0\<rparr>)) (\<lambda>_ t. True) s"
    using assms by (simp add: safe_def wp_simps pool_inv_def heap_ok_def conn_live_def)
  have get: "safe items (gets_go pool) (\<lambda>cp u. slice_fits (MaxConnectionCount (Config cp))) t"
    if "pool_inv items t" for t :: "('w, 'q, 'x) pool_st_scheme"
    by (rule safe_gets [OF that]) (use that in \<open>simp add: pool_inv_def\<close>)
  have queue: "safe items (newQueue K n) (\<lambda>q u. items q = []) t"
    if "pool_inv items t" "slice_fits n" for n and t :: "('w, 'q, 'x) pool_st_scheme"
    by (rule newQueue_fits [OF assms(1) that(2)]) (use that(1) in \<open>simp add: newQueue_ret\<close>)
  have put: "safe items (upd_pool (\<lambda>cp. cp\<lparr>connections := q\<rparr>)) (\<lambda>_ t. True) t"
    if "pool_inv items t" "items q = []" for q and t :: "('w, 'q, 'x) pool_st_scheme"
    using that by (simp add: safe_def wp_simps pool_inv_def heap_ok_def conn_live_def)
  show ?thesis
    unfolding initializeConnections_def
    by (rule safe_seq [OF reset], rule safe_seq [OF get], assumption, rule safe_seq [OF queue], assumption, assumption,
        rule safe_seq [OF put], assumption, assumption,
        rule safe_seq [OF initConnections_safe [OF assms(1)]], assumption)
      (auto intro!: safe_seq [OF initChannels_safe [OF assms(1,2)]])
qed

lemma NewConnectionPool_safe:
  assumes "fifo_queue K items" "channel_law E" "heap_ok s"
    and "NewConnectionPool E K cfg eh uh s = Some (r, t)"
  shows "heap_ok t \<and> (\<forall>p. r = Panicked p \<longrightarrow> \<not> sizes_fit cfg \<and> p = MakeSizeOutOfRange \<and> t = s) \<and>
    (r = Return None \<longrightarrow> pool_inv items t)"
proof -
  have "wlp (NewConnectionPool E K cfg eh uh) (\<lambda>r t. heap_ok t \<and> (r = None \<longrightarrow> pool_inv items t))
      (\<lambda>p t. heap_ok t \<and> (p \<noteq> None \<longrightarrow> \<not> sizes_fit cfg \<and> p = Some MakeSizeOutOfRange \<and> t = s)) s"
  proof (cases "slice_fits (MaxConnectionCount cfg)")
    case True
    obtain q where q: "qNew K (MaxConnectionCount cfg) = Return q" "items q = []"
      by (rule newQueue_fits [OF assms(1) True])
    have "safe items (initializeConnections E K) (\<lambda>_ t. True) 
        (s\<lparr>pool := newPool q (make_chan (unat (MaxCacheChannelCount cfg))) cfg eh uh\<rparr>)"
      by (rule initializeConnections_safe [OF assms(1,2) newPool_inv [where items = items, OF q(2) True assms(3)]])
    then show ?thesis
      unfolding safe_def NewConnectionPool_def
      by (auto simp: wp_simps newQueue_ret [OF q(1)] makeChannels_def sizes_fit_def assms(3) pool_inv_def elim!: wlp_mono)
  next
    case False
    then show ?thesis
      using assms(3) by (auto simp: NewConnectionPool_def newQueue_panics [OF assms(1)] wp_simps sizes_fit_def)
  qed
  with assms(4) show ?thesis
    by (auto simp: wlp_iff elim: settles.elims split: result.splits)
qed

lemma NewConnectionPool_too_large:
  assumes "fifo_queue K items" "\<not> sizes_fit cfg" "Heartbeat cfg \<noteq> 0" "ConnectionTimeout cfg \<noteq> 0" "MaxConnectionCount cfg \<noteq> 0"
  shows "NewConnectionPool E K cfg eh uh s = Some (Panicked MakeSizeOutOfRange, s)"
proof (cases "slice_fits (MaxConnectionCount cfg)")
  case True
  obtain q where "qNew K (MaxConnectionCount cfg) = Return q"
    by (rule newQueue_fits [OF assms(1) True])
  with True assms(2-5) show ?thesis
    by (simp add: NewConnectionPool_def newQueue_ret makeChannels_def sizes_fit_def go_prims)
next
  case False
  with assms show ?thesis by (simp add: NewConnectionPool_def newQueue_panics [OF assms(1)] go_prims)
qed

text \<open>
  Closing in the library: \<open>C w p\<close> says that connection \<open>p\<close> is closed in \<open>w\<close>. \<^verbatim>\<open>IsClosed\<close> reports it,
  \<^verbatim>\<open>Close\<close> makes it so, and a closed connection object never opens again.
\<close>

definition closing_law :: "('w, 'e) env_scheme \<Rightarrow> ('w \<Rightarrow> conn \<Rightarrow> bool) \<Rightarrow> bool" where
  "closing_law E C \<longleftrightarrow>
     (\<forall>p w. fst (Conn_IsClosed E p w) = C w p) \<and>
     (\<forall>p w. C (Conn_Close E p w) p) \<and>
     (\<forall>p q w. C w p \<longrightarrow> C (snd (Conn_IsClosed E q w)) p \<and> C (Conn_Close E q w) p \<and> C (Chan_Close E q w) p)"

text \<open>\<open>closed_on E C s t ps\<close>: only the world changed, and (given the law) the connections \<open>ps\<close> are closed.\<close>

definition closed_on ::
  "('w, 'e) env_scheme \<Rightarrow> ('w \<Rightarrow> conn \<Rightarrow> bool) \<Rightarrow> ('w, 'x) base_st_scheme \<Rightarrow> ('w, 'x) base_st_scheme \<Rightarrow> conn set \<Rightarrow> bool" where
  "closed_on E C s t ps \<longleftrightarrow> t = s\<lparr>world := world t\<rparr> \<and>
     (closing_law E C \<longrightarrow> (\<forall>p. p \<in> ps \<or> C (world s) p \<longrightarrow> C (world t) p))"

lemma closed_on_trans:
  "closed_on E C s t ps \<Longrightarrow> closed_on E C t u qs \<Longrightarrow> closed_on E C s u (ps \<union> qs)"
  unfolding closed_on_def
  by (metis (no_types, lifting) UnE base_st.surjective base_st.update_convs(1))

lemma closeHost_wp:
  "conn_live s h \<Longrightarrow> wp (closeHost E h) (\<lambda>_ t. closed_on E C s t {the (Connection (connHosts s ! h))}) s"
  unfolding closeHost_def
  by (rule wp_recover) (auto simp: wp_simps closed_on_def closing_law_def)

definition conns_of :: "('w, 'x) conn_st_scheme \<Rightarrow> qitem list \<Rightarrow> conn set" where
  "conns_of s xs = {the (Connection (connHosts s ! h)) | h. QConnHost h \<in> set xs}"

lemma conns_of_simps [simp]:
  "conns_of s [] = {}"
  "conns_of s (QConnHost h # xs) = insert (the (Connection (connHosts s ! h))) (conns_of s xs)"
  "conns_of (s\<lparr>world := w\<rparr>) xs = conns_of s xs"
  by (auto simp: conns_of_def)

lemma closeItems_wp:
  "\<forall>x \<in> set xs. \<exists>h. x = QConnHost h \<and> conn_live s h \<Longrightarrow>
     wp (closeItems E xs) (\<lambda>_ t. closed_on E C s t (conns_of s xs)) s"
proof (induction xs arbitrary: s)
  case Nil
  then show ?case by (simp add: wp_simps closed_on_def)
next
  case (Cons x xs)
  then obtain h where x: "x = QConnHost h" and h: "conn_live s h" by auto
  show ?case
    unfolding x closeItems.simps
  proof (rule wp_seq [OF closeHost_wp [OF h, where C = C]], goal_cases)
    case (1 a t)
    then have t: "t = s\<lparr>world := world t\<rparr>" by (simp add: closed_on_def)
    have "wp (closeItems E xs) (\<lambda>_ u. closed_on E C t u (conns_of t xs)) t"
      by (rule Cons.IH) (use Cons.prems conn_live_world t in \<open>metis list.set_intros(2)\<close>)
    moreover have "conns_of t xs = conns_of s xs" by (subst t) simp
    ultimately show ?case
      using closed_on_trans [OF 1] by (auto elim: wp_mono)
  qed
qed

lemma closeChan_wp: "wp (recover_go (ChannelHost_Close E c)) (\<lambda>_ t. closed_on E C s t {}) s"
  by (auto simp: wp_def recover_go_def ChannelHost_Close_def chan_ptr_def chan_at_def go_prims env_do_def
      closed_on_def closing_law_def split: option.splits)

lemma closed_onE:
  assumes "closed_on E C s t ps"
  obtains w where "t = s\<lparr>world := w\<rparr>" "closing_law E C \<Longrightarrow> \<forall>p. p \<in> ps \<or> C (world s) p \<longrightarrow> C w p"
  using assms unfolding closed_on_def by blast

text \<open>The cache is emptied; nothing else of the pool changes.\<close>

definition cacheLeft :: "('w, 'q, 'x) pool_st_scheme \<Rightarrow> 'w \<Rightarrow> nat list \<Rightarrow> ('w, 'q, 'x) pool_st_scheme" where
  "cacheLeft s w xs = s\<lparr>world := w, pool := (pool s)\<lparr>channels := (channels (pool s))\<lparr>ch_buf := xs\<rparr>\<rparr>\<rparr>"

lemma cacheLeft_self: "s = cacheLeft s (world s) (ch_buf (channels (pool s)))"
  by (simp add: cacheLeft_def)

lemma cacheLeft_world [simp]:
  "(cacheLeft s w xs)\<lparr>world := v\<rparr> = cacheLeft s v xs" "world (cacheLeft s w xs) = w"
  by (simp_all add: cacheLeft_def)

lemma flushChannelsRound_wp:
  assumes "\<not> ch_closed (channels (pool s))" "closing_law E C \<Longrightarrow> \<forall>p. C (world s) p \<longrightarrow> C w p"
  shows "wp (flushChannelsRound E) (\<lambda>r u. \<exists>w' ys. u = cacheLeft s w' ys \<and>
      (closing_law E C \<longrightarrow> (\<forall>p. C (world s) p \<longrightarrow> C w' p)) \<and>
      (case r of None \<Rightarrow> length ys < length xs | Some _ \<Rightarrow> ys = [])) (cacheLeft s w xs)"
proof (cases xs)
  case Nil
  then show ?thesis
    using assms
    by (auto simp: flushChannelsRound_def wp_simps get_channels_def put_channels_def cacheLeft_def
        intro!: exI [of _ w] exI [of _ "[]"])
next
  case (Cons x ys)
  have "wp (recover_go (ChannelHost_Close E x))
      (\<lambda>_ u. closed_on E C (cacheLeft s w ys) u {}) (cacheLeft s w ys)"
    by (rule closeChan_wp)
  then have "wp (recover_go (ChannelHost_Close E x)) (\<lambda>_ u. \<exists>w' zs. u = cacheLeft s w' zs \<and>
      (closing_law E C \<longrightarrow> (\<forall>p. C (world s) p \<longrightarrow> C w' p)) \<and> length zs < length xs) (cacheLeft s w ys)"
    by (rule wp_mono) (erule closed_onE, use assms Cons in fastforce)
  then show ?thesis
    using Cons
    by (simp add: flushChannelsRound_def wp_simps get_channels_def put_channels_def cacheLeft_def)
qed

lemma flushChannels_wp:
  assumes "\<not> ch_closed (channels (pool s))"
  shows "wp (forever (flushChannelsRound E)) (\<lambda>_ t. \<exists>w. t = cacheLeft s w [] \<and>
      (closing_law E C \<longrightarrow> (\<forall>p. C (world s) p \<longrightarrow> C w p))) s"
proof (rule wp_forever [where I = "\<lambda>n t. \<exists>w xs. t = cacheLeft s w xs \<and>
      (closing_law E C \<longrightarrow> (\<forall>p. C (world s) p \<longrightarrow> C w p)) \<and> length xs = n"])
  show "\<exists>w xs. s = cacheLeft s w xs \<and> (closing_law E C \<longrightarrow> (\<forall>p. C (world s) p \<longrightarrow> C w p)) \<and>
      length xs = length (ch_buf (channels (pool s)))"
    using cacheLeft_self [of s] by blast
next
  fix n t
  assume "\<exists>w xs. t = cacheLeft s w xs \<and> (closing_law E C \<longrightarrow> (\<forall>p. C (world s) p \<longrightarrow> C w p)) \<and> length xs = n"
  then obtain w xs where t: "t = cacheLeft s w xs" "closing_law E C \<Longrightarrow> \<forall>p. C (world s) p \<longrightarrow> C w p" "length xs = n"
    by blast
  show "wp (flushChannelsRound E) (\<lambda>c u. case c of
      None \<Rightarrow> \<exists>m<n. \<exists>w xs. u = cacheLeft s w xs \<and> (closing_law E C \<longrightarrow> (\<forall>p. C (world s) p \<longrightarrow> C w p)) \<and> length xs = m
    | Some _ \<Rightarrow> \<exists>w. u = cacheLeft s w [] \<and> (closing_law E C \<longrightarrow> (\<forall>p. C (world s) p \<longrightarrow> C w p))) t"
    unfolding t(1)
    by (rule wp_mono [OF flushChannelsRound_wp [OF assms t(2)]])
      (use t(3) in \<open>auto split: option.splits\<close>)
qed

lemma of_nat_pos_int64: "0 < n \<Longrightarrow> n < 9223372036854775808 \<Longrightarrow> 0 <s (of_nat n :: int64) \<and> nat (sint (of_nat n :: int64)) = n"
  using sint_small [of "int n"] by (simp add: word_sless_alt)

lemma drainRound_wp:
  assumes "fifo_queue K items" "items (connections (pool s)) \<noteq> []"
    and "length (items (connections (pool s))) < 9223372036854775808"
    and "\<forall>x \<in> set (items (connections (pool s))). \<exists>h. x = QConnHost h \<and> conn_live s h"
  shows "wp (drainRound E K) (\<lambda>r t. r = None \<and> (\<exists>q w. items q = [] \<and> t = s\<lparr>pool := (pool s)\<lparr>connections := q\<rparr>, world := w\<rparr> \<and>
      (closing_law E C \<longrightarrow> (\<forall>p. p \<in> conns_of s (items (connections (pool s))) \<or> C (world s) p \<longrightarrow> C w p)))) s"
proof -
  let ?xs = "items (connections (pool s))"
  have len: "qLen K (connections (pool s)) = of_nat (length ?xs)"
    and ne: "\<not> qEmpty K (connections (pool s))"
    using assms(1,2) by (auto simp: fifo_queue_def)
  have pos: "0 <s (of_nat (length ?xs) :: int64)" "nat (sint (of_nat (length ?xs) :: int64)) = length ?xs"
    using of_nat_pos_int64 [of "length ?xs"] assms(2,3) by auto
  obtain q where q: "qGet K (of_nat (length ?xs)) (connections (pool s)) = Return (Inr ?xs, q)" "items q = []"
    using fifo_get [OF assms(1,2) pos(1)] pos(2) by auto
  let ?s = "s\<lparr>pool := (pool s)\<lparr>connections := q\<rparr>\<rparr>"
  have "wp (closeItems E ?xs) (\<lambda>_ t. closed_on E C ?s t (conns_of ?s ?xs)) ?s"
    by (rule closeItems_wp) (use assms(4) in \<open>auto simp: conn_live_def\<close>)
  moreover have "conns_of ?s ?xs = conns_of s ?xs" by (simp add: conns_of_def)
  ultimately have "wp (closeItems E ?xs) (\<lambda>_ t. closed_on E C ?s t (conns_of s ?xs)) ?s"
    by simp
  then have "wp (closeItems E ?xs) (\<lambda>_ t. \<exists>q w. items q = [] \<and> t = s\<lparr>pool := (pool s)\<lparr>connections := q\<rparr>, world := w\<rparr> \<and>
      (closing_law E C \<longrightarrow> (\<forall>p. p \<in> conns_of s ?xs \<or> C (world s) p \<longrightarrow> C w p))) ?s"
    by (rule wp_mono) (erule closed_onE, use q(2) in fastforce)
  then show ?thesis
    using q(1) by (simp add: drainRound_def wp_simps len ne)
qed

text \<open>\<open>drained\<close>: the state after the queue was emptied and its connections were closed.\<close>

definition drained ::
  "('w, 'e) env_scheme \<Rightarrow> ('w \<Rightarrow> conn \<Rightarrow> bool) \<Rightarrow> ('q \<Rightarrow> qitem list) \<Rightarrow> ('w, 'q, 'x) pool_st_scheme
     \<Rightarrow> ('w, 'q, 'x) pool_st_scheme \<Rightarrow> bool" where
  "drained E C items s t \<longleftrightarrow> (\<exists>q w. items q = [] \<and> t = s\<lparr>pool := (pool s)\<lparr>connections := q\<rparr>, world := w\<rparr> \<and>
      (closing_law E C \<longrightarrow> (\<forall>p. p \<in> conns_of s (items (connections (pool s))) \<or> C (world s) p \<longrightarrow> C w p)))"

lemma drained_self: "items (connections (pool s)) = [] \<Longrightarrow> drained E C items s s"
  unfolding drained_def by (intro exI [of _ "connections (pool s)"] exI [of _ "world s"]) simp

lemma drained_stops:
  "fifo_queue K items \<Longrightarrow> drained E C items s t \<Longrightarrow> wp (drainRound E K) (\<lambda>r u. r = Some () \<and> u = t) t"
  by (auto simp: drained_def drainRound_def wp_simps fifo_queue_def)

lemma drain_wp:
  assumes "fifo_queue K items" "length (items (connections (pool s))) < 9223372036854775808"
    and "\<forall>x \<in> set (items (connections (pool s))). \<exists>h. x = QConnHost h \<and> conn_live s h"
  shows "wp (forever (drainRound E K)) (\<lambda>_ t. drained E C items s t) s"
proof (rule wp_forever [where n = 1 and I = "\<lambda>n t. n = 1 \<and> t = s \<or> n = 0 \<and> drained E C items s t"])
  fix n :: nat and t
  assume "n = 1 \<and> t = s \<or> n = 0 \<and> drained E C items s t"
  then consider "n = 1" "t = s" "items (connections (pool s)) \<noteq> []" | "drained E C items s t"
    using drained_self by blast
  then show "wp (drainRound E K) (\<lambda>c u. case c of
      None \<Rightarrow> \<exists>m<n. m = 1 \<and> u = s \<or> m = 0 \<and> drained E C items s u | Some a \<Rightarrow> drained E C items s u) t"
  proof cases
    case 1
    have "wp (drainRound E K) (\<lambda>r t. r = None \<and> drained E C items s t) s"
      using drainRound_wp [OF assms(1) 1(3) assms(2,3), of E C] by (simp add: drained_def)
    then show ?thesis
      unfolding 1(2) by (rule wp_mono) (simp add: 1(1))
  next
    case 2
    then show ?thesis
      by (rule wp_mono [OF drained_stops [OF assms(1)]]) (use 2 in simp)
  qed
qed simp

lemma Shutdown_wp:
  fixes s :: "('w, 'q, 'x) pool_st_scheme"
  assumes "fifo_queue K items" "pool_inv items s"
    and "length (items (connections (pool s))) < 9223372036854775808"
  shows "wp (ConnectionPool_Shutdown E K False) (\<lambda>_ t. pool_inv items t \<and> connHosts t = connHosts s \<and>
     chanHosts t = chanHosts s \<and>
     items (connections (pool t)) = [] \<and> ch_buf (channels (pool t)) = [] \<and>
     flaggedConnections (pool t) = Map.empty \<and> connectionID (pool t) = 0 \<and>
     (closing_law E C \<longrightarrow> (\<forall>p \<in> conns_of s (items (connections (pool s))). C (world t) p))) s"
proof -
  have nc: "\<not> ch_closed (channels (pool s))"
    and live: "\<forall>x \<in> set (items (connections (pool s))). \<exists>h. x = QConnHost h \<and> conn_live s h"
    using assms(2) by (simp_all add: pool_inv_def)
  have drain: "wp (forever (drainRound E K)) (\<lambda>_ t. drained E C items (cacheLeft s w []) t) (cacheLeft s w [])" for w
    by (rule drain_wp [OF assms(1)]) (use assms(3) live in \<open>auto simp: cacheLeft_def conn_live_def\<close>)
  have fits: "slice_fits (MaxConnectionCount (Config (pool s)))" using assms(2) by (simp add: pool_inv_def)
  obtain q where q: "qNew K (MaxConnectionCount (Config (pool s))) = Return q" "items q = []"
    by (rule newQueue_fits [OF assms(1) fits])
  show ?thesis
    unfolding ConnectionPool_Shutdown_def if_False
    by (rule wp_seq [OF flushChannels_wp [OF nc, where C = C]], elim exE conjE, hypsubst,
        rule wp_seq [OF drain])
      (use assms(1,2) q(2) in \<open>auto simp: wp_simps newQueue_ret [OF q(1)] drained_def cacheLeft_def pool_inv_def heap_ok_def conn_live_def
        conns_of_def chan_ok_def\<close>)
qed

end
