(* ===== verification/FR_PoolProgress.thy ===== *)
theory FR_PoolProgress
  imports FR_PoolSafety FR_Broker
begin

section \<open>Progress of the pool\<close>

text \<open>
  When do the pool's operations return, and with what? On a healthy network the constructor
  returns a pool with the configured numbers of connections and cached channels, the channels
  spread round robin over the connections. On an unhealthy one a recovery returns as soon as the
  broker accepts a connection again, and not before.
\<close>

text \<open>A normal form for updated states: the world first, then the heaps, then the pool.\<close>

lemma state_order [simp]:
  "s\<lparr>connHosts := a, world := w\<rparr> = s\<lparr>world := w, connHosts := a\<rparr>"
  "t\<lparr>chanHosts := b, world := w\<rparr> = t\<lparr>world := w, chanHosts := b\<rparr>"
  "u\<lparr>pool := c, world := w\<rparr> = u\<lparr>world := w, pool := c\<rparr>"
  "t\<lparr>chanHosts := b, connHosts := a\<rparr> = t\<lparr>connHosts := a, chanHosts := b\<rparr>"
  "u\<lparr>pool := c, connHosts := a\<rparr> = u\<lparr>connHosts := a, pool := c\<rparr>"
  "u\<lparr>pool := c, chanHosts := b\<rparr> = u\<lparr>chanHosts := b, pool := c\<rparr>"
  "cp\<lparr>connections := q, channels := d\<rparr> = cp\<lparr>channels := d, connections := q\<rparr>"
  by simp_all

subsection \<open>A healthy network\<close>

text \<open>
  \<open>healthy E H\<close>: in worlds satisfying \<open>H\<close> every dial, channel and confirm request succeeds, no
  connection is closed, nothing arrives on a notification channel, and \<open>H\<close> goes on to hold.
\<close>

definition healthy :: "('w, 'e) env_scheme \<Rightarrow> ('w \<Rightarrow> bool) \<Rightarrow> bool" where
  "healthy E H \<longleftrightarrow> (\<forall>w. H w \<longrightarrow>
     (\<forall>u c. (\<exists>p. fst (DialConfig E u c w) = Inr p) \<and> H (snd (DialConfig E u c w))) \<and>
     (\<forall>p. \<not> fst (Conn_IsClosed E p w) \<and> H (snd (Conn_IsClosed E p w))) \<and>
     (\<forall>p. H (Conn_NotifyClose E p w) \<and> H (Conn_NotifyBlocked E p w) \<and> H (Chan_NotifyClose E p w)) \<and>
     (\<forall>p c. fst (feed_Errors E p c w) = c \<and> H (snd (feed_Errors E p c w))) \<and>
     (\<forall>p c. fst (feed_Blockers E p c w) = c \<and> H (snd (feed_Blockers E p c w))) \<and>
     (\<forall>p. (\<exists>a. fst (Conn_Channel E p w) = (Some a, None)) \<and> H (snd (Conn_Channel E p w))) \<and>
     (\<forall>a b. fst (Chan_Confirm E a b w) = None \<and> H (snd (Chan_Confirm E a b w))))"

definition quiet_host :: "ConnectionHost \<Rightarrow> bool" where
  "quiet_host ch \<longleftrightarrow> Connection ch \<noteq> None \<and> ch_buf (Errors ch) = [] \<and> \<not> ch_closed (Errors ch) \<and>
     ch_buf (Blockers ch) = [] \<and> \<not> ch_closed (Blockers ch)"

lemma healthyD:
  assumes "healthy E H" "H w"
  shows "\<exists>p. fst (DialConfig E u c w) = Inr p" "H (snd (DialConfig E u c w))"
    and "\<not> fst (Conn_IsClosed E p w)" "H (snd (Conn_IsClosed E p w))"
    and "H (Conn_NotifyClose E p w)" "H (Conn_NotifyBlocked E p w)" "H (Chan_NotifyClose E p w)"
    and "fst (feed_Errors E p e w) = e" "H (snd (feed_Errors E p e w))"
    and "fst (feed_Blockers E p b w) = b" "H (snd (feed_Blockers E p b w))"
    and "\<exists>a. fst (Conn_Channel E p w) = (Some a, None)" "H (snd (Conn_Channel E p w))"
    and "fst (Chan_Confirm E p f w) = None" "H (snd (Chan_Confirm E p f w))"
  using assms(1) [unfolded healthy_def, THEN spec, THEN mp, OF assms(2)] by simp_all

text \<open>
  Rules for quiet hosts, in continuation style: what holds after the operation in every world that
  satisfies \<open>H\<close>, the rest of the state being the same, holds after it.
\<close>

lemma quiet_poll_Errors:
  assumes "healthy E H" "H (world s)" "h < length (connHosts s)" "quiet_host (connHosts s ! h)"
    and "\<And>w. H w \<Longrightarrow> Q WouldBlock (s\<lparr>world := w\<rparr>)"
  shows "wp (poll_Errors E h) Q s"
proof -
  obtain p where p: "Connection (connHosts s ! h) = Some p"
    using assms(4) by (auto simp: quiet_host_def)
  have "(s\<lparr>world := w, connHosts := (connHosts s)[h := (connHosts s ! h)\<lparr>Errors := Errors (connHosts s ! h)\<rparr>]\<rparr>) = s\<lparr>world := w\<rparr>" for w
    by simp
  with assms p show ?thesis
    by (simp add: poll_Errors_def wp_simps quiet_host_def healthyD)
qed

lemma quiet_poll_Blockers:
  assumes "healthy E H" "H (world s)" "h < length (connHosts s)" "quiet_host (connHosts s ! h)"
    and "\<And>w. H w \<Longrightarrow> Q WouldBlock (s\<lparr>world := w\<rparr>)"
  shows "wp (poll_Blockers E h) Q s"
proof -
  obtain p where p: "Connection (connHosts s ! h) = Some p"
    using assms(4) by (auto simp: quiet_host_def)
  have "(s\<lparr>world := w, connHosts := (connHosts s)[h := (connHosts s ! h)\<lparr>Blockers := Blockers (connHosts s ! h)\<rparr>]\<rparr>) = s\<lparr>world := w\<rparr>" for w
    by simp
  with assms p show ?thesis
    by (simp add: poll_Blockers_def wp_simps quiet_host_def healthyD)
qed

lemma quiet_pause:
  assumes "healthy E H" "H (world s)" "h < length (connHosts s)" "quiet_host (connHosts s ! h)"
    and "\<And>w. H w \<Longrightarrow> Q () (s\<lparr>world := w\<rparr>)"
  shows "wp (PauseOnFlowControl E h) Q s"
  unfolding PauseOnFlowControl_def
proof (rule wp_forever [where I = "\<lambda>_ t. t = s" and n = 0])
  show "wp (pauseRound E h) (\<lambda>c t. case c of None \<Rightarrow> \<exists>m<n. t = s | Some a \<Rightarrow> Q a t) u" if "u = s" for n u
    using assms that
    by (auto simp: pauseRound_def wp_simps quiet_host_def healthyD intro!: quiet_poll_Blockers)
qed simp

definition unflagged :: "('w, 'q, 'x) pool_st_scheme \<Rightarrow> nat \<Rightarrow> bool" where
  "unflagged s h \<longleftrightarrow> flaggedConnections (pool s) (ConnectionID (connHosts s ! h)) \<noteq> Some True"

lemma quiet_verify:
  assumes "healthy E H" "H (world s)" "h < length (connHosts s)" "quiet_host (connHosts s ! h)" "unflagged s h"
    and "\<And>w. H w \<Longrightarrow> Q () (s\<lparr>world := w\<rparr>)"
  shows "wp (verifyHealthyConnection E h) Q s"
  unfolding verifyHealthyConnection_def wp_bind
proof (rule quiet_poll_Errors [OF assms(1-4)], goal_cases)
  case (1 w)
  then show ?case
    using assms
    by (auto simp: reportUnhealthy_def needsRecovery_def isConnectionFlagged_def wp_simps unflagged_def
        quiet_host_def conn_live_def healthyD split: option.splits intro!: quiet_pause [OF assms(1)])
qed

subsection \<open>Construction on a healthy network\<close>

definition noTLS :: "TLSConfig option \<Rightarrow> bool" where
  "noTLS t \<longleftrightarrow> (case t of None \<Rightarrow> True | Some c \<Rightarrow> \<not> EnableTLS c)"

text \<open>The host a successful \<open>NewConnectionHost\<close> leaves in the heap.\<close>

definition openHost ::
  "string \<Rightarrow> string \<Rightarrow> uint64 \<Rightarrow> duration \<Rightarrow> duration \<Rightarrow> TLSConfig option \<Rightarrow> conn \<Rightarrow> ConnectionHost" where
  "openHost u name cid hb to tls p =
     \<lparr>Connection = Some p, ConnectionID = cid, CachedChannelCount = 0, uri = u, connectionName = name,
      heartbeatInterval = hb, connectionTimeout = to, tlsConfig = tls,
      Errors = make_chan 10, Blockers = make_chan 10\<rparr>"

lemma openHost_sel [simp]:
  "ConnectionID (openHost u name cid hb to tls p) = cid"
  "connectionName (openHost u name cid hb to tls p) = name"
  "quiet_host (openHost u name cid hb to tls p)"
  by (simp_all add: openHost_def quiet_host_def)

lemma quiet_NewConnectionHost:
  assumes "healthy E H" "H (world s)" "noTLS tls"
    and "\<And>w p. H w \<Longrightarrow> Q (Inr (length (connHosts s)))
           (s\<lparr>world := w, connHosts := connHosts s @ [openHost u name cid hb to tls p]\<rparr>)"
  shows "wp (NewConnectionHost E u name cid hb to tls) Q s"
proof -
  let ?dial = "DialConfig E u \<lparr>cfg_Heartbeat = hb, cfg_DialTimeout = to, cfg_TLS = None,
      cfg_connection_name = name\<rparr> (world s)"
  obtain p w where d: "?dial = (Inr p, w)" and w: "H w"
    using healthyD(1,2) [OF assms(1,2)] by (metis prod.collapse)
  have "H (Conn_NotifyBlocked E p (Conn_NotifyClose E p w))"
    using healthyD(5,6) [OF assms(1)] w by blast
  from assms(4) [OF this, of p] assms(3) d show ?thesis
    by (auto simp: NewConnectionHost_def Connect_def ConnectWithErrorHandler_def isConnected_def
        hostTLS_def dialTarget_def dialSettings_def wp_simps noTLS_def openHost_def split: option.splits)
qed

text \<open>The state after some connections were made: hosts appended, the queue and the next id changed.\<close>

definition withHosts ::
  "('w, 'q, 'x) pool_st_scheme \<Rightarrow> 'w \<Rightarrow> ConnectionHost list \<Rightarrow> 'q \<Rightarrow> uint64 \<Rightarrow> ('w, 'q, 'x) pool_st_scheme" where
  "withHosts s w hs q cid = s\<lparr>world := w, connHosts := connHosts s @ hs,
     pool := (pool s)\<lparr>connections := q, connectionID := cid\<rparr>\<rparr>"

lemma withHosts_sel [simp]:
  "world (withHosts s w hs q cid) = w"
  "connHosts (withHosts s w hs q cid) = connHosts s @ hs"
  "connections (pool (withHosts s w hs q cid)) = q"
  "connectionID (pool (withHosts s w hs q cid)) = cid"
  by (simp_all add: withHosts_def)

text \<open>A host the constructor makes for its i-th connection.\<close>

definition numbered :: "('w, 'q) ConnectionPool \<Rightarrow> uint64 \<Rightarrow> ConnectionHost \<Rightarrow> bool" where
  "numbered cp i ch \<longleftrightarrow> quiet_host ch \<and> ConnectionID ch = i \<and>
     connectionName ch = ApplicationName (Config cp) @ ''-'' @ FormatUint i"

lemma initConnections_quiet:
  assumes "healthy E H" "fifo_queue K items" "noTLS (pc_TLSConfig (Config (pool s)))"
  shows "H w \<Longrightarrow> wp (initConnections E K n) (\<lambda>r t. r \<and> (\<exists>w' hs' q'. H w' \<and>
      t = withHosts s w' (hs @ hs') q' (cid + of_nat n) \<and> length hs' = n \<and>
      items q' = items q @ map QConnHost [length (connHosts s @ hs) ..< length (connHosts s @ hs) + n] \<and>
      (\<forall>i<n. numbered (pool s) (cid + of_nat i) (hs' ! i)))) (withHosts s w hs q cid)"
proof (induction n arbitrary: w hs q cid)
  case 0
  then show ?case by (auto simp: wp_simps)
next
  case (Suc n)
  have put: "fst (qPut K x q') = None" "items (snd (qPut K x q')) = items q' @ [x]" for x q'
    using assms(2) by (simp_all add: fifo_queue_def)
  let ?l = "length (connHosts s @ hs)"
  let ?name = "ApplicationName (Config (pool s)) @ ''-'' @ FormatUint cid"
  let ?host = "openHost (cp_uri (pool s)) ?name cid (cp_heartbeatInterval (pool s))
      (cp_connectionTimeout (pool s)) (pc_TLSConfig (Config (pool s)))"
  let ?q = "snd (qPut K (QConnHost ?l) q)"
  have nxt: "wp (initConnections E K n) (\<lambda>r t. r \<and> (\<exists>w' hs' q'. H w' \<and>
      t = withHosts s w' (hs @ hs') q' (cid + of_nat (Suc n)) \<and> length hs' = Suc n \<and>
      items q' = items q @ map QConnHost [?l ..< ?l + Suc n] \<and>
      (\<forall>i<Suc n. numbered (pool s) (cid + of_nat i) (hs' ! i))))
      (withHosts s v (hs @ [?host p]) ?q (cid + 1))" if "H v" for v p
  proof (rule wp_mono [OF Suc.IH [OF that]], elim conjE exE, intro conjI exI)
    fix r t w' hs' q'
    assume r and t: "t = withHosts s w' ((hs @ [?host p]) @ hs') q' (cid + 1 + of_nat n)" and w': "H w'" and len: "length hs' = n"
      and q': "items q' = items ?q @ map QConnHost
        [length (connHosts s @ (hs @ [?host p])) ..< length (connHosts s @ (hs @ [?host p])) + n]"
      and num: "\<forall>i<n. numbered (pool s) (cid + 1 + of_nat i) (hs' ! i)"
    show r by (fact \<open>r\<close>)
    show "t = withHosts s w' (hs @ ?host p # hs') q' (cid + of_nat (Suc n))"
      using t by (simp add: add.assoc)
    show "H w'" by (fact w')
    show "length (?host p # hs') = Suc n" using len by simp
    show "items q' = items q @ map QConnHost [?l ..< ?l + Suc n]"
      using q' by (simp add: put upt_conv_Cons del: upt_Suc)
    show "\<forall>i<Suc n. numbered (pool s) (cid + of_nat i) ((?host p # hs') ! i)"
      using num by (auto simp: less_Suc_eq_0_disj numbered_def add.assoc)
  qed
  show ?case
    unfolding initConnections.simps
    by (simp add: wp_simps, rule quiet_NewConnectionHost [OF assms(1)])
      (use Suc.prems assms(3) nxt in \<open>auto simp: wp_simps putConnection_def put withHosts_def\<close>)
qed

text \<open>One channel: the connection at the front of the queue is used and goes to its end.\<close>

definition openChan :: "uint64 \<Rightarrow> uint64 \<Rightarrow> bool \<Rightarrow> nat \<Rightarrow> achan \<Rightarrow> ChannelHost" where
  "openChan cid kid tr h a =
     \<lparr>Channel = Some a, chan_ID = cid, chan_ConnectionID = kid, Ackable = True, transient = tr,
      chan_Errors = make_chan 100, connHost = h\<rparr>"

lemma openChan_sel [simp]:
  "chan_ID (openChan cid kid tr h a) = cid" "chan_ConnectionID (openChan cid kid tr h a) = kid"
  "transient (openChan cid kid tr h a) = tr" "Ackable (openChan cid kid tr h a)"
  "connHost (openChan cid kid tr h a) = h"
  by (simp_all add: openChan_def)

lemma quiet_NewChannelHost:
  assumes "healthy E H" "H (world s)" "conn_live s h"
    and "\<And>w a. H w \<Longrightarrow> Q (Inr (length (chanHosts s)))
           (s\<lparr>world := w, chanHosts := chanHosts s @ [openChan cid kid tr h a]\<rparr>)"
  shows "wp (NewChannelHost E h cid kid True tr) Q s"
proof -
  let ?p = "the (Connection (connHosts s ! h))"
  let ?v = "snd (Conn_IsClosed E ?p (world s))"
  have v: "H ?v" "\<not> fst (Conn_IsClosed E ?p (world s))"
    using healthyD(3,4) [OF assms(1,2)] by blast+
  obtain a w where c: "Conn_Channel E ?p ?v = ((Some a, None), w)" and w: "H w"
    using healthyD(12,13) [OF assms(1) v(1)] by (metis prod.collapse)
  have n: "fst (Chan_Confirm E a False w) = None" "H (snd (Chan_Confirm E a False w))"
    using healthyD(14,15) [OF assms(1) w] by blast+
  have "H (Chan_NotifyClose E a (snd (Chan_Confirm E a False w)))"
    using healthyD(7) [OF assms(1) n(2)] by blast
  from assms(4) [OF this, of a] assms(3) c v n show ?thesis
    by (simp add: NewChannelHost_def MakeChannel_def confirmMode_def wp_simps conn_live_def openChan_def)
qed

text \<open>The state after some channels were made: channel hosts appended, queue and cache changed.\<close>

definition withChans ::
  "('w, 'q, 'x) pool_st_scheme \<Rightarrow> 'w \<Rightarrow> ChannelHost list \<Rightarrow> 'q \<Rightarrow> nat list \<Rightarrow> ('w, 'q, 'x) pool_st_scheme" where
  "withChans s w cs q buf = s\<lparr>world := w, chanHosts := chanHosts s @ cs,
     pool := (pool s)\<lparr>channels := (channels (pool s))\<lparr>ch_buf := buf\<rparr>, connections := q\<rparr>\<rparr>"

lemma quiet_createCacheChannel:
  assumes "healthy E H" "fifo_queue K items" "H w" "items q = QConnHost h # xs"
    and "h < length (connHosts s)" "quiet_host (connHosts s ! h)" "unflagged s h"
    and "\<And>w' a q'. H w' \<Longrightarrow> items q' = xs @ [QConnHost h] \<Longrightarrow>
      Q (length (chanHosts s @ cs)) (withChans s w' (cs @ [openChan cid (ConnectionID (connHosts s ! h)) tr h a]) q' buf)"
  shows "wp (createCacheChannel E K cid tr) Q (withChans s w cs q buf)"
proof -
  obtain q1 where q1: "qGet K 1 q = Return (Inr [QConnHost h], q1)" "items q1 = xs"
    using fifo_get_one [OF assms(2,4)] .
  have put: "items (snd (qPut K (QConnHost h) q1)) = xs @ [QConnHost h]"
    using fifo_put [OF assms(2)] q1(2) by simp
  have live: "conn_live s h"
    using assms(5,6) by (simp add: conn_live_def quiet_host_def)
  have "wp (createChannelRound E K cid tr) (\<lambda>r t. \<exists>c. r = Some c \<and> Q c t) (withChans s w cs q buf)"
    using q1(1) assms(3,5-7) live
    by (auto simp: createChannelRound_def GetConnection_def getConnectionFromPool_def wp_simps withChans_def
        ReturnConnection_def putConnection_def unflagged_def conn_live_def
        intro!: quiet_verify [OF assms(1)] quiet_NewChannelHost [OF assms(1)])
      (use assms(8) put in \<open>simp add: withChans_def\<close>)
  then show ?thesis
    unfolding createCacheChannel_def
    by (intro wp_forever [where n = 0 and I = "\<lambda>_ t. t = withChans s w cs q buf"]) (auto elim!: wp_mono)
qed

text \<open>
  Filling the cache: the i-th channel is made on the connection at place \<open>i mod n\<close> of the queue.
\<close>

lemma rotate_hd: "hs \<noteq> [] \<Longrightarrow> rotate k hs = hs ! (k mod length hs) # tl (rotate k hs)"
  by (metis hd_rotate_conv_nth list.collapse rotate_is_Nil_conv)

lemma rotate_step: "rotate k hs = h # xs \<Longrightarrow> rotate (Suc k) hs = xs @ [h]"
  by (simp add: rotate1_def)

definition robin :: "('w, 'x) conn_st_scheme \<Rightarrow> nat list \<Rightarrow> nat \<Rightarrow> ChannelHost \<Rightarrow> bool" where
  "robin s hs i ch \<longleftrightarrow> chan_ID ch = of_nat i \<and> connHost ch = hs ! (i mod length hs) \<and>
     chan_ConnectionID ch = ConnectionID (connHosts s ! (hs ! (i mod length hs)))"

lemma initChannels_quiet:
  assumes "healthy E H" "fifo_queue K items" "hs \<noteq> []" "\<not> ch_closed (channels (pool s))"
    and "\<forall>h \<in> set hs. h < length (connHosts s) \<and> quiet_host (connHosts s ! h) \<and> unflagged s h"
  shows "H w \<Longrightarrow> items q = map QConnHost (rotate (length cs) hs) \<Longrightarrow>
    length buf + n \<le> ch_cap (channels (pool s)) \<Longrightarrow>
    wp (initChannels E K (of_nat (length cs)) n) (\<lambda>_ t. \<exists>w' cs' q'. H w' \<and>
      t = withChans s w' (cs @ cs') q' (buf @ [length (chanHosts s @ cs) ..< length (chanHosts s @ cs) + n]) \<and>
      length cs' = n \<and> items q' = map QConnHost (rotate (length cs + n) hs) \<and>
      (\<forall>i<n. robin s hs (length cs + i) (cs' ! i))) (withChans s w cs q buf)"
proof (induction n arbitrary: w cs q buf)
  case 0
  then show ?case by (auto simp: wp_simps)
next
  case (Suc n)
  define h where "h = hs ! (length cs mod length hs)"
  define xs where "xs = tl (rotate (length cs) hs)"
  have rot: "rotate (length cs) hs = h # xs"
    using rotate_hd [OF assms(3)] by (simp add: h_def xs_def)
  have h: "h < length (connHosts s) \<and> quiet_host (connHosts s ! h) \<and> unflagged s h"
    using assms(3,5) by (simp add: h_def)
  let ?c = "\<lambda>a. openChan (of_nat (length cs)) (ConnectionID (connHosts s ! h)) True h a"
  let ?l = "length (chanHosts s @ cs)"
  have nxt: "wp (initChannels E K (of_nat (length (cs @ [?c a]))) n) (\<lambda>_ t. \<exists>w' cs' q'. H w' \<and>
      t = withChans s w' (cs @ cs') q' (buf @ [?l ..< ?l + Suc n]) \<and>
      length cs' = Suc n \<and> items q' = map QConnHost (rotate (length cs + Suc n) hs) \<and>
      (\<forall>i<Suc n. robin s hs (length cs + i) (cs' ! i))) (withChans s v (cs @ [?c a]) r (buf @ [?l]))"
    if "H v" "items r = map QConnHost (xs @ [h])" for v r a
  proof -
    have q: "items r = map QConnHost (rotate (length (cs @ [?c a])) hs)"
      using that(2) rotate_step [OF rot] by simp
    have room: "length (buf @ [?l]) + n \<le> ch_cap (channels (pool s))"
      using Suc.prems(3) by simp
    show ?thesis
    proof (rule wp_mono [OF Suc.IH [OF that(1) q room]], elim conjE exE, intro exI conjI)
      fix t w' cs' q'
      assume w': "H w'"
        and t: "t = withChans s w' ((cs @ [?c a]) @ cs') q'
          ((buf @ [?l]) @ [length (chanHosts s @ cs @ [?c a]) ..< length (chanHosts s @ cs @ [?c a]) + n])"
        and len: "length cs' = n" and q': "items q' = map QConnHost (rotate (length (cs @ [?c a]) + n) hs)"
        and num: "\<forall>i<n. robin s hs (length (cs @ [?c a]) + i) (cs' ! i)"
      show "H w'" by (fact w')
      show "t = withChans s w' (cs @ ?c a # cs') q' (buf @ [?l ..< ?l + Suc n])"
        using t by (simp add: upt_conv_Cons del: upt_Suc)
      show "length (?c a # cs') = Suc n" using len by simp
      show "items q' = map QConnHost (rotate (length cs + Suc n) hs)" using q' by simp
      show "\<forall>i<Suc n. robin s hs (length cs + i) ((?c a # cs') ! i)"
        using num by (auto simp: less_Suc_eq_0_disj robin_def h_def)
    qed
  qed
  show ?case
    unfolding initChannels.simps wp_bind
    by (rule quiet_createCacheChannel [OF assms(1,2) Suc.prems(1)])
      (use Suc.prems h rot nxt assms(4) in \<open>auto simp: wp_simps withChans_def get_channels_def put_channels_def chan_send_def
          add.commute [of "of_nat (length cs)" "1 :: uint64"]\<close>)
qed

text \<open>
  \<open>round_robin cfg items s t\<close>: \<open>t\<close> has the pool of the configuration, on top of the heaps of \<open>s\<close>. The
  queue holds \<open>MaxConnectionCount\<close> fresh connections with ids 0, 1, ... and names \<open><app>-<id>\<close>, the cache
  \<open>MaxCacheChannelCount\<close> channels with ids 0, 1, ...; channel \<open>i\<close> is on the connection with id
  \<open>i mod MaxConnectionCount\<close>, and the queue stands where the last channel left it.
\<close>

definition round_robin ::
  "PoolConfig \<Rightarrow> ('q \<Rightarrow> qitem list) \<Rightarrow> ('w, 'q, 'x) pool_st_scheme \<Rightarrow> ('w, 'q, 'x) pool_st_scheme \<Rightarrow> bool" where
  "round_robin cfg items s t \<longleftrightarrow>
     (let n = unat (MaxConnectionCount cfg); m = unat (MaxCacheChannelCount cfg);
          hs = drop (length (connHosts s)) (connHosts t);
          cs = drop (length (chanHosts s)) (chanHosts t)
      in connHosts t = connHosts s @ hs \<and> length hs = n \<and>
         (\<forall>i<n. ConnectionID (hs ! i) = of_nat i \<and>
            connectionName (hs ! i) = ApplicationName cfg @ ''-'' @ FormatUint (of_nat i)) \<and>
         items (connections (pool t)) =
           map QConnHost (rotate m [length (connHosts s) ..< length (connHosts s) + n]) \<and>
         chanHosts t = chanHosts s @ cs \<and> length cs = m \<and>
         ch_buf (channels (pool t)) = [length (chanHosts s) ..< length (chanHosts s) + m] \<and>
         (\<forall>i<m. chan_ID (cs ! i) = of_nat i \<and> chan_ConnectionID (cs ! i) = of_nat (i mod n)))"

lemma initChannels_round_robin:
  fixes s :: "('w, 'q, 'x) pool_st_scheme" and E :: "('w, 'e) env_scheme"
  assumes "healthy E H" "fifo_queue K items" "unat (MaxConnectionCount cfg) = n" "n \<noteq> 0"
    and s: "pool s = newPool q0 (make_chan (unat (MaxCacheChannelCount cfg))) cfg eh uh"
    and w: "H w" and q: "items q = map QConnHost [length (connHosts s) ..< length (connHosts s) + n]"
    and len: "length hs = n" and num: "\<forall>i<n. numbered (pool s) (of_nat i) (hs ! i)"
  shows "wp (initChannels E K 0 (unat (MaxCacheChannelCount cfg))) (\<lambda>_ t. round_robin cfg items s t)
    (withHosts s w hs q c)"
proof -
  let ?m = "unat (MaxCacheChannelCount cfg)" and ?l = "length (connHosts s)"
  let ?hs = "[?l ..< ?l + n]" and ?u = "withHosts s w hs q c"
  have u: "?u = withChans ?u w [] q []"
    by (simp add: withChans_def withHosts_def newPool_def make_chan_def s)
  have at: "connHosts ?u ! (?l + i) = hs ! i" for i by (simp add: nth_append)
  have ok: "\<forall>h \<in> set ?hs. h < length (connHosts ?u) \<and> quiet_host (connHosts ?u ! h) \<and> unflagged ?u h"
  proof
    fix h assume "h \<in> set ?hs"
    then obtain i where "h = ?l + i" "i < n"
      by (metis atLeastLessThan_iff le_Suc_ex nat_add_left_cancel_less set_upt)
    with num len show "h < length (connHosts ?u) \<and> quiet_host (connHosts ?u ! h) \<and> unflagged ?u h"
      by (simp add: numbered_def unflagged_def withHosts_def newPool_def nth_append s)
  qed
  have "wp (initChannels E K (of_nat (length ([] :: ChannelHost list))) ?m) (\<lambda>_ t. \<exists>w' cs' q'. H w' \<and>
    t = withChans ?u w' ([] @ cs') q' ([] @ [length (chanHosts ?u @ []) ..< length (chanHosts ?u @ []) + ?m]) \<and>
    length cs' = ?m \<and> items q' = map QConnHost (rotate (length ([] :: ChannelHost list) + ?m) ?hs) \<and>
    (\<forall>i<?m. robin ?u ?hs (length ([] :: ChannelHost list) + i) (cs' ! i))) (withChans ?u w [] q [])"
    by (rule initChannels_quiet [OF assms(1,2)])
      (use w q assms(4) ok in \<open>auto simp: withHosts_def newPool_def s\<close>)
  then show ?thesis
    unfolding u [symmetric] list.size semiring_1_class.of_nat_0 append_Nil append_Nil2 add_0
  proof (rule wp_mono, elim exE conjE, goal_cases)
    case (1 _ t w' cs' q')
    have "\<forall>i<?m. chan_ID (cs' ! i) = of_nat i \<and> chan_ConnectionID (cs' ! i) = of_nat (i mod n)"
      using 1 assms(4) num by (simp add: robin_def at numbered_def)
    then show ?case
      using 1 assms(3) len num
      by (simp add: round_robin_def withChans_def withHosts_def Let_def numbered_def newPool_def s)
  qed
qed

text \<open>
  C2: on a network where dialling and opening channels succeed, \<open>NewConnectionPool\<close> with a valid
  configuration (no TLS, sizes that can be allocated) returns, reports no error, and the pool is filled as \<open>round_robin\<close> says:
  numbered and named connections, numbered channels spread round robin over them.
\<close>

theorem NewConnectionPool_round_robin:
  fixes s :: "('w, 'q, 'x) pool_st_scheme" and E :: "('w, 'e) env_scheme"
  assumes "healthy E H" "fifo_queue K items" "H (world s)" "noTLS (pc_TLSConfig cfg)"
    and "Heartbeat cfg \<noteq> 0" "ConnectionTimeout cfg \<noteq> 0" "MaxConnectionCount cfg \<noteq> 0" "sizes_fit cfg"
  shows "\<exists>t. NewConnectionPool E K cfg eh uh s = Some (Return None, t) \<and> round_robin cfg items s t"
proof -
  have fits: "slice_fits (MaxConnectionCount cfg)" "chan_fits (MaxCacheChannelCount cfg)"
    using assms(8) by (simp_all add: sizes_fit_def)
  obtain q where q: "qNew K (MaxConnectionCount cfg) = Return q" "items q = []"
    by (rule newQueue_fits [OF assms(2) fits(1)])
  let ?s = "s\<lparr>pool := newPool q (make_chan (unat (MaxCacheChannelCount cfg))) cfg eh uh\<rparr>"
  let ?n = "unat (MaxConnectionCount cfg)" and ?q = q
  have rr: "round_robin cfg items ?s t = round_robin cfg items s t" for t
    by (simp add: round_robin_def)
  have s0: "?s = withHosts ?s (world s) [] ?q 0"
    by (simp add: withHosts_def newPool_def)
  have "wp (initConnections E K ?n) (\<lambda>r t. r \<and> (\<exists>w' hs' q'. H w' \<and>
      t = withHosts ?s w' ([] @ hs') q' (0 + of_nat ?n) \<and> length hs' = ?n \<and>
      items q' = items ?q @ map QConnHost [length (connHosts ?s @ []) ..< length (connHosts ?s @ []) + ?n] \<and>
      (\<forall>i<?n. numbered (pool ?s) (0 + of_nat i) (hs' ! i)))) (withHosts ?s (world s) [] ?q 0)"
    by (rule initConnections_quiet [OF assms(1,2)]) (use assms(3,4) in \<open>simp_all add: newPool_def\<close>)
  then have "wp (initConnections E K ?n) (\<lambda>ok. wp (if \<not> ok then ret False
       else bind_go (initChannels E K 0 (unat (MaxCacheChannelCount cfg))) (\<lambda>_. ret True))
       (\<lambda>ok t. ok \<and> round_robin cfg items s t)) (withHosts ?s (world s) [] ?q 0)"
    by (rule wp_mono)
      (use assms(7) in \<open>auto simp: wp_simps rr [symmetric] q(2) unat_gt_0
        intro!: initChannels_round_robin [OF assms(1,2)]\<close>)
  then have "wp (NewConnectionPool E K cfg eh uh) (\<lambda>r t. r = None \<and> round_robin cfg items s t) s"
    using assms(5-7) unfolding NewConnectionPool_def initializeConnections_def
    by (simp add: wp_simps withHosts_def newPool_def newQueue_ret [OF q(1)] makeChannels_def fits) (erule wp_mono, auto simp: wp_simps split: if_splits)
  then show ?thesis by (simp add: wp_iff)
qed

text \<open>An instance: the scripted broker, with nothing left to refuse, is a healthy network.\<close>

definition cfg2 :: PoolConfig where
  "cfg2 = \<lparr>ApplicationName = ''app'', pc_URI = ''amqp://localhost'', Heartbeat = 5, ConnectionTimeout = 10,
     pc_SleepOnErrorInterval = 100, MaxConnectionCount = 2, MaxCacheChannelCount = 3, pc_TLSConfig = None\<rparr>"

definition blank :: "(broker, qitem list) pool_st" where
  "blank = \<lparr>world = calm, connHosts = [], chanHosts = [], pool = newPool [] (make_chan 3) cfg2 None None\<rparr>"

definition obliging :: "broker \<Rightarrow> bool" where
  "obliging w \<longleftrightarrow> dials w = [] \<and> closed_conns w = []"

lemma scripted_healthy: "healthy scripted obliging"
  by (simp add: healthy_def scripted_def obliging_def)

lemma calm_obliging [simp]: "obliging calm" "obliging (world blank)"
  by (simp_all add: obliging_def calm_def blank_def)

theorem NewConnectionPool_round_robin_witness:
  "\<exists>t. NewConnectionPool scripted list_queue cfg2 None None blank = Some (Return None, t) \<and>
     round_robin cfg2 (\<lambda>q. q) blank t"
  by (rule NewConnectionPool_round_robin [OF scripted_healthy list_queue_fifo])
    (simp_all add: cfg2_def noTLS_def sizes_fit_def slice_fits_def chan_fits_def)

subsection \<open>Recovery\<close>

text \<open>
  An outage that ends: \<open>k w\<close> bounds the failed dials and the connection errors still to come in
  \<open>w\<close>. A failed dial lowers it, an error that arrives on a notification channel is paid for by it,
  nothing else raises it.
\<close>

definition outage_ends :: "('w, 'e) env_scheme \<Rightarrow> 'w handler option \<Rightarrow> ('w \<Rightarrow> nat) \<Rightarrow> bool" where
  "outage_ends E eh k \<longleftrightarrow>
     (\<forall>u c w e. fst (DialConfig E u c w) = Inl e \<longrightarrow> k (snd (DialConfig E u c w)) < k w) \<and>
     (\<forall>p w. k (snd (Conn_IsClosed E p w)) \<le> k w) \<and>
     (\<forall>d w. k (time_Sleep E d w) \<le> k w) \<and>
     (\<forall>f e w. eh = Some f \<longrightarrow> k (f e w) \<le> k w) \<and>
     (\<forall>p c w. length (ch_buf (fst (feed_Errors E p c w))) + k (snd (feed_Errors E p c w))
                \<le> length (ch_buf c) + k w \<and>
              (\<not> ch_closed c \<longrightarrow> \<not> ch_closed (fst (feed_Errors E p c w))))"

text \<open>The library closes a notification channel only after the connection reports that it is closed.\<close>

definition notified_closed :: "('w, 'e) env_scheme \<Rightarrow> ConnectionHost \<Rightarrow> bool" where
  "notified_closed E ch \<longleftrightarrow>
     (ch_closed (Errors ch) \<longrightarrow> (\<forall>p w. Connection ch = Some p \<longrightarrow> fst (Conn_IsClosed E p w)))"

lemma outageD:
  assumes "outage_ends E eh k"
  shows "fst (DialConfig E u c w) = Inl e \<Longrightarrow> k w \<le> m \<Longrightarrow> k (snd (DialConfig E u c w)) < m"
    and "k w \<le> m \<Longrightarrow> k (snd (Conn_IsClosed E p w)) \<le> m"
    and "k w < m \<Longrightarrow> k (time_Sleep E d w) < m"
    and "eh = Some f \<Longrightarrow> k w < m \<Longrightarrow> k (f er w) < m"
    and "length (ch_buf (fst (feed_Errors E p b w))) + k (snd (feed_Errors E p b w)) \<le> length (ch_buf b) + k w"
    and "\<not> ch_closed b \<Longrightarrow> \<not> ch_closed (fst (feed_Errors E p b w))"
proof -
  note k = assms [unfolded outage_ends_def]
  note k1 = k [THEN conjunct1, rule_format] and k2 = k [THEN conjunct2, THEN conjunct1, rule_format]
    and k3 = k [THEN conjunct2, THEN conjunct2, THEN conjunct1, rule_format]
    and k4 = k [THEN conjunct2, THEN conjunct2, THEN conjunct2, THEN conjunct1, rule_format]
  show "fst (DialConfig E u c w) = Inl e \<Longrightarrow> k w \<le> m \<Longrightarrow> k (snd (DialConfig E u c w)) < m"
    by (rule less_le_trans [OF k1])
  show "k w \<le> m \<Longrightarrow> k (snd (Conn_IsClosed E p w)) \<le> m"
    by (rule order.trans [OF k2])
  show "k w < m \<Longrightarrow> k (time_Sleep E d w) < m"
    by (rule le_less_trans [OF k3])
  show "eh = Some f \<Longrightarrow> k w < m \<Longrightarrow> k (f er w) < m"
    by (rule le_less_trans [OF k4])
qed (use assms in \<open>simp_all add: outage_ends_def\<close>)

text \<open>A connection attempt: a failure is paid for, a success leaves an open notification channel.\<close>

lemma outage_connect:
  assumes "outage_ends E eh k" "h < length (connHosts s)" "noTLS (tlsConfig (connHosts s ! h))"
    and "notified_closed E (connHosts s ! h)"
  shows "wp (ConnectWithErrorHandler E eh h) (\<lambda>ok t.
     if ok then conn_ext s t \<and> conn_live t h \<and> \<not> ch_closed (Errors (connHosts t ! h))
     else \<exists>w. t = s\<lparr>world := w\<rparr> \<and> k w < k (world s)) s"
proof -
  note k = outageD [OF assms(1)]
  from assms(2-4) show ?thesis
    by (auto simp: ConnectWithErrorHandler_def isConnected_def hostTLS_def wp_simps noTLS_def
        conn_ext_def conn_live_def notified_closed_def split: option.splits sum.splits
        intro!: exI conjI [OF refl] k(1,2,4))
qed

text \<open>Flushing: every error taken from an open channel lowers what is buffered or still to come.\<close>

lemma outage_flush:
  assumes "outage_ends E eh k" "h < length (connHosts s)" "\<not> ch_closed (Errors (connHosts s ! h))"
  shows "wp (flushErrorsRound E h) (\<lambda>r t. h < length (connHosts t) \<and> \<not> ch_closed (Errors (connHosts t ! h)) \<and>
     (case r of
        None \<Rightarrow> length (ch_buf (Errors (connHosts t ! h))) + k (world t)
                 < length (ch_buf (Errors (connHosts s ! h))) + k (world s)
      | Some _ \<Rightarrow> unflagged t h)) s"
proof -
  let ?ch = "connHosts s ! h"
  define c where "c = (case Connection ?ch of None \<Rightarrow> Errors ?ch | Some p \<Rightarrow> fst (feed_Errors E p (Errors ?ch) (world s)))"
  define w where "w = (case Connection ?ch of None \<Rightarrow> world s | Some p \<Rightarrow> snd (feed_Errors E p (Errors ?ch) (world s)))"
  have c: "\<not> ch_closed c" "length (ch_buf c) + k w \<le> length (ch_buf (Errors ?ch)) + k (world s)"
    using outageD(5,6) [OF assms(1)] assms(3) by (simp_all add: c_def w_def split: option.splits)
  have poll: "wp (poll_Errors E h) Q s \<longleftrightarrow> Q (fst (chan_recv c))
      (s\<lparr>world := w, connHosts := (connHosts s)[h := ?ch\<lparr>Errors := snd (chan_recv c)\<rparr>]\<rparr>)" for Q
    using assms(2) by (auto simp: poll_Errors_def wp_simps c_def w_def split: option.splits)
  show ?thesis
    using assms(2) c
    by (cases c rule: chan_recv_cases)
      (auto simp: flushErrorsRound_def wp_bind poll wp_ret wp_host_at unflagConnection_def wp_upd_pool unflagged_def)
qed

lemma outage_flush_loop:
  fixes s :: "('w, 'q, 'x) pool_st_scheme"
  assumes "outage_ends E eh k" "h < length (connHosts s)" "\<not> ch_closed (Errors (connHosts s ! h))"
  shows "wp (forever (flushErrorsRound E h)) (\<lambda>_ t. unflagged t h) s"
proof (rule wp_forever [where I = "\<lambda>n t. h < length (connHosts t) \<and> \<not> ch_closed (Errors (connHosts t ! h)) \<and>
    n = length (ch_buf (Errors (connHosts t ! h))) + k (world t)"])
  fix n and t :: "('w, 'q, 'x) pool_st_scheme"
  assume t: "h < length (connHosts t) \<and> \<not> ch_closed (Errors (connHosts t ! h)) \<and>
    n = length (ch_buf (Errors (connHosts t ! h))) + k (world t)"
  then have ok: "h < length (connHosts t)" "\<not> ch_closed (Errors (connHosts t ! h))" by auto
  show "wp (flushErrorsRound E h) (\<lambda>c u. case c of
      None \<Rightarrow> \<exists>m<n. h < length (connHosts u) \<and> \<not> ch_closed (Errors (connHosts u ! h)) \<and>
        m = length (ch_buf (Errors (connHosts u ! h))) + k (world u)
    | Some a \<Rightarrow> unflagged u h) t"
    by (rule wp_mono [OF outage_flush [OF assms(1) ok]]) (use t in \<open>auto split: option.splits\<close>)
qed (use assms in simp)

text \<open>
  What a recovery may touch: the world and host \<open>h\<close>, whose identity and settings stay; at the very end the flag
  of that host.
\<close>

definition host_only :: "nat \<Rightarrow> ('w, 'q, 'x) pool_st_scheme \<Rightarrow> ('w, 'q, 'x) pool_st_scheme \<Rightarrow> bool" where
  "host_only h s t \<longleftrightarrow> (\<exists>w ch. t = s\<lparr>world := w, connHosts := (connHosts s)[h := ch]\<rparr> \<and>
     host_static ch = host_static (connHosts s ! h))"

definition recovered :: "nat \<Rightarrow> ('w, 'q, 'x) pool_st_scheme \<Rightarrow> ('w, 'q, 'x) pool_st_scheme \<Rightarrow> bool" where
  "recovered h s t \<longleftrightarrow> (\<exists>w ch. t = s\<lparr>world := w, connHosts := (connHosts s)[h := ch],
       pool := (pool s)\<lparr>flaggedConnections := (flaggedConnections (pool s))(ConnectionID (connHosts s ! h) \<mapsto> False)\<rparr>\<rparr> \<and>
     host_static ch = host_static (connHosts s ! h) \<and> Connection ch \<noteq> None)"

lemma host_only_refl: "host_only h s s"
  unfolding host_only_def by (intro exI [of _ "world s"] exI [of _ "connHosts s ! h"]) simp

lemma host_only_same:
  assumes "host_only h s t"
  shows "length (connHosts t) = length (connHosts s)" "pool t = pool s"
    "h < length (connHosts s) \<Longrightarrow> host_static (connHosts t ! h) = host_static (connHosts s ! h)"
  using assms by (auto simp: host_only_def)

lemma host_only_trans: "host_only h s t \<Longrightarrow> host_only h t u \<Longrightarrow> h < length (connHosts s) \<Longrightarrow> host_only h s u"
  by (auto simp: host_only_def) (metis state_order(1))

lemma host_only_world [simp]: "host_only h s t \<Longrightarrow> host_only h s (t\<lparr>world := w\<rparr>)"
  unfolding host_only_def by (elim exE conjE, intro exI [of _ w] exI) auto

lemma host_only_update:
  "host_static ch = host_static (connHosts s ! h) \<Longrightarrow> host_only h s (s\<lparr>connHosts := (connHosts s)[h := ch]\<rparr>)"
  "host_static ch = host_static (connHosts s ! h) \<Longrightarrow> host_only h s (s\<lparr>world := w, connHosts := (connHosts s)[h := ch]\<rparr>)"
  unfolding host_only_def by (rule exI [of _ "world s"], rule exI [of _ ch], simp, rule exI [of _ w], rule exI [of _ ch], simp)

lemma connect_host_only:
  "h < length (connHosts s) \<Longrightarrow> wlp (ConnectWithErrorHandler E eh h) (\<lambda>_ t. host_only h s t) X s"
  by (auto simp: ConnectWithErrorHandler_def isConnected_def hostTLS_def createTLSConfig_def call_handler_def wp_simps host_only_refl
      host_only_update split: option.splits sum.splits)

lemma recoverRound_host_only:
  "h < length (connHosts s) \<Longrightarrow> wlp (recoverRound E h) (\<lambda>_ t. host_only h s t) X s"
  unfolding recoverRound_def wlp_bind wlp_gets
  by (rule wlp_mono [OF connect_host_only]) (auto simp: wp_simps)

lemma flushErrorsRound_host_only:
  assumes "h < length (connHosts s)"
  shows "wlp (flushErrorsRound E h) (\<lambda>r t. if r = None then host_only h s t else
      (\<exists>u. host_only h s u \<and> t = u\<lparr>pool := (pool s)\<lparr>flaggedConnections := (flaggedConnections (pool s))(ConnectionID (connHosts s ! h) \<mapsto> False)\<rparr>\<rparr>)) X s"
proof -
  have "wlp (poll_Errors E h) (\<lambda>_ t. host_only h s t \<and> h < length (connHosts t) \<and>
      ConnectionID (connHosts t ! h) = ConnectionID (connHosts s ! h) \<and> pool t = pool s) X s"
    using assms by (auto simp: poll_Errors_def wp_simps host_only_update split: option.splits)
  then show ?thesis
    unfolding flushErrorsRound_def by (rule wlp_seq) (auto simp: wp_simps unflagConnection_def split: received.splits)
qed

lemma recovery_touches:
  assumes "h < length (connHosts s)"
  shows "wlp (triggerConnectionRecovery E h) (\<lambda>_ t. conn_live t h \<longrightarrow> recovered h s t) (\<lambda>_ _. True) s"
  unfolding triggerConnectionRecovery_def
proof (rule wlp_seq)
  show "wlp (forever (recoverRound E h)) (\<lambda>_ t. host_only h s t) (\<lambda>_ _. True) s"
  proof (rule wlp_forever [where I = "host_only h s"])
    fix t assume t: "host_only h s t"
    show "wlp (recoverRound E h) (\<lambda>c u. case c of None \<Rightarrow> host_only h s u | Some _ \<Rightarrow> host_only h s u) (\<lambda>_ _. True) t"
      by (rule wlp_mono [OF recoverRound_host_only])
        (use t assms host_only_same(1) [OF t] in \<open>auto split: option.splits intro: host_only_trans\<close>)
  qed (rule host_only_refl)
next
  fix a and t
  assume t: "host_only h s t"
  show "wlp (forever (flushErrorsRound E h)) (\<lambda>_ u. conn_live u h \<longrightarrow> recovered h s u) (\<lambda>_ _. True) t"
  proof (rule wlp_forever [where I = "host_only h s"])
    fix u assume u: "host_only h s u"
    have same: "ConnectionID (connHosts u ! h) = ConnectionID (connHosts s ! h)" "pool u = pool s" "h < length (connHosts u)"
      using host_only_same [OF u] assms by (simp_all add: host_static_def)
    show "wlp (flushErrorsRound E h) (\<lambda>c v. case c of None \<Rightarrow> host_only h s v | Some _ \<Rightarrow> conn_live v h \<longrightarrow> recovered h s v) (\<lambda>_ _. True) u"
    proof (rule wlp_mono [OF flushErrorsRound_host_only [OF same(3)]], goal_cases)
      case (1 c v)
      show ?case
      proof (cases c)
        case None
        with 1 u assms show ?thesis by (auto intro: host_only_trans)
      next
        case (Some x)
        with 1 obtain z where z: "host_only h u z" "v = z\<lparr>pool := (pool s)\<lparr>flaggedConnections :=
            (flaggedConnections (pool s))(ConnectionID (connHosts s ! h) \<mapsto> False)\<rparr>\<rparr>"
          by (auto simp: same)
        from host_only_trans [OF u z(1) assms] obtain w ch where "z = s\<lparr>world := w, connHosts := (connHosts s)[h := ch]\<rparr>"
          "host_static ch = host_static (connHosts s ! h)" by (auto simp: host_only_def)
        with z(2) Some assms show ?thesis by (auto simp: recovered_def conn_live_def)
      qed
    qed simp
  qed (rule t)
qed

text \<open>
  C3: a recovery comes to an end. If the outage ends (\<open>outage_ends\<close>) and the library keeps to its
  notification contract, \<open>triggerConnectionRecovery\<close> returns. Afterwards host \<open>h\<close> has a connection object and is
  not flagged; its identity and settings, all other hosts, the flags of all other connections, the
  queue, the cache and everything else of the state are as they were.
\<close>

theorem triggerConnectionRecovery_returns:
  assumes "outage_ends E (unhealthyHandler (pool s)) k" "h < length (connHosts s)"
    and "noTLS (tlsConfig (connHosts s ! h))" "notified_closed E (connHosts s ! h)"
  shows "\<exists>t. triggerConnectionRecovery E h s = Some (Return (), t) \<and>
     recovered h s t \<and> pool_step s t \<and> conn_live t h \<and> unflagged t h"
proof -
  let ?eh = "unhealthyHandler (pool s)"
  have round: "wp (recoverRound E h) (\<lambda>c t. case c of
      None \<Rightarrow> \<exists>w. t = s\<lparr>world := w\<rparr> \<and> k w < k v
    | Some _ \<Rightarrow> h < length (connHosts t) \<and> \<not> ch_closed (Errors (connHosts t ! h))) (s\<lparr>world := v\<rparr>)" for v
    unfolding recoverRound_def wp_bind wp_gets
    by (simp, rule wp_mono [OF outage_connect [OF assms(1)]])
      (use assms outageD(3) [OF assms(1)] in \<open>auto simp: wp_simps conn_live_def split: if_splits\<close>)
  have "wp (forever (recoverRound E h))
      (\<lambda>_ t. h < length (connHosts t) \<and> \<not> ch_closed (Errors (connHosts t ! h))) s"
  proof (rule wp_forever [where I = "\<lambda>n t. \<exists>w. t = s\<lparr>world := w\<rparr> \<and> n = k w"])
    fix n t assume "\<exists>w. t = s\<lparr>world := w\<rparr> \<and> n = k w"
    then obtain v where v: "t = s\<lparr>world := v\<rparr>" "n = k v" by blast
    show "wp (recoverRound E h) (\<lambda>c t. case c of
        None \<Rightarrow> \<exists>m<n. \<exists>w. t = s\<lparr>world := w\<rparr> \<and> m = k w
      | Some _ \<Rightarrow> h < length (connHosts t) \<and> \<not> ch_closed (Errors (connHosts t ! h))) t"
      unfolding v by (rule wp_mono [OF round]) (auto split: option.splits)
  qed (auto intro: exI [of _ "world s"])
  then have "wp (triggerConnectionRecovery E h) (\<lambda>_ t. unflagged t h) s"
    unfolding triggerConnectionRecovery_def
    by (rule wp_seq) (auto intro: outage_flush_loop [OF assms(1)])
  from wp_conj [OF wp_conj [OF this triggerConnectionRecovery_wlp [OF assms(2)]] recovery_touches [OF assms(2)]]
  show ?thesis by (auto simp: wp_iff)
qed

text \<open>An instance: a closed connection, two refused dials, then success.\<close>

definition lost_host :: ConnectionHost where
  "lost_host = (openHost ''amqp://localhost'' ''app-0'' 0 5 10 None 7)"

definition outage2 :: "(broker, qitem list) pool_st" where
  "outage2 = blank\<lparr>world := calm\<lparr>dials := [False, False], closed_conns := [7]\<rparr>, connHosts := [lost_host]\<rparr>"

lemma scripted_outage: "outage_ends scripted None (\<lambda>w. length (dials w))"
  unfolding outage_ends_def
proof (intro conjI allI impI)
  fix u c e and w :: broker
  assume "fst (DialConfig scripted u c w) = Inl e"
  then show "length (dials (snd (DialConfig scripted u c w))) < length (dials w)"
    by (cases "dials w") (simp_all add: scripted_def split: if_splits)
qed (simp_all add: scripted_def)

theorem triggerConnectionRecovery_returns_witness:
  "\<exists>t. triggerConnectionRecovery scripted 0 outage2 = Some (Return (), t) \<and>
     recovered 0 outage2 t \<and> pool_step outage2 t \<and> conn_live t 0 \<and> unflagged t 0"
  by (rule triggerConnectionRecovery_returns [where k = "\<lambda>w. length (dials w)"])
    (simp_all add: scripted_outage outage2_def blank_def newPool_def lost_host_def openHost_def noTLS_def
      notified_closed_def)

end
