(* ===== verification/FR_PoolSession.thy ===== *)
theory FR_PoolSession
  imports FR_PoolProgress
begin

section \<open>Sessions of the pool\<close>

text \<open>
  What a client sees of the pool over time: sequences of calls in any order on any network, the
  rotation of the connections, the way of a channel back into the cache, and the cases in which
  a call does not come back.
\<close>

subsection \<open>Any sequence of calls\<close>

datatype pool_call =
    CallGetConnection
  | CallReturnConnection nat bool
  | CallGetChannel
  | CallGetTransient bool
  | CallReturnChannel nat bool
  | CallShutdown

text \<open>The pointers a client passes back are pointers it was given.\<close>

fun call_ok :: "('q \<Rightarrow> qitem list) \<Rightarrow> ('w, 'q, 'x) pool_st_scheme \<Rightarrow> pool_call \<Rightarrow> bool" where
  "call_ok items s (CallReturnConnection h flag) = conn_live s h"
| "call_ok items s (CallReturnChannel c erred) = (c < length (chanHosts s))"
| "call_ok items s CallShutdown = (length (items (connections (pool s))) < 9223372036854775808)"
| "call_ok items s _ = True"

fun run_call :: "('w, 'e) env_scheme \<Rightarrow> 'q queue_ops \<Rightarrow> pool_call \<Rightarrow> (('w, 'q, 'x) pool_st_scheme, unit) go" where
  "run_call E K CallGetConnection = bind_go (GetConnection E K) (\<lambda>_. ret ())"
| "run_call E K (CallReturnConnection h flag) = ReturnConnection K h flag"
| "run_call E K CallGetChannel = bind_go GetChannelFromPool (\<lambda>_. ret ())"
| "run_call E K (CallGetTransient ackable) = bind_go (GetTransientChannel E K ackable) (\<lambda>_. ret ())"
| "run_call E K (CallReturnChannel c erred) = ReturnChannel E c erred"
| "run_call E K CallShutdown = ConnectionPool_Shutdown E K False"

text \<open>A step: some call is made and stops, by returning or by parking its goroutine.\<close>

inductive pool_step_call ::
  "('w, 'e) env_scheme \<Rightarrow> 'q queue_ops \<Rightarrow> ('q \<Rightarrow> qitem list)
     \<Rightarrow> ('w, 'q, 'x) pool_st_scheme \<Rightarrow> ('w, 'q, 'x) pool_st_scheme \<Rightarrow> bool"
  for E K items where
  stepI: "call_ok items s c \<Longrightarrow> run_call E K c s = Some (r, t) \<Longrightarrow> pool_step_call E K items s t"

inductive_cases pool_step_callE: "pool_step_call E K items s t"

definition pool_created ::
  "('w, 'e) env_scheme \<Rightarrow> 'q queue_ops \<Rightarrow> ('w, 'q, 'x) pool_st_scheme \<Rightarrow> bool" where
  "pool_created E K s \<longleftrightarrow>
     (\<exists>cfg eh uh s0. heap_ok s0 \<and> NewConnectionPool E K cfg eh uh s0 = Some (Return None, s))"

lemma run_call_safe:
  assumes "fifo_queue K items" "channel_law E" "pool_inv items s" "call_ok items s c"
  shows "safe items (run_call E K c) (\<lambda>_ _. True) s"
proof (cases c)
  case CallShutdown
  have "wp (ConnectionPool_Shutdown E K False) (\<lambda>_ t. pool_inv items t \<and> heap_ext s t) s"
    using Shutdown_wp [OF assms(1,3), of E "\<lambda>_ _. True"] assms(4) CallShutdown
    by (auto simp: heap_ext_def elim: wp_mono)
  then show ?thesis
    using CallShutdown by (auto simp: safe_def intro: wp_imp_wlp)
qed (use assms in \<open>auto simp: GetTransientChannel_def intro!: safe_seq [OF GetConnection_safe]
   safe_mono [OF ReturnConnection_safe] safe_seq [OF GetChannelFromPool_safe]
   safe_seq [OF createCacheChannel_safe] ReturnChannel_safe\<close>)

lemma safe_inv: "safe items m Q s \<Longrightarrow> m s = Some (r, t) \<Longrightarrow> pool_inv items t \<and> (\<forall>p. r \<noteq> Panicked p)"
  by (auto simp: safe_def wlp_iff elim: settles.elims split: result.splits)

interpretation sess: invariant_system "pool_created E K" "pool_step_call E K items"
  "\<lambda>s. fifo_queue K items \<and> channel_law E \<longrightarrow> pool_inv items s" for E K items
proof unfold_locales
  show "fifo_queue K items \<and> channel_law E \<longrightarrow> pool_inv items s" if "pool_created E K s" for s
    using that NewConnectionPool_safe [of K items E] unfolding pool_created_def by blast
  show "fifo_queue K items \<and> channel_law E \<longrightarrow> pool_inv items t"
    if "fifo_queue K items \<and> channel_law E \<longrightarrow> pool_inv items s" "pool_step_call E K items s t" for s t
    using that by (auto elim!: pool_step_callE dest: safe_inv [OF run_call_safe])
qed

text \<open>
  C1: a pool that was created and then used by any sequence of calls, on any network, keeps its
  invariant: the queue holds only connection hosts that have a connection object, the cache only
  managed channels and never more than its capacity, every channel host is meant for confirms and
  sits on a host that has a connection object. And no further call on it panics.
\<close>

theorem pool_session_safe:
  assumes "fifo_queue K items" "channel_law E" "pool_created E K s" "(pool_step_call E K items)\<^sup>*\<^sup>* s t"
  shows "pool_inv items t \<and>
    (\<forall>c r u. call_ok items t c \<and> run_call E K c t = Some (r, u) \<longrightarrow> (\<forall>p. r \<noteq> Panicked p))"
proof -
  have "pool_inv items t"
    using sess.reachable_inv [OF assms(3,4)] assms(1,2) by blast
  then show ?thesis
    using safe_inv [OF run_call_safe [OF assms(1,2)]] by blast
qed

subsection \<open>Rotation of the connections\<close>

text \<open>A client that borrows and returns connections one after the other, and the hosts it saw.\<close>

fun borrow :: "('w, 'e) env_scheme \<Rightarrow> 'q queue_ops \<Rightarrow> nat \<Rightarrow> (('w, 'q, 'x) pool_st_scheme, nat list) go" where
  "borrow E K 0 = ret []"
| "borrow E K (Suc k) =
     bind_go (GetConnection E K) (\<lambda>r. case r of
       Inl err \<Rightarrow> borrow E K k
     | Inr h \<Rightarrow>
         bind_go (ReturnConnection K h False) (\<lambda>_.
         bind_go (borrow E K k) (\<lambda>hs. ret (h # hs))))"

definition withQueue :: "('w, 'q, 'x) pool_st_scheme \<Rightarrow> 'w \<Rightarrow> 'q \<Rightarrow> ('w, 'q, 'x) pool_st_scheme" where
  "withQueue s w q = s\<lparr>world := w, pool := (pool s)\<lparr>connections := q\<rparr>\<rparr>"

lemma quiet_GetConnection:
  assumes "healthy E H" "fifo_queue K items" "H w" "items q = QConnHost h # xs"
    and "h < length (connHosts s)" "quiet_host (connHosts s ! h)" "unflagged s h"
    and "\<And>w' q'. H w' \<Longrightarrow> items q' = xs \<Longrightarrow> Q (Inr h) (withQueue s w' q')"
  shows "wp (GetConnection E K) Q (withQueue s w q)"
proof -
  obtain q1 where q1: "qGet K 1 q = Return (Inr [QConnHost h], q1)" "items q1 = xs"
    using fifo_get_one [OF assms(2,4)] .
  show ?thesis
    using q1(1) assms(3,5-7)
    by (auto simp: GetConnection_def getConnectionFromPool_def wp_simps withQueue_def unflagged_def
        intro!: quiet_verify [OF assms(1)])
      (use assms(8) q1(2) in \<open>simp add: withQueue_def\<close>)
qed

lemma borrow_quiet:
  assumes "healthy E H" "fifo_queue K items" "hs \<noteq> []"
    and "\<forall>h \<in> set hs. h < length (connHosts s) \<and> quiet_host (connHosts s ! h) \<and> unflagged s h"
  shows "H w \<Longrightarrow> items q = map QConnHost (rotate j hs) \<Longrightarrow>
    wp (borrow E K k) (\<lambda>r t. r = map (\<lambda>i. hs ! (i mod length hs)) [j ..< j + k] \<and>
      (\<exists>w' q'. t = withQueue s w' q' \<and> items q' = map QConnHost (rotate (j + k) hs))) (withQueue s w q)"
proof (induction k arbitrary: w q j)
  case 0
  then show ?case by (auto simp: wp_simps)
next
  case (Suc k)
  define h where "h = hs ! (j mod length hs)"
  define xs where "xs = tl (rotate j hs)"
  have rot: "rotate j hs = h # xs"
    using rotate_hd [OF assms(3)] by (simp add: h_def xs_def)
  have h: "h < length (connHosts s)" "quiet_host (connHosts s ! h)" "unflagged s h"
    using assms(3,4) by (simp_all add: h_def)
  show ?case
    unfolding borrow.simps wp_bind
  proof (rule quiet_GetConnection [OF assms(1,2) Suc.prems(1) _ h])
    show "items q = QConnHost h # map QConnHost xs" using Suc.prems(2) rot by simp
    fix w' q' assume w': "H w'" and q': "items q' = map QConnHost xs"
    let ?q = "snd (qPut K (QConnHost h) q')"
    have "items ?q = map QConnHost (rotate (Suc j) hs)"
      using fifo_put [OF assms(2)] q' rotate_step [OF rot] by simp
    from Suc.IH [OF w' this] show "wp (case Inr h of Inl err \<Rightarrow> borrow E K k
       | Inr h \<Rightarrow> bind_go (ReturnConnection K h False) (\<lambda>_. bind_go (borrow E K k) (\<lambda>hs. ret (h # hs))))
       (\<lambda>r t. r = map (\<lambda>i. hs ! (i mod length hs)) [j ..< j + Suc k] \<and>
          (\<exists>w' q'. t = withQueue s w' q' \<and> items q' = map QConnHost (rotate (j + Suc k) hs))) (withQueue s w' q')"
      by (simp add: ReturnConnection_def putConnection_def wp_simps withQueue_def upt_conv_Cons h_def del: upt_Suc)
  qed
qed

text \<open>
  C4: on a healthy network borrowing is fair. With connections \<open>hs\<close> in the queue, \<open>k\<close> rounds of
  \<open>GetConnection\<close> and \<open>ReturnConnection\<close> return, hand out \<open>hs ! 0, hs ! 1, ...\<close> cyclically, and leave the
  queue rotated by \<open>k\<close>; no connection is lost or duplicated.
\<close>

theorem GetConnection_rotates:
  assumes "healthy E H" "fifo_queue K items" "hs \<noteq> []" "H (world s)"
    and "items (connections (pool s)) = map QConnHost hs"
    and "\<forall>h \<in> set hs. h < length (connHosts s) \<and> quiet_host (connHosts s ! h) \<and> unflagged s h"
  shows "\<exists>t. borrow E K k s = Some (Return (map (\<lambda>i. hs ! (i mod length hs)) [0 ..< k]), t) \<and>
    items (connections (pool t)) = map QConnHost (rotate k hs) \<and>
    connHosts t = connHosts s \<and> channels (pool t) = channels (pool s)"
proof -
  have "s = withQueue s (world s) (connections (pool s))" by (simp add: withQueue_def)
  then have "wp (borrow E K k) (\<lambda>r t. r = map (\<lambda>i. hs ! (i mod length hs)) [0 ..< 0 + k] \<and>
      (\<exists>w' q'. t = withQueue s w' q' \<and> items q' = map QConnHost (rotate (0 + k) hs))) s"
    using borrow_quiet [OF assms(1-3,6,4), of "connections (pool s)" 0 k] assms(5) by simp
  then show ?thesis by (auto simp: wp_iff withQueue_def)
qed

subsection \<open>The way of a channel back into the cache\<close>

lemma ReturnChannel_cached:
  assumes "c < length (chanHosts s)" "transient (chanHosts s ! c)" "\<not> ch_closed (channels (pool s))"
  shows "ReturnChannel E c False s =
      (if length (ch_buf (channels (pool s))) < ch_cap (channels (pool s))
       then Some (Return (), put_channels ((channels (pool s))\<lparr>ch_buf := ch_buf (channels (pool s)) @ [c]\<rparr>) s)
       else Some (Blocked, s))"
  using assms by (simp add: ReturnChannel_def chan_at_def go_prims send_field_def get_channels_def chan_send_def)

lemma ReturnChannel_uncached:
  assumes "c < length (chanHosts s)" "\<not> transient (chanHosts s ! c)"
  shows "ReturnChannel E c erred s = Some (Return (), case Channel (chanHosts s ! c) of
     None \<Rightarrow> s | Some a \<Rightarrow> s\<lparr>world := Chan_Close E a (world s)\<rparr>)"
  using assms
  by (auto simp: ReturnChannel_def ChannelHost_Close_def chan_at_def chan_ptr_def go_prims recover_go_def env_do_def
      split: option.splits)

lemma quiet_MakeChannel:
  assumes "healthy E H" "H (world s)" "c < length (chanHosts s)" "conn_live s (connHost (chanHosts s ! c))"
    and "Ackable (chanHosts s ! c)"
    and "\<And>w a. H w \<Longrightarrow> Q None (s\<lparr>world := w, chanHosts := (chanHosts s)[c :=
           (chanHosts s ! c)\<lparr>Channel := Some a, chan_Errors := make_chan 100\<rparr>]\<rparr>)"
  shows "wp (MakeChannel E c) Q s"
proof -
  let ?p = "the (Connection (connHosts s ! connHost (chanHosts s ! c)))"
  obtain a w where ch: "Conn_Channel E ?p (world s) = ((Some a, None), w)" and w: "H w"
    using healthyD(12,13) [OF assms(1,2)] by (metis prod.collapse)
  have n: "fst (Chan_Confirm E a False w) = None" "H (snd (Chan_Confirm E a False w))"
    using healthyD(14,15) [OF assms(1) w] by blast+
  have "H (Chan_NotifyClose E a (snd (Chan_Confirm E a False w)))"
    using healthyD(7) [OF assms(1) n(2)] by blast
  from assms(6) [OF this, of a] assms(3-5) ch n show ?thesis
    by (simp add: MakeChannel_def confirmMode_def wp_simps conn_live_def)
qed

lemma ReturnChannel_erred:
  assumes "healthy E H" "H (world s)" "c < length (chanHosts s)" "chanHosts s ! c = ch" "transient ch" "Ackable ch"
    and "connHost ch < length (connHosts s)" "quiet_host (connHosts s ! connHost ch)" "unflagged s (connHost ch)"
    and "\<not> ch_closed (channels (pool s))" "length (ch_buf (channels (pool s))) < ch_cap (channels (pool s))"
  shows "wp (ReturnChannel E c True) (\<lambda>_ t. \<exists>w a. H w \<and> t = put_channels
      ((channels (pool s))\<lparr>ch_buf := ch_buf (channels (pool s)) @ [c]\<rparr>)
      (s\<lparr>world := w, chanHosts := (chanHosts s)[c := ch\<lparr>Channel := Some a, chan_Errors := make_chan 100\<rparr>]\<rparr>)) s"
proof -
  have live: "conn_live s (connHost ch)" using assms(7,8) by (simp add: conn_live_def quiet_host_def)
  have "wp (reconnectRound E c) (\<lambda>r t. r \<noteq> None \<and> (\<exists>w a. H w \<and> t =
      s\<lparr>world := w, chanHosts := (chanHosts s)[c := ch\<lparr>Channel := Some a, chan_Errors := make_chan 100\<rparr>]\<rparr>)) s"
    using assms live
    by (auto simp: reconnectRound_def wp_simps intro!: quiet_verify [OF assms(1)] quiet_MakeChannel [OF assms(1)]) blast
  then have "wp (reconnectChannel E c) (\<lambda>_ t. \<exists>w a. H w \<and> t =
      s\<lparr>world := w, chanHosts := (chanHosts s)[c := ch\<lparr>Channel := Some a, chan_Errors := make_chan 100\<rparr>]\<rparr>) s"
    unfolding reconnectChannel_def
    by (intro wp_forever [where n = 0 and I = "\<lambda>_ t. t = s"]) (auto elim!: wp_mono split: option.splits)
  then show ?thesis
    using assms unfolding ReturnChannel_def
    by (simp add: wp_simps) (erule wp_mono, auto simp: wp_simps get_channels_def put_channels_def chan_send_def, blast)
qed

text \<open>
  C5: \<open>ReturnChannel\<close> on every branch. A cached channel that did not err goes to the end of the
  cache (the goroutine parks if the cache is full); a cached channel that erred is, on a healthy
  network, reopened in confirm mode on its own connection with a fresh error buffer before it goes
  back; a channel that is not from the cache is closed, erred or not, and nothing else happens (without
  an AMQP channel the panic of the close is recovered from).
\<close>

theorem ReturnChannel_branches:
  assumes "c < length (chanHosts s)" "chanHosts s ! c = ch" "\<not> ch_closed (channels (pool s))"
  shows "if \<not> transient ch then ReturnChannel E c erred s = Some (Return (), case Channel ch of
      None \<Rightarrow> s | Some a \<Rightarrow> s\<lparr>world := Chan_Close E a (world s)\<rparr>)
    else if length (ch_buf (channels (pool s))) < ch_cap (channels (pool s)) then
      ReturnChannel E c False s =
        Some (Return (), put_channels ((channels (pool s))\<lparr>ch_buf := ch_buf (channels (pool s)) @ [c]\<rparr>) s) \<and>
      (healthy E H \<and> H (world s) \<and> Ackable ch \<and> connHost ch < length (connHosts s) \<and>
         quiet_host (connHosts s ! connHost ch) \<and> unflagged s (connHost ch) \<longrightarrow>
       (\<exists>w a. ReturnChannel E c True s = Some (Return (), put_channels
          ((channels (pool s))\<lparr>ch_buf := ch_buf (channels (pool s)) @ [c]\<rparr>)
          (s\<lparr>world := w, chanHosts := (chanHosts s)[c := ch\<lparr>Channel := Some a, chan_Errors := make_chan 100\<rparr>]\<rparr>))))
    else ReturnChannel E c False s = Some (Blocked, s)"
proof -
  have "\<exists>w a. ReturnChannel E c True s = Some (Return (), put_channels
          ((channels (pool s))\<lparr>ch_buf := ch_buf (channels (pool s)) @ [c]\<rparr>)
          (s\<lparr>world := w, chanHosts := (chanHosts s)[c := ch\<lparr>Channel := Some a, chan_Errors := make_chan 100\<rparr>]\<rparr>))"
    if "transient ch" "length (ch_buf (channels (pool s))) < ch_cap (channels (pool s))"
      "healthy E H \<and> H (world s) \<and> Ackable ch \<and> connHost ch < length (connHosts s) \<and>
         quiet_host (connHosts s ! connHost ch) \<and> unflagged s (connHost ch)"
    using ReturnChannel_erred [of E H s c ch] that assms by (simp add: wp_iff) blast
  then show ?thesis
    using ReturnChannel_uncached [of c s E erred] ReturnChannel_cached [of c s E] assms by simp
qed

subsection \<open>Calls that do not come back\<close>

lemma recoverRound_hopeless:
  assumes "\<And>u c w. \<exists>e. fst (DialConfig E u c w) = Inl e"
    and "\<And>p w. Connection (connHosts s ! h) = Some p \<Longrightarrow> fst (Conn_IsClosed E p w)"
    and "h < length (connHosts s)"
  shows "wp (recoverRound E h) (\<lambda>r t. r = None \<and> only_world s t) s"
proof -
  have dial: "fst (DialConfig E u c w) \<noteq> Inr p" for u c w p
    using assms(1) [of u c w] by auto
  show ?thesis
    using assms(2,3) dial
    by (auto simp: recoverRound_def ConnectWithErrorHandler_def isConnected_def hostTLS_def createTLSConfig_def
        wp_simps split: option.splits sum.splits)
qed

lemma recovery_hopeless:
  assumes "\<And>u c w. \<exists>e. fst (DialConfig E u c w) = Inl e"
    and "\<And>p w. Connection (connHosts s ! h) = Some p \<Longrightarrow> fst (Conn_IsClosed E p w)"
    and "h < length (connHosts s)"
  shows "triggerConnectionRecovery E h s = None"
proof -
  have "forever (recoverRound E h) s = None"
  proof (rule forever_diverges [where D = "only_world s"])
    fix t assume "only_world s t"
    then obtain w where t: "t = s\<lparr>world := w\<rparr>" by (rule only_worldE)
    show "\<exists>u. recoverRound E h t = Some (Return None, u) \<and> only_world s u"
      using recoverRound_hopeless [OF assms(1), where s = t and h = h] assms(2,3) t
      by (auto simp: wp_iff)
  qed simp
  then show ?thesis by (simp add: triggerConnectionRecovery_def bind_go_def)
qed

text \<open>
  C8: there is no way out of an outage but the broker. While every dial fails, \<open>GetConnection\<close> on a
  pool whose next connection is closed never returns (no timeout, no error), whatever handlers and
  sleep intervals are configured.
\<close>

theorem GetConnection_waits_out_outage:
  fixes s :: "('w, 'q, 'x) pool_st_scheme" and E :: "('w, 'e) env_scheme"
  assumes "fifo_queue K items" "items (connections (pool s)) = QConnHost h # xs" "conn_live s h"
    and "\<forall>u c w. \<exists>e. fst (DialConfig E u c w) = Inl e"
    and "\<forall>p w. Connection (connHosts s ! h) = Some p \<longrightarrow> fst (Conn_IsClosed E p w)"
  shows "GetConnection E K s = None"
proof -
  obtain q where q: "qGet K 1 (connections (pool s)) = Return (Inr [QConnHost h], q)"
    using fifo_get_one [OF assms(1,2)] by blast
  let ?same = "\<lambda>t :: ('w, 'q, 'x) pool_st_scheme. h < length (connHosts t) \<and>
      Connection (connHosts t ! h) = Connection (connHosts s ! h)"
  have poll: "wp (poll_Errors E h) (\<lambda>_ t. ?same t) t" if "?same t" for t
    using that by (auto simp: poll_Errors_def wp_simps split: option.splits)
  have report: "wp (reportUnhealthy r) (\<lambda>_ t. ?same t) t" if "?same t" for t r
    using that by (auto simp: reportUnhealthy_def wp_simps split: option.splits received.splits)
  have needs: "wp (needsRecovery E h b) (\<lambda>bad t. bad \<and> ?same t) t" if "?same t" for t b
    using that assms(3,5) by (auto simp: needsRecovery_def isConnectionFlagged_def conn_live_def wp_simps)
  have trig: "triggerConnectionRecovery E h t = None" if "?same t" for t
    by (rule recovery_hopeless) (use that assms(4,5) in auto)
  have verify: "verifyHealthyConnection E h t = None" if same: "?same t" for t
  proof -
    obtain r1 t1 where 1: "poll_Errors E h t = Some (Return r1, t1)" "?same t1"
      using poll [OF same] by (auto simp: wp_iff)
    obtain r2 t2 where 2: "reportUnhealthy r1 t1 = Some (Return r2, t2)" "?same t2"
      using report [OF 1(2), of r1] by (auto simp: wp_iff)
    obtain t3 where 3: "needsRecovery E h r2 t2 = Some (Return True, t3)" "?same t3"
      using needs [OF 2(2), of r2] by (auto simp: wp_iff)
    from 1 2 3 trig [OF 3(2)] show ?thesis
      by (simp add: verifyHealthyConnection_def bind_go_def)
  qed
  show ?thesis
    using q assms(3) verify [of "s\<lparr>pool := (pool s)\<lparr>connections := q\<rparr>\<rparr>"]
    by (simp add: GetConnection_def getConnectionFromPool_def go_prims upd_pool_def conn_live_def)
qed

text \<open>
  C9: the flush at the end of a recovery never ends on a closed notification channel. If the
  connection that was just made drops again and the library closes \<open>Errors\<close> before the flush gets to
  it, a receive on the closed channel succeeds for ever, the default branch is never taken, and
  \<open>triggerConnectionRecovery\<close> spins.
\<close>

theorem recovery_spins_on_closed_notifications:
  fixes s :: "('w, 'q, 'x) pool_st_scheme" and E :: "('w, 'e) env_scheme"
  assumes "feed_law (feed_Errors E)" "forever (recoverRound E h) s = Some (Return (), t)"
    and "h < length (connHosts t)" "Connection (connHosts t ! h) = Some p"
    and "ch_closed (fst (feed_Errors E p (Errors (connHosts t ! h)) (world t)))"
  shows "triggerConnectionRecovery E h s = None"
proof -
  define D where "D = (\<lambda>u :: ('w, 'q, 'x) pool_st_scheme. h < length (connHosts u) \<and>
      Connection (connHosts u ! h) = Some p \<and>
      ch_closed (fst (feed_Errors E p (Errors (connHosts u ! h)) (world u))))"
  have "forever (flushErrorsRound E h) t = None"
  proof (rule forever_diverges [where D = D])
    show "D t" using assms(3-5) by (simp add: D_def)
    fix u assume u: "D u"
    let ?c = "fst (feed_Errors E p (Errors (connHosts u ! h)) (world u))"
    have "ch_closed (snd (chan_recv ?c))" "fst (chan_recv ?c) \<noteq> WouldBlock"
      using u by (cases ?c rule: chan_recv_cases; simp add: D_def)+
    then have "wp (flushErrorsRound E h) (\<lambda>r v. r = None \<and> D v) u"
      using u assms(1)
      by (auto simp: flushErrorsRound_def poll_Errors_def wp_simps D_def feed_law_def split: received.splits)
    then show "\<exists>v. flushErrorsRound E h u = Some (Return None, v) \<and> D v"
      by (auto simp: wp_iff)
  qed
  with assms(2) show ?thesis by (simp add: triggerConnectionRecovery_def bind_go_def)
qed

subsection \<open>Construction and shutdown\<close>

lemma sint_large:
  fixes n :: uint64
  assumes "9223372036854775808 \<le> n"
  shows "\<not> 0 \<le> sint n"
proof
  assume n: "0 \<le> sint n"
  have "uint n = sint n mod 18446744073709551616" by (simp add: uint_sint take_bit_eq_mod)
  moreover have "sint n < 9223372036854775808" using sint_lt [of n] by simp
  ultimately have "uint n < 9223372036854775808" using n by simp
  with assms show False by (simp add: word_le_def)
qed

text \<open>
  C7: the constructor on any network. It reports the first failed guard without touching anything. Then
  it panics, with nothing touched, exactly if the queue or the cache cannot be allocated in the
  configured size; in particular for every \<open>MaxConnectionCount\<close> from \<open>2 ^ 63\<close> on, which is negative as an
  \<^verbatim>\<open>int64\<close>. Otherwise it fails only because a connection could not be made, or returns a pool that
  satisfies the invariant; it may also wait for ever.
\<close>

theorem NewConnectionPool_outcomes:
  assumes "fifo_queue K items" "channel_law E" "heap_ok s" "NewConnectionPool E K cfg eh uh s = Some (r, t)"
  shows "heap_ok t \<and>
    (if Heartbeat cfg = 0 \<or> ConnectionTimeout cfg = 0 then
       t = s \<and> r = Return (Some (ErrorString ''connectionpool heartbeat or connectiontimeout can't be 0''))
     else if MaxConnectionCount cfg = 0 then
       t = s \<and> r = Return (Some (ErrorString ''connectionpool maxconnectioncount can't be 0''))
     else if \<not> sizes_fit cfg then t = s \<and> r = Panicked MakeSizeOutOfRange
     else r = Blocked \<or> r = Return (Some (ErrorString ''initialization failed during connection creation'')) \<or>
       r = Return None \<and> pool_inv items t) \<and>
    (9223372036854775808 \<le> MaxConnectionCount cfg \<longrightarrow> \<not> sizes_fit cfg)"
proof -
  note safe = NewConnectionPool_safe [OF assms]
  have neg: "\<not> sizes_fit cfg" if "9223372036854775808 \<le> MaxConnectionCount cfg"
    using that by (simp add: sizes_fit_def slice_fits_def sint_large)
  have large: "t = s \<and> r = Panicked MakeSizeOutOfRange"
    if "\<not> sizes_fit cfg" "Heartbeat cfg \<noteq> 0" "ConnectionTimeout cfg \<noteq> 0" "MaxConnectionCount cfg \<noteq> 0"
    using assms(4) NewConnectionPool_too_large [OF assms(1) that, of E eh uh s] by simp
  have "\<exists>e. r = Return e \<and> e \<in> {None, Some (ErrorString ''initialization failed during connection creation'')}"
    if fit: "sizes_fit cfg" and "r \<noteq> Blocked" "Heartbeat cfg \<noteq> 0" "ConnectionTimeout cfg \<noteq> 0" "MaxConnectionCount cfg \<noteq> 0"
  proof -
    obtain q where "qNew K (MaxConnectionCount cfg) = Return q"
      using fit by (auto simp: sizes_fit_def intro: newQueue_fits [OF assms(1)])
    then show ?thesis
      using assms(4) that safe
      by (auto simp: NewConnectionPool_def newQueue_ret makeChannels_def sizes_fit_def go_prims split: option.splits result.splits if_splits)
  qed
  moreover have "t = s" "r = Return (Some (ErrorString ''connectionpool heartbeat or connectiontimeout can't be 0''))"
    if "Heartbeat cfg = 0 \<or> ConnectionTimeout cfg = 0"
    using that assms(4) by (auto simp: NewConnectionPool_def ret_def)
  moreover have "t = s" "r = Return (Some (ErrorString ''connectionpool maxconnectioncount can't be 0''))"
    if "\<not> (Heartbeat cfg = 0 \<or> ConnectionTimeout cfg = 0)" "MaxConnectionCount cfg = 0"
    using that assms(4) by (auto simp: NewConnectionPool_def ret_def)
  ultimately show ?thesis
    using safe large neg by auto
qed

text \<open>
  C6: \<open>Shutdown\<close> of a pool in any state its operations can reach returns, without a panic, and leaves
  it as before initialization: cache and queue empty, no flags, ids start at 0 again. Every
  connection that was in the queue is closed (\<open>closing_law\<close> is what the library promises of Close and
  IsClosed).
\<close>

theorem ConnectionPool_Shutdown_returns:
  assumes "fifo_queue K items" "pool_inv items s" "closing_law E C"
    and "length (items (connections (pool s))) < 9223372036854775808"
  shows "\<exists>t. ConnectionPool_Shutdown E K False s = Some (Return (), t) \<and> pool_inv items t \<and>
     items (connections (pool t)) = [] \<and> ch_buf (channels (pool t)) = [] \<and>
     flaggedConnections (pool t) = Map.empty \<and> connectionID (pool t) = 0 \<and>
     (\<forall>h p. QConnHost h \<in> set (items (connections (pool s))) \<and> Connection (connHosts s ! h) = Some p
        \<longrightarrow> C (world t) p)"
  using Shutdown_wp [OF assms(1,2,4), of E C] assms(3)
  by (force simp: wp_iff conns_of_def)

subsection \<open>Instances\<close>

text \<open>One connection and no cached channel, made by the constructor against the scripted broker.\<close>

definition cfg1 :: PoolConfig where
  "cfg1 = cfg2\<lparr>MaxConnectionCount := 1, MaxCacheChannelCount := 0\<rparr>"

definition host0 :: ConnectionHost where
  "host0 = openHost ''amqp://localhost'' ''app-0'' 0 5000000000 10000000000 None 0"

definition started1 :: "(broker, qitem list) pool_st" where
  "started1 = blank\<lparr>world := calm\<lparr>next_handle := 1\<rparr>, connHosts := [host0],
     pool := (newPool [] (make_chan 0) cfg1 None None)\<lparr>connectionID := 1, connections := [QConnHost 0]\<rparr>\<rparr>"

lemma FormatUint_0: "FormatUint 0 = ''0''"
  by code_simp

lemma created1: "NewConnectionPool scripted list_queue cfg1 None None blank = Some (Return None, started1)"
  by (simp add: NewConnectionPool_def initializeConnections_def NewConnectionHost_def Connect_def
      ConnectWithErrorHandler_def isConnected_def host_at_def upd_host_def upd_pool_def hostTLS_def dialTarget_def
      dialSettings_def putConnection_def go_prims env_call_def env_do_def scripted_def started1_def cfg1_def cfg2_def
      blank_def newPool_def calm_def list_queue_def host0_def openHost_def FormatUint_0 Duration_def Second_def
      Millisecond_def newQueue_def makeChannels_def slice_fits_def chan_fits_def)

lemma scripted_channels: "channel_law scripted"
  by (simp add: channel_law_def scripted_def)

lemma blank_ok [simp]: "heap_ok blank"
  by (simp add: heap_ok_def blank_def)

lemma pool_created1: "pool_created scripted list_queue started1"
  unfolding pool_created_def using created1 blank_ok by blast

definition flagged1 :: "(broker, qitem list) pool_st" where
  "flagged1 = started1\<lparr>pool := (pool started1)\<lparr>flaggedConnections := [0 \<mapsto> True],
     connections := [QConnHost 0, QConnHost 0]\<rparr>\<rparr>"

lemma flagged1_step: "pool_step_call scripted list_queue (\<lambda>q. q) started1 flagged1"
proof (rule stepI [where c = "CallReturnConnection 0 True"])
  show "run_call scripted list_queue (CallReturnConnection 0 True) started1 = Some (Return (), flagged1)"
    by (simp add: ReturnConnection_def flagConnection_def putConnection_def upd_pool_def host_at_def go_prims
        list_queue_def started1_def flagged1_def host0_def newPool_def)
qed (simp add: conn_live_def started1_def host0_def openHost_def)

theorem pool_session_safe_witness:
  "pool_inv (\<lambda>q. q) flagged1 \<and> run_call scripted list_queue CallGetChannel flagged1 = Some (Blocked, flagged1)"
proof
  show "pool_inv (\<lambda>q. q) flagged1"
    using pool_session_safe [OF list_queue_fifo scripted_channels pool_created1 r_into_rtranclp [of _ started1 flagged1]]
      flagged1_step by blast
  show "run_call scripted list_queue CallGetChannel flagged1 = Some (Blocked, flagged1)"
    by (simp add: GetChannelFromPool_def recv_field_def get_channels_def put_channels_def go_prims flagged1_def
        started1_def newPool_def)
qed

theorem NewConnectionPool_outcomes_witness:
  "heap_ok started1 \<and> pool_inv (\<lambda>q. q) started1"
  using NewConnectionPool_outcomes [OF list_queue_fifo scripted_channels blank_ok created1]
  by (simp add: cfg1_def cfg2_def sizes_fit_def slice_fits_def chan_fits_def)

lemma started1_hosts:
  "\<forall>h \<in> set [0]. h < length (connHosts started1) \<and> quiet_host (connHosts started1 ! h) \<and> unflagged started1 h"
  by (simp add: started1_def host0_def unflagged_def newPool_def)

theorem GetConnection_rotates_witness:
  "\<exists>t. borrow scripted list_queue 3 started1 = Some (Return [0, 0, 0], t) \<and>
    connections (pool t) = [QConnHost 0]"
proof -
  have "\<exists>t. borrow scripted list_queue 3 started1 =
      Some (Return (map (\<lambda>i. [0] ! (i mod length [0 :: nat])) [0 ..< 3]), t) \<and>
    connections (pool t) = map QConnHost (rotate 3 [0]) \<and>
    connHosts t = connHosts started1 \<and> channels (pool t) = channels (pool started1)"
    by (rule GetConnection_rotates [OF scripted_healthy list_queue_fifo _ _ _ started1_hosts])
      (simp_all add: started1_def obliging_def calm_def)
  then show ?thesis by (auto simp: numeral_3_eq_3)
qed

text \<open>A cached channel on that connection, outside the cache, which has room for it.\<close>

definition chan0 :: ChannelHost where
  "chan0 = openChan 0 0 True 0 4"

definition lent1 :: "(broker, qitem list) pool_st" where
  "lent1 = started1\<lparr>chanHosts := [chan0], pool := (pool started1)\<lparr>channels := make_chan 1\<rparr>\<rparr>"

theorem ReturnChannel_branches_witness:
  "ReturnChannel scripted 0 False lent1 = Some (Return (), put_channels ((make_chan 1)\<lparr>ch_buf := [0]\<rparr>) lent1) \<and>
   (\<exists>w a. ReturnChannel scripted 0 True lent1 = Some (Return (), put_channels ((make_chan 1)\<lparr>ch_buf := [0]\<rparr>)
      (lent1\<lparr>world := w, chanHosts := [chan0\<lparr>Channel := Some a, chan_Errors := make_chan 100\<rparr>]\<rparr>)))"
  using ReturnChannel_branches [of 0 lent1 chan0 scripted False obliging]
  by (simp add: lent1_def chan0_def started1_def scripted_healthy host0_def unflagged_def newPool_def obliging_def
      calm_def)

theorem GetConnection_waits_out_outage_witness:
  "GetConnection dead list_queue started1 = None"
  by (rule GetConnection_waits_out_outage [OF list_queue_fifo, where h = 0 and xs = "[]"])
    (simp_all add: started1_def conn_live_def host0_def openHost_def dead_def)

text \<open>A library that closes the notification channel of a connection right after it was made.\<close>

definition dropping :: "broker env" where
  "dropping = scripted\<lparr>feed_Errors := (\<lambda>p c w. (c\<lparr>ch_closed := True\<rparr>, w))\<rparr>"

theorem recovery_spins_on_closed_notifications_witness:
  "triggerConnectionRecovery dropping 0 started1 = None"
proof (rule recovery_spins_on_closed_notifications [where t = started1 and p = 0])
  show "forever (recoverRound dropping 0) started1 = Some (Return (), started1)"
    by (rule forever_break)
      (simp add: recoverRound_def go_prims ConnectWithErrorHandler_def isConnected_def host_at_def dropping_def
        scripted_def env_call_def started1_def host0_def openHost_def calm_def blank_def)
qed (simp_all add: feed_law_def dropping_def scripted_def started1_def host0_def openHost_def)

text \<open>The scripted broker keeps what the library promises about closing.\<close>

lemma scripted_closing: "closing_law scripted (\<lambda>w p. p \<in> set (closed_conns w))"
  by (simp add: closing_law_def scripted_def)

lemma started1_inv: "pool_inv (\<lambda>q. q) started1"
  using NewConnectionPool_safe [OF list_queue_fifo scripted_channels blank_ok created1] by simp

theorem ConnectionPool_Shutdown_returns_witness:
  "\<exists>t. ConnectionPool_Shutdown scripted list_queue False started1 = Some (Return (), t) \<and>
     connections (pool t) = [] \<and> 0 \<in> set (closed_conns (world t))"
  using ConnectionPool_Shutdown_returns [OF list_queue_fifo started1_inv scripted_closing]
  by (auto simp: started1_def host0_def openHost_def)

end
