(* ===== verification/FR_Message.thy ===== *)
theory FR_Message
  imports FR_Payload FR_PoolSession
begin

section \<open>Letters, receipts and received messages (message.go)\<close>

text \<open>
  Letters are shared by pointer (the auto publisher, receipts and clients refer to the same object,
  and a failed publish changes its retry count), so they live in a heap, the list \<open>letterHeap\<close> of
  the state. A context is an opaque handle; \<open>Background\<close> is the one of \<^verbatim>\<open>context.Background()\<close>. An option
  is a function on \<open>LetterOpts\<close> that may panic: assigning to an entry of a nil map does.
\<close>

definition Background :: nat where
  "Background = 0"

definition Persistent :: uint8 where
  "Persistent = 2"

record LetterOpts =
  Ctx :: nat
  Exchange_name :: string
  RoutingKey :: string
  ContentType :: string
  CorrelationID :: string
  MessageType :: string
  Mandatory :: bool
  Immediate :: bool
  Headers :: "table option"
  DeliveryMode :: uint8
  Priority :: uint8
  RetryCount :: uint16
  EConf :: "EncryptionConfig option"
  CConf :: "CompressionConfig option"

type_synonym LetterOptsFun = "LetterOpts \<Rightarrow> LetterOpts result"

definition defaultOpts :: "string \<Rightarrow> string \<Rightarrow> LetterOpts" where
  "defaultOpts e rk =
     \<lparr>Ctx = Background, Exchange_name = e, RoutingKey = rk, ContentType = ''application/json'',
      CorrelationID = '''', MessageType = '''', Mandatory = False, Immediate = False,
      Headers = Some Map.empty, DeliveryMode = Persistent, Priority = 0, RetryCount = 3,
      EConf = None, CConf = None\<rparr>"

definition WithContext :: "nat \<Rightarrow> LetterOptsFun" where
  "WithContext ctx = (\<lambda>o'. Return (o'\<lparr>Ctx := ctx\<rparr>))"

definition WithCorrelationID :: "string \<Rightarrow> LetterOptsFun" where
  "WithCorrelationID correlationID = (\<lambda>o'. Return (o'\<lparr>CorrelationID := correlationID\<rparr>))"

text \<open>The entries of the argument map are visited in some order: a list of pairs with distinct keys.\<close>

fun WithHeaders :: "(string \<times> gvalue) list \<Rightarrow> LetterOptsFun" where
  "WithHeaders [] o' = Return o'"
| "WithHeaders ((k, v) # h) o' = (case Headers o' of
     None \<Rightarrow> Panicked AssignToNilMap
   | Some hs \<Rightarrow> WithHeaders h (o'\<lparr>Headers := Some (hs(k \<mapsto> v))\<rparr>))"

definition WithEncryptionConfig :: "EncryptionConfig option \<Rightarrow> LetterOptsFun" where
  "WithEncryptionConfig eConf = (\<lambda>o'. Return (o'\<lparr>EConf := eConf\<rparr>))"

definition WithCompressionConfig :: "CompressionConfig option \<Rightarrow> LetterOptsFun" where
  "WithCompressionConfig cConf = (\<lambda>o'. Return (o'\<lparr>CConf := cConf\<rparr>))"

record Letter =
  LetterID :: uint64
  Body :: bytes
  opts :: LetterOpts

record ('w, 'q) letter_st = "('w, 'q) pool_st" +
  letterHeap :: "Letter list"

definition letter_at :: "nat \<Rightarrow> (('w, 'q, 'x) letter_st_scheme, Letter) go" where
  "letter_at l = (\<lambda>s. if l < length (letterHeap s) then Some (Return (letterHeap s ! l), s)
                      else Some (Panicked NilDereference, s))"

fun applyOpts :: "LetterOptsFun list \<Rightarrow> LetterOpts \<Rightarrow> LetterOpts result" where
  "applyOpts [] o' = Return o'"
| "applyOpts (f # fs) o' = (case f o' of
     Return o'' \<Rightarrow> applyOpts fs o'' | Panicked p \<Rightarrow> Panicked p | Blocked \<Rightarrow> Blocked)"

text \<open>The random source of the call is drawn from the world; the new letter's pointer is returned.\<close>

definition NewLetter ::
  "('w, 'e) env_scheme \<Rightarrow> 'v payload_lib \<Rightarrow> ('w \<Rightarrow> random_reader \<times> 'w) \<Rightarrow> string \<Rightarrow> string \<Rightarrow> 'v input
     \<Rightarrow> LetterOptsFun list \<Rightarrow> (('w, 'q, 'x) letter_st_scheme, goerror + nat) go" where
  "NewLetter E L rand exchange routingKey data optsFuns =
     (case applyOpts optsFuns (defaultOpts exchange routingKey) of
        Panicked p \<Rightarrow> panic_go p
      | Blocked \<Rightarrow> block_go
      | Return o' \<Rightarrow>
          bind_go (env_call rand) (\<lambda>rd. case ToPayload L rd data (CConf o') (EConf o') of
            Inl err \<Rightarrow> ret (Inl err)
          | Inr body \<Rightarrow>
              bind_go (env_call (uuid_New E)) (\<lambda>lid.
              bind_go (gets_go (\<lambda>s. length (letterHeap s))) (\<lambda>l.
              bind_go (modify_go (\<lambda>s. s\<lparr>letterHeap := letterHeap s @
                [\<lparr>LetterID = lid, Body = body, opts = o'\<rparr>]\<rparr>)) (\<lambda>_. ret (Inr l))))))"

definition Done :: "Letter \<Rightarrow> nat" where
  "Done l = Ctx (opts l)"

definition Options :: "Letter \<Rightarrow> LetterOpts" where
  "Options l = opts l"

subsection \<open>Receipts\<close>

record PublishReceipt =
  receipt_LetterID :: uint64
  FailedLetter :: "nat option"
  Success :: bool
  receipt_Error :: "goerror option"

text \<open>\<^verbatim>\<open>err.Error()\<close>; the text of an \<^verbatim>\<open>*amqp.Error\<close> is made by the client library, and a nil one panics.\<close>

fun error_text :: "(amqp_error \<Rightarrow> string) \<Rightarrow> goerror \<Rightarrow> string result" where
  "error_text amqpText (ErrorString s) = Return s"
| "error_text amqpText (LibraryError s) = Return s"
| "error_text amqpText (BoxedAmqpError (Some e)) = Return (amqpText e)"
| "error_text amqpText (BoxedAmqpError None) = Panicked NilDereference"

definition ToString ::
  "(uint64 \<Rightarrow> string) \<Rightarrow> (amqp_error \<Rightarrow> string) \<Rightarrow> PublishReceipt \<Rightarrow> string result" where
  "ToString uuidText amqpText r =
     (if Success r then
        Return (''[LetterID: '' @ uuidText (receipt_LetterID r) @ ''] - Publish successful.'' @ [CHR 0x0D, CHR 0x0A])
      else (case receipt_Error r of
          None \<Rightarrow> Panicked NilDereference
        | Some e \<Rightarrow> (case error_text amqpText e of
            Return t \<Rightarrow> Return (''[LetterID: '' @ uuidText (receipt_LetterID r) @ ''] - Publish failed.'' @ [CHR 0x0D, CHR 0x0A]
              @ ''Error: '' @ t @ [CHR 0x0D, CHR 0x0A])
          | Panicked p \<Rightarrow> Panicked p
          | Blocked \<Rightarrow> Blocked)))"

subsection \<open>Received messages\<close>

record ReceivedMessage =
  IsAckable :: bool
  rm_Body :: bytes
  MessageID :: string
  ApplicationID :: string
  PublishDate :: string
  Delivery :: amqp_Delivery

definition NewReceivedMessage :: "bool \<Rightarrow> amqp_Delivery \<Rightarrow> ReceivedMessage" where
  "NewReceivedMessage isAckable delivery =
     \<lparr>IsAckable = isAckable, rm_Body = d_Body delivery, MessageID = d_MessageId delivery,
      ApplicationID = d_AppId delivery, PublishDate = UtcTimestampFromTime (d_Timestamp delivery),
      Delivery = delivery\<rparr>"

definition Acknowledge :: "('w, 'e) env_scheme \<Rightarrow> ReceivedMessage \<Rightarrow> (('w, 'x) base_st_scheme, goerror option) go" where
  "Acknowledge E msg =
     (if \<not> IsAckable msg then ret (Some (ErrorString ''can't acknowledge, not an ackable message''))
      else (case d_Acknowledger (Delivery msg) of
          None \<Rightarrow> ret (Some (ErrorString ''can't acknowledge, internal channel is nil''))
        | Some a \<Rightarrow>
            bind_go (env_call (Chan_Call E a (AckCmd (d_DeliveryTag (Delivery msg)) False))) (\<lambda>r. ret (snd r))))"

definition Nack :: "('w, 'e) env_scheme \<Rightarrow> bool \<Rightarrow> ReceivedMessage \<Rightarrow> (('w, 'x) base_st_scheme, goerror option) go" where
  "Nack E requeue msg =
     (if \<not> IsAckable msg then ret (Some (ErrorString ''can't nack, not an ackable message''))
      else (case d_Acknowledger (Delivery msg) of
          None \<Rightarrow> ret (Some (ErrorString ''can't nack, internal channel is nil''))
        | Some a \<Rightarrow>
            bind_go (env_call (Chan_Call E a (NackCmd (d_DeliveryTag (Delivery msg)) False requeue))) (\<lambda>r. ret (snd r))))"

definition Reject :: "('w, 'e) env_scheme \<Rightarrow> bool \<Rightarrow> ReceivedMessage \<Rightarrow> (('w, 'x) base_st_scheme, goerror option) go" where
  "Reject E requeue msg =
     (if \<not> IsAckable msg then ret (Some (ErrorString ''can't reject, not an ackable message''))
      else (case d_Acknowledger (Delivery msg) of
          None \<Rightarrow> ret (Some (ErrorString ''can't reject, internal channel is nil''))
        | Some a \<Rightarrow>
            bind_go (env_call (Chan_Call E a (RejectCmd (d_DeliveryTag (Delivery msg)) requeue))) (\<lambda>r. ret (snd r))))"

subsection \<open>Settling a message\<close>

text \<open>
  The contract the three ways to settle a message share: without permission or without a channel
  an error and no word to the broker; otherwise exactly one command on the channel the message came
  from, and the library's answer.
\<close>

locale settlement =
  fixes E :: "('w, 'e) env_scheme"
    and op :: "ReceivedMessage \<Rightarrow> (('w, 'x) base_st_scheme, goerror option) go"
    and cmd :: "uint64 \<Rightarrow> amqp_cmd"
  assumes refused_unackable: "\<not> IsAckable m \<Longrightarrow> \<exists>e. op m s = Some (Return (Some e), s)"
    and refused_nil: "d_Acknowledger (Delivery m) = None \<Longrightarrow> \<exists>e. op m s = Some (Return (Some e), s)"
    and performed: "IsAckable m \<Longrightarrow> d_Acknowledger (Delivery m) = Some a \<Longrightarrow>
      op m s = Some (Return (snd (fst (Chan_Call E a (cmd (d_DeliveryTag (Delivery m))) (world s)))),
                     s\<lparr>world := snd (Chan_Call E a (cmd (d_DeliveryTag (Delivery m))) (world s))\<rparr>)"
begin

lemma settled:
  "case (if IsAckable m then d_Acknowledger (Delivery m) else None) of
     None \<Rightarrow> \<exists>e. op m s = Some (Return (Some e), s)
   | Some a \<Rightarrow> op m s = Some (Return (snd (fst (Chan_Call E a (cmd (d_DeliveryTag (Delivery m))) (world s)))),
                     s\<lparr>world := snd (Chan_Call E a (cmd (d_DeliveryTag (Delivery m))) (world s))\<rparr>)"
  using refused_unackable refused_nil performed by (simp split: option.splits)

end

interpretation ack: settlement E "Acknowledge E" "\<lambda>t. AckCmd t False" for E
  by unfold_locales (auto simp: Acknowledge_def go_prims env_call_def split: option.splits)

interpretation nack: settlement E "Nack E requeue" "\<lambda>t. NackCmd t False requeue" for E requeue
  by unfold_locales (auto simp: Nack_def go_prims env_call_def split: option.splits)

interpretation reject: settlement E "Reject E requeue" "\<lambda>t. RejectCmd t requeue" for E requeue
  by unfold_locales (auto simp: Reject_def go_prims env_call_def split: option.splits)

subsection \<open>Properties\<close>

lemma wp_letter_at [wp_simps]:
  "wp (letter_at l) Q s = (l < length (letterHeap s) \<and> Q (letterHeap s ! l) s)"
  by (simp add: wp_def letter_at_def)

lemma wlp_letter_at [wp_simps]:
  "wlp (letter_at l) Q X s =
     (if l < length (letterHeap s) then Q (letterHeap s ! l) s else X (Some NilDereference) s)"
  by (simp add: wlp_def letter_at_def)

lemma WithHeaders_merge:
  "Headers o' = Some hs \<Longrightarrow> WithHeaders h o' = Return (o'\<lparr>Headers := Some (hs ++ map_of (rev h))\<rparr>)"
  by (induction h arbitrary: o' hs) auto

text \<open>The options of the package.\<close>

inductive std_option :: "LetterOptsFun \<Rightarrow> bool" where
  "std_option (WithContext c)"
| "std_option (WithCorrelationID i)"
| "std_option (WithHeaders h)"
| "std_option (WithEncryptionConfig e)"
| "std_option (WithCompressionConfig k)"

definition addressed :: "string \<Rightarrow> string \<Rightarrow> LetterOpts \<Rightarrow> bool" where
  "addressed e rk o' \<longleftrightarrow> Exchange_name o' = e \<and> RoutingKey o' = rk \<and> Headers o' \<noteq> None \<and>
     ContentType o' = ''application/json'' \<and> DeliveryMode o' = Persistent \<and> Priority o' = 0 \<and>
     RetryCount o' = 3 \<and> \<not> Mandatory o' \<and> \<not> Immediate o'"

lemma std_option_addressed:
  "std_option f \<Longrightarrow> addressed e rk o' \<Longrightarrow> \<exists>o''. f o' = Return o'' \<and> addressed e rk o''"
  by (erule std_option.cases)
    (auto simp: addressed_def WithContext_def WithCorrelationID_def WithEncryptionConfig_def
      WithCompressionConfig_def WithHeaders_merge)

lemma applyOpts_addressed:
  "\<forall>f \<in> set fs. std_option f \<Longrightarrow> addressed e rk o' \<Longrightarrow> \<exists>o''. applyOpts fs o' = Return o'' \<and> addressed e rk o''"
proof (induction fs arbitrary: o')
  case (Cons f fs)
  then obtain o1 where "f o' = Return o1" "addressed e rk o1"
    using std_option_addressed by (meson list.set_intros(1))
  with Cons show ?case by simp
qed simp


text \<open>
  C36: a letter can be read by its addressee. Under the laws of the codecs and ciphers, what \<open>NewLetter\<close>
  put into the body is turned back into the marshalled data by \<open>ReadPayload\<close> with the letter's
  configurations.
\<close>

theorem NewLetter_readable:
  assumes "codec_law (codecs L)" "aead_law (cryptos L)" "\<forall>w. reader_law (fst (rand w)) \<and> (\<exists>b. fst (rand w) 12 = Inr b)"
    and "(case data of BytesInput b \<Rightarrow> Inr b | _ \<Rightarrow> json_Marshal L data) = Inr d" "d \<noteq> []"
    and "applyOpts fs (defaultOpts exchange rk) = Return o'"
    and "eEnabled (EConf o') \<longrightarrow> length (Hashkey (the (EConf o'))) \<in> {16, 24, 32}"
  shows "\<exists>t l. NewLetter E L rand exchange rk data fs s = Some (Return (Inr l), t) \<and>
    ReadPayload L (CConf o') (EConf o') (Body (letterHeap t ! l)) = (None, d)"
proof -
  from payload_roundtrip_lemma [OF assms(1,2) _ assms(4), of "fst (rand (world s))" "EConf o'" "CConf o'"] assms(3,5,7)
  obtain z where "ToPayload L (fst (rand (world s))) data (CConf o') (EConf o') = Inr z"
    "ReadPayload L (CConf o') (EConf o') z = (None, d)" by auto
  with assms(6) show ?thesis
    by (simp add: NewLetter_def go_prims env_call_def)
qed

text \<open>
  Acknowledging, nacking and rejecting a message. If the message is not ackable, or has no
  channel, the call returns an error and says nothing to the broker; otherwise it performs exactly
  one command, for the delivery tag of this message alone, on the channel the message came from,
  and returns the library's answer.
\<close>

lemma settling_a_message:
  "case (if IsAckable m then d_Acknowledger (Delivery m) else None) of
     None \<Rightarrow> (\<exists>e. Acknowledge E m s = Some (Return (Some e), s)) \<and>
             (\<exists>e. Nack E requeue m s = Some (Return (Some e), s)) \<and>
             (\<exists>e. Reject E requeue m s = Some (Return (Some e), s))
   | Some a \<Rightarrow>
       (let call = (\<lambda>cmd. Some (Return (snd (fst (Chan_Call E a cmd (world s)))),
                       s\<lparr>world := snd (Chan_Call E a cmd (world s))\<rparr>));
            tag = d_DeliveryTag (Delivery m)
        in Acknowledge E m s = call (AckCmd tag False) \<and>
           Nack E requeue m s = call (NackCmd tag False requeue) \<and>
           Reject E requeue m s = call (RejectCmd tag requeue))"
  using ack.settled [of E m s] nack.settled [of E requeue m s] reject.settled [of E requeue m s]
  by (cases "if IsAckable m then d_Acknowledger (Delivery m) else None") (simp_all only: option.case Let_def simp_thms)

text \<open>
  Headers given to \<open>WithHeaders\<close> are merged into the letter's headers, the given ones winning; on
  a nil header map (an option may have put one there) a non-empty argument panics.
\<close>

theorem WithHeaders_merges:
  assumes "distinct (map fst h)"
  shows "WithHeaders h o' = (case Headers o' of
     Some hs \<Rightarrow> Return (o'\<lparr>Headers := Some (hs ++ map_of h)\<rparr>)
   | None \<Rightarrow> if h = [] then Return o' else Panicked AssignToNilMap)"
proof (cases "Headers o'")
  case None
  then show ?thesis by (cases h) auto
next
  case (Some hs)
  moreover have "map_of (rev h) = map_of h"
    using assms by (subst map_of_inject_set) (simp_all add: rev_map [symmetric])
  ultimately show ?thesis by (simp add: WithHeaders_merge)
qed

text \<open>
  C37: the publish date of a received message is RFC 3339 text in UTC only if the broker's timestamp
  already was: \<open>UtcTimestampFromTime\<close>, unlike \<open>UtcTimestamp\<close>, does not convert. The two agree exactly
  on times with offset zero.
\<close>

theorem publish_date_zone:
  "(PublishDate (NewReceivedMessage b d) = UtcTimestamp (d_Timestamp d)) \<longleftrightarrow> zone_offset (d_Timestamp d) = 0"
proof
  assume eq: "PublishDate (NewReceivedMessage b d) = UtcTimestamp (d_Timestamp d)"
  have "last (UtcTimestamp (d_Timestamp d)) = CHR ''Z''"
    unfolding UtcTimestamp_def last_Format by (simp add: UTC_def)
  then have "last (Format_RFC3339 (d_Timestamp d)) = CHR ''Z''"
    using eq by (simp add: NewReceivedMessage_def UtcTimestampFromTime_def)
  then show "zone_offset (d_Timestamp d) = 0" by (simp add: last_Format)
qed (simp add: NewReceivedMessage_def UtcTimestamp_def UtcTimestampFromTime_def UTC_id)

subsection \<open>Instances\<close>

definition mail0 :: "(broker, qitem list) letter_st" where
  "mail0 = \<lparr>world = calm, connHosts = [], chanHosts = [], pool = newPool [] (make_chan 0) cfg1 None None, letterHeap = []\<rparr>"

definition zeros_of :: "broker \<Rightarrow> random_reader \<times> broker" where
  "zeros_of w = (zeros, w)"


theorem NewLetter_readable_witness:
  "\<exists>t l. NewLetter scripted plain_lib zeros_of ''ex'' ''key'' (BytesInput [9])
      [WithEncryptionConfig (Some aesConf)] mail0 = Some (Return (Inr l), t) \<and>
    ReadPayload plain_lib None (Some aesConf) (Body (letterHeap t ! l)) = (None, [9])"
proof -
  let ?o = "(defaultOpts ''ex'' ''key'')\<lparr>EConf := Some aesConf\<rparr>"
  have "\<exists>t l. NewLetter scripted plain_lib zeros_of ''ex'' ''key'' (BytesInput [9])
      [WithEncryptionConfig (Some aesConf)] mail0 = Some (Return (Inr l), t) \<and>
    ReadPayload plain_lib (CConf ?o) (EConf ?o) (Body (letterHeap t ! l)) = (None, [9])"
    by (rule NewLetter_readable)
      (simp_all add: plain_lib_def framed_law tagging_aead zeros_law zeros_of_def zeros_def WithEncryptionConfig_def
        aesConf_def)
  then show ?thesis by (simp add: defaultOpts_def)
qed

theorem WithHeaders_merges_witness:
  "WithHeaders [(''a'', GInt 1), (''b'', GBool True)] (defaultOpts ''ex'' ''key'') =
     Return ((defaultOpts ''ex'' ''key'')\<lparr>Headers := Some [''b'' \<mapsto> GBool True, ''a'' \<mapsto> GInt 1]\<rparr>)"
  using WithHeaders_merges [of "[(''a'', GInt 1), (''b'', GBool True)]" "defaultOpts ''ex'' ''key''"]
  by (simp add: defaultOpts_def)

end
