(* ===== verification/FR_PoolFrame.thy ===== *)
theory FR_PoolFrame
  imports FR_PoolSafety
begin

section \<open>What the pool leaves alone\<close>

text \<open>
  \<open>within R m\<close>: however \<open>m\<close> stops, its start and its end are related by \<open>R\<close>. For a relation that is
  reflexive and transitive this is closed under everything the program is composed with, loops
  included. Two relations are used: that the state of the components above the pool is the same, and
  that of the pool only what belongs to given channels has changed.
\<close>

definition within :: "('s \<Rightarrow> 's \<Rightarrow> bool) \<Rightarrow> ('s, 'a) go \<Rightarrow> bool" where
  "within R m \<longleftrightarrow> (\<forall>s r t. m s = Some (r, t) \<longrightarrow> R s t)"

lemma withinD: "within R m \<Longrightarrow> m s = Some (r, t) \<Longrightarrow> R s t"
  by (simp add: within_def)

lemma within_wlp: "within R m \<longleftrightarrow> (\<forall>s. wlp m (\<lambda>_ t. R s t) (\<lambda>_ t. R s t) s)"
proof -
  have "settles (\<lambda>_ t. P t) (\<lambda>_ t. P t) (r, t) = P t" for P :: "'a \<Rightarrow> bool" and r :: "'b result" and t
    by (cases r) simp_all
  then show ?thesis by (auto simp: within_def wlp_iff)
qed

locale state_frame =
  fixes R :: "'s \<Rightarrow> 's \<Rightarrow> bool"
  assumes frame_refl: "R s s"
    and frame_trans: "R s t \<Longrightarrow> R t u \<Longrightarrow> R s u"
begin

lemma within_bind:
  assumes "within R m" "\<And>a. within R (f a)"
  shows "within R (bind_go m f)"
  unfolding within_def bind_go_def
proof (intro allI impI)
  fix s r t
  assume run: "(case m s of None \<Rightarrow> None | Some (Return a, s') \<Rightarrow> f a s' | Some (Panicked p, s') \<Rightarrow> Some (Panicked p, s')
    | Some (Blocked, s') \<Rightarrow> Some (Blocked, s')) = Some (r, t)"
  then obtain q u where mu: "m s = Some (q, u)" by (auto split: option.splits)
  have "R s u" by (rule withinD [OF assms(1) mu])
  moreover have "R u t \<or> t = u"
    using run mu withinD [OF assms(2)] by (auto split: result.splits)
  ultimately show "R s t" using frame_trans by blast
qed

lemma within_prims:
  "within R (ret a)" "within R (gets_go f)" "within R (panic_go p)" "within R block_go"
  by (auto simp: within_def go_prims frame_refl)

lemma within_if: "within R m \<Longrightarrow> within R n \<Longrightarrow> within R (if b then m else n)"
  by simp

lemma within_case_sum: "(\<And>a. within R (f a)) \<Longrightarrow> (\<And>b. within R (g b)) \<Longrightarrow> within R (case x of Inl a \<Rightarrow> f a | Inr b \<Rightarrow> g b)"
  by (simp split: sum.splits)

lemma within_case_option: "within R m \<Longrightarrow> (\<And>b. within R (g b)) \<Longrightarrow> within R (case x of None \<Rightarrow> m | Some b \<Rightarrow> g b)"
  by (simp split: option.splits)

lemma within_case_received:
  "(\<And>a. within R (f a)) \<Longrightarrow> within R m \<Longrightarrow> within R n \<Longrightarrow>
     within R (case x of Received a \<Rightarrow> f a | ZeroValue \<Rightarrow> m | WouldBlock \<Rightarrow> n)"
  by (simp split: received.splits)

lemma within_case_result:
  "(\<And>a. within R (f a)) \<Longrightarrow> (\<And>p. within R (g p)) \<Longrightarrow> within R n \<Longrightarrow>
     within R (case x of Return a \<Rightarrow> f a | Panicked p \<Rightarrow> g p | Blocked \<Rightarrow> n)"
  by (simp split: result.splits)

lemma within_case_prod: "(\<And>a b. within R (f a b)) \<Longrightarrow> within R (case x of (a, b) \<Rightarrow> f a b)"
  by (simp split: prod.splits)

lemma within_case_list: "within R m \<Longrightarrow> (\<And>y ys. within R (g y ys)) \<Longrightarrow> within R (case x of [] \<Rightarrow> m | y # ys \<Rightarrow> g y ys)"
  by (simp split: list.splits)

lemma within_case_qitem: "(\<And>h. within R (f h)) \<Longrightarrow> within R m \<Longrightarrow> within R (case x of QConnHost h \<Rightarrow> f h | QOther \<Rightarrow> m)"
  by (simp split: qitem.splits)

lemma within_recover: "within R m \<Longrightarrow> within R (recover_go m)"
  unfolding within_def recover_go_def by (fastforce split: option.splits result.splits)

lemma within_defer:
  assumes "within R d" "within R m"
  shows "within R (defer_go d m)"
  unfolding within_def
proof (intro allI impI)
  fix s r t
  assume run: "defer_go d m s = Some (r, t)"
  then obtain q u where mu: "m s = Some (q, u)" by (auto simp: defer_go_def split: option.splits)
  have "R s u" by (rule withinD [OF assms(2) mu])
  moreover have "R u t \<or> t = u"
    using run mu withinD [OF assms(1)] by (auto simp: defer_go_def split: option.splits result.splits)
  ultimately show "R s t" using frame_trans by blast
qed

lemma within_forever:
  assumes "within R body"
  shows "within R (forever body)"
  unfolding within_wlp
proof
  fix s
  show "wlp (forever body) (\<lambda>_ t. R s t) (\<lambda>_ t. R s t) s"
  proof (rule wlp_forever [where I = "R s"])
    fix t assume t: "R s t"
    have "wlp body (\<lambda>_ u. R t u) (\<lambda>_ u. R t u) t" using assms by (simp add: within_wlp)
    then show "wlp body (\<lambda>c u. case c of None \<Rightarrow> R s u | Some a \<Rightarrow> R s u) (\<lambda>_ u. R s u) t"
      by (rule wlp_mono) (use frame_trans [OF t] in \<open>auto split: option.splits\<close>)
  qed (rule frame_refl)
qed

lemmas within_composed = within_bind within_prims within_if within_case_sum within_case_option within_case_received
  within_case_result within_case_prod within_case_list within_case_qitem within_recover within_defer within_forever

end

subsection \<open>The state of other components\<close>

text \<open>
  The components that use the pool keep their own state beside it. \<open>keeps m\<close>: however \<open>m\<close> stops, the
  part of the state that is not the pool's is as before. Every operation of the pool keeps it.
\<close>

named_theorems keeps_rules \<open>composition of state-keeping code\<close>

definition same_more :: "('w, 'q, 'x) pool_st_scheme \<Rightarrow> ('w, 'q, 'x) pool_st_scheme \<Rightarrow> bool" where
  "same_more s t \<longleftrightarrow> pool_st.more t = pool_st.more s"

abbreviation keeps :: "(('w, 'q, 'x) pool_st_scheme, 'a) go \<Rightarrow> bool" where
  "keeps m \<equiv> within same_more m"

interpretation kept: state_frame same_more
  by unfold_locales (simp_all add: same_more_def)

lemmas kept_composed [keeps_rules] = kept.within_composed

lemma keeps_iff: "keeps m \<longleftrightarrow> (\<forall>s r t. m s = Some (r, t) \<longrightarrow> pool_st.more t = pool_st.more s)"
  by (simp add: within_def same_more_def)

lemma keepsI: "(\<And>s r t. m s = Some (r, t) \<Longrightarrow> pool_st.more t = pool_st.more s) \<Longrightarrow> keeps m"
  by (simp add: keeps_iff)

lemma keepsD: "keeps m \<Longrightarrow> m s = Some (r, t) \<Longrightarrow> pool_st.more t = pool_st.more s"
  by (simp add: keeps_iff)

lemma keeps_wlp:
  "keeps m \<longleftrightarrow> (\<forall>s. wlp m (\<lambda>_ t. pool_st.more t = pool_st.more s) (\<lambda>_ t. pool_st.more t = pool_st.more s) s)"
  by (simp add: within_wlp same_more_def)

lemma keeps_prims [keeps_rules]:
  "keeps (env_call g)" "keeps (env_do k)"
  "keeps (upd_pool h)" "keeps (host_at i)" "keeps (chan_at i)" "keeps (upd_host i u)" "keeps (upd_chan i v)"
  by (auto simp: keeps_iff go_prims env_call_def env_do_def upd_pool_def host_at_def chan_at_def upd_host_def
      upd_chan_def split: if_splits)

lemma keeps_fields [keeps_rules]:
  "keeps (recv_field get_channels put_channels)" "keeps (send_field get_channels put_channels c)"
  by (auto simp: keeps_iff recv_field_def send_field_def get_channels_def put_channels_def
      split: result.splits prod.splits)

text \<open>The operations.\<close>

lemmas pool_leaf_defs = poll_Errors_def poll_Blockers_def isConnected_def hostTLS_def createTLSConfig_def
  sleep_if_positive_def call_handler_def host_conn_def chan_ptr_def confirmMode_def

lemma keeps_leaves [keeps_rules]:
  "keeps (poll_Errors E h)" "keeps (poll_Blockers E h)" "keeps (isConnected E h)" "keeps (hostTLS E ch)"
  "keeps (sleep_if_positive E d)" "keeps (call_handler eh e)" "keeps (host_conn h)" "keeps (chan_ptr c)"
  "keeps (confirmMode E c)"
  unfolding pool_leaf_defs by (intro keeps_rules)+

lemma keeps_hosts [keeps_rules]:
  "keeps (ConnectWithErrorHandler E eh h)" "keeps (PauseOnFlowControl E h)" "keeps (MakeChannel E c)"
  "keeps (ChannelHost_Close E c)"
  unfolding ConnectWithErrorHandler_def PauseOnFlowControl_def pauseRound_def MakeChannel_def ChannelHost_Close_def
  by (intro keeps_rules)+

lemma keeps_alloc [keeps_rules]:
  "keeps (modify_go (\<lambda>s. s\<lparr>connHosts := f s\<rparr>))" "keeps (modify_go (\<lambda>s. s\<lparr>chanHosts := g s\<rparr>))"
  by (simp_all add: keeps_iff modify_go_def)

lemma keeps_pool [keeps_rules]:
  "keeps (handleError E err)" "keeps (unflagConnection i)" "keeps (flagConnection i)" "keeps (isConnectionFlagged i)"
  "keeps (reportUnhealthy r)" "keeps (needsRecovery E h b)" "keeps (NewChannelHost E h i j a tr)"
  "keeps (getConnectionFromPool K)" "keeps (putConnection K h)"
  unfolding handleError_def unflagConnection_def flagConnection_def isConnectionFlagged_def reportUnhealthy_def
    needsRecovery_def NewChannelHost_def getConnectionFromPool_def putConnection_def
  by (intro keeps_rules)+

lemma keeps_verify [keeps_rules]:
  "keeps (triggerConnectionRecovery E h)" "keeps (verifyHealthyConnection E h)"
  unfolding triggerConnectionRecovery_def recoverRound_def flushErrorsRound_def verifyHealthyConnection_def
  by (intro keeps_rules)+

lemma keeps_calls [keeps_rules]:
  "keeps (GetConnection E K)" "keeps (ReturnConnection K h fl)" "keeps (createCacheChannel E K i b)"
  "keeps (GetTransientChannel E K b)" "keeps GetChannelFromPool" "keeps (ReturnChannel E c erred)"
  unfolding GetConnection_def ReturnConnection_def createCacheChannel_def createChannelRound_def
    GetTransientChannel_def GetChannelFromPool_def ReturnChannel_def reconnectChannel_def reconnectRound_def
  by (intro keeps_rules)+

lemma keeps_closeItems [keeps_rules]: "keeps (closeItems E xs)"
proof (induction xs)
  case (Cons x xs)
  then show ?case by (cases x) (auto simp: closeHost_def intro!: keeps_rules)
qed (simp add: keeps_rules)

lemma keeps_Shutdown [keeps_rules]: "keeps (ConnectionPool_Shutdown E K b)"
  unfolding ConnectionPool_Shutdown_def flushChannelsRound_def drainRound_def newQueue_def
  by (intro keeps_rules)

subsection \<open>Channels that are ready for use\<close>

text \<open>
  A stronger invariant for one client that returns each channel it took, once: the cache holds no
  channel twice and every cached channel host has a channel. \<open>cache_kept s t\<close>: the cache is the same
  and the channel hosts that existed are as they were.
\<close>

definition cacheBuf :: "('w, 'q, 'x) pool_st_scheme \<Rightarrow> nat list" where
  "cacheBuf s = ch_buf (channels (pool s))"

definition cache_ready :: "('w, 'q, 'x) pool_st_scheme \<Rightarrow> bool" where
  "cache_ready s \<longleftrightarrow> distinct (cacheBuf s) \<and> (\<forall>c \<in> set (cacheBuf s). Channel (chanHosts s ! c) \<noteq> None)"

definition cache_kept :: "('w, 'q, 'x) pool_st_scheme \<Rightarrow> ('w, 'q, 'x) pool_st_scheme \<Rightarrow> bool" where
  "cache_kept s t \<longleftrightarrow> channels (pool t) = channels (pool s) \<and>
     (\<forall>c < length (chanHosts s). c < length (chanHosts t) \<and> chanHosts t ! c = chanHosts s ! c)"

lemma cache_kept_refl [simp]: "cache_kept s s"
  by (simp add: cache_kept_def)

lemma cache_kept_trans: "cache_kept s t \<Longrightarrow> cache_kept t u \<Longrightarrow> cache_kept s u"
  by (auto simp: cache_kept_def)

lemma pool_step_cache: "pool_step s t \<Longrightarrow> cache_kept s t"
  unfolding pool_step_def cache_kept_def
  by (metis ConnectionPool.select_convs(6) ConnectionPool.surjective ConnectionPool.update_convs(8))

lemma cache_kept_ready: "pool_inv items s \<Longrightarrow> cache_ready s \<Longrightarrow> cache_kept s t \<Longrightarrow> cache_ready t"
  by (auto simp: cache_ready_def cache_kept_def cacheBuf_def pool_inv_def)

lemma NewChannelHost_kept:
  assumes "channel_law E" "conn_live s h"
  shows "wp (NewChannelHost E h cid kid ack tr) (\<lambda>r t. cache_kept s t \<and>
    (\<forall>c. r = Inr c \<longrightarrow> Channel (chanHosts t ! c) \<noteq> None)) s"
  using assms
  by (auto simp: NewChannelHost_def MakeChannel_def confirmMode_def wp_simps cache_kept_def channel_law_def
      conn_live_def nth_append split: option.splits)

lemma GetConnection_kept:
  assumes "fifo_queue K items" "pool_inv items s"
  shows "wlp (GetConnection E K) (\<lambda>r t. cache_kept s t) (\<lambda>_ t. cache_kept s t) s"
proof (cases "items (connections (pool s))")
  case Nil
  with assms show ?thesis
    by (simp add: GetConnection_def getConnectionFromPool_def wp_simps fifo_get_empty)
next
  case (Cons x xs)
  obtain q where q: "qGet K 1 (connections (pool s)) = Return (Inr [x], q)"
    using fifo_get_one [OF assms(1) Cons] by blast
  obtain h where h: "x = QConnHost h" "conn_live s h"
    using assms(2) Cons by (auto simp: pool_inv_def)
  let ?s = "s\<lparr>pool := (pool s)\<lparr>connections := q\<rparr>\<rparr>"
  have "wlp (verifyHealthyConnection E h) (\<lambda>_ t. cache_kept s t) (\<lambda>_ t. cache_kept s t) ?s"
    by (rule wlp_mono [OF verifyHealthyConnection_wlp])
      (use h in \<open>auto simp: conn_live_def cache_kept_def dest!: pool_step_cache\<close>)
  with q h show ?thesis
    by (simp add: GetConnection_def getConnectionFromPool_def wp_simps)
qed

lemma ReturnConnection_kept:
  "h < length (connHosts s) \<Longrightarrow> wp (ReturnConnection K h fl) (\<lambda>_ t. cache_kept s t) s"
  by (simp add: ReturnConnection_def flagConnection_def putConnection_def wp_simps cache_kept_def)

text \<open>\<open>safe\<close> code that also keeps the cache.\<close>

lemma safe_conj:
  "safe items m Q s \<Longrightarrow> wlp m R (\<lambda>_ _. True) s \<Longrightarrow> safe items m (\<lambda>a t. Q a t \<and> R a t) s"
  unfolding safe_def by (drule (1) wlp_conj) (erule wlp_mono, auto)

definition opened :: "('w, 'q, 'x) pool_st_scheme \<Rightarrow> nat \<Rightarrow> bool" where
  "opened s c \<longleftrightarrow> c < length (chanHosts s) \<and> Channel (chanHosts s ! c) \<noteq> None"

lemma opened_kept: "opened s c \<Longrightarrow> cache_kept s t \<Longrightarrow> opened t c"
  by (auto simp: opened_def cache_kept_def)

lemma createChannelRound_kept:
  assumes "fifo_queue K items" "channel_law E" "pool_inv items s"
  shows "safe items (createChannelRound E K cid b) (\<lambda>r t. cache_kept s t \<and> (\<forall>c. r = Some c \<longrightarrow> opened t c)) s"
  unfolding createChannelRound_def
proof (rule safe_seq [OF safe_conj [OF GetConnection_safe [OF assms(1,3)],
        OF wlp_mono [OF GetConnection_kept [OF assms(1,3)]]]], assumption, simp, elim conjE exE, goal_cases)
  case (1 r t h)
  note h = \<open>conn_live t h\<close>
  let ?Q = "\<lambda>r t. cache_kept s t \<and> (\<forall>c. r = Some c \<longrightarrow> opened t c)"
  have host: "safe items (host_at h) (\<lambda>_ u. u = t) t"
    using 1(1) h by (auto simp: safe_def wp_simps live_length)
  have new: "safe items (NewChannelHost E h cid kid True b) (\<lambda>r u. conn_live u h \<and> cache_kept t u \<and>
      (\<forall>c. r = Inr c \<longrightarrow> opened u c)) t" for kid
    by (rule safe_mono [OF safe_conj [OF NewChannelHost_safe [OF assms(2) 1(1) h],
          OF wp_imp_wlp [OF NewChannelHost_kept [OF assms(2) h]]]]) (auto simp: opened_def)
  have fin: "safe items (bind_go (ReturnConnection K h fl) (\<lambda>_. ret res)) ?Q v"
    if v: "pool_inv items v" "conn_live v h" "cache_kept s v" "\<And>c. res = Some c \<Longrightarrow> opened v c" for fl v res
    by (rule safe_seq [OF safe_conj [OF ReturnConnection_safe [OF assms(1) v(1,2)],
          OF wp_imp_wlp [OF ReturnConnection_kept [OF live_length [OF v(2)]]]]])
      (use v(3,4) in \<open>auto intro: cache_kept_trans opened_kept\<close>)
  have err: "safe items (bind_go (handleError E e) (\<lambda>_. bind_go (ReturnConnection K h True) (\<lambda>_. ret None))) ?Q v"
    if v: "pool_inv items v" "conn_live v h" "cache_kept s v" for e v
    by (rule safe_seq [OF handleError_safe [OF v(1), where Q = "\<lambda>_ u. conn_live u h \<and> cache_kept s u"]])
      (use v in \<open>auto intro!: fin intro: pool_step_live cache_kept_trans pool_step_cache\<close>)
  show ?case
    unfolding \<open>r = Inr h\<close> sum.case
    by (rule safe_seq [OF host], simp, rule safe_seq [OF new])
      (use 1 in \<open>auto split: sum.splits intro!: err fin intro: cache_kept_trans\<close>)
qed

lemma createCacheChannel_kept:
  assumes "fifo_queue K items" "channel_law E" "pool_inv items s"
  shows "safe items (createCacheChannel E K cid b) (\<lambda>c t. cache_kept s t \<and> opened t c) s"
  unfolding createCacheChannel_def
  by (rule safe_forever [where I = "cache_kept s"], rule assms(3), simp,
      rule safe_mono [OF createChannelRound_kept [OF assms(1,2)]])
    (auto split: option.splits intro: cache_kept_trans)

text \<open>Taking a channel from a ready cache that is not empty.\<close>

lemma GetChannel_ready:
  assumes "pool_inv items s" "cache_ready s" "cacheBuf s = c # buf"
  shows "wp GetChannelFromPool (\<lambda>r t. r = c \<and> pool_inv items t \<and> cache_ready t \<and> cacheBuf t = buf \<and>
     c \<notin> set buf \<and> opened t c \<and> managed t c \<and> ch_cap (channels (pool t)) = ch_cap (channels (pool s)) \<and>
     length buf < ch_cap (channels (pool t))) s"
  using assms
  by (auto simp: GetChannelFromPool_def wp_simps get_channels_def put_channels_def cacheBuf_def cache_ready_def
      pool_inv_def managed_def opened_def heap_ok_def conn_live_def chan_ok_def)

text \<open>Returning it: the channel host is the only one that may change, and it ends up with a channel.\<close>

lemma MakeChannel_local:
  assumes "channel_law E" "c < length (chanHosts s)" "conn_live s (connHost (chanHosts s ! c))"
  shows "wp (MakeChannel E c) (\<lambda>e t. (\<forall>d. d \<noteq> c \<longrightarrow> chanHosts t ! d = chanHosts s ! d) \<and> pool t = pool s) s"
  using assms
  by (auto simp: MakeChannel_def confirmMode_def wp_simps channel_law_def split: option.splits)

definition others_kept :: "nat \<Rightarrow> ('w, 'q, 'x) pool_st_scheme \<Rightarrow> ('w, 'q, 'x) pool_st_scheme \<Rightarrow> bool" where
  "others_kept c s t \<longleftrightarrow> channels (pool t) = channels (pool s) \<and> Config (pool t) = Config (pool s) \<and>
     (\<forall>d. d \<noteq> c \<longrightarrow> chanHosts t ! d = chanHosts s ! d)"

lemma pool_step_config: "pool_step s t \<Longrightarrow> Config (pool t) = Config (pool s)"
  unfolding pool_step_def by (metis ConnectionPool.select_convs(1) ConnectionPool.surjective ConnectionPool.update_convs(8))

lemma pool_step_others: "pool_step s t \<Longrightarrow> others_kept c s t"
  using pool_step_cache [of s t] pool_step_config [of s t]
  by (simp only: others_kept_def cache_kept_def) (simp only: pool_step_def, simp)

lemma others_kept_trans: "others_kept c s t \<Longrightarrow> others_kept c t u \<Longrightarrow> others_kept c s u"
  by (simp add: others_kept_def)

lemma MakeChannel_again:
  assumes "channel_law E" "pool_inv items s" "c < length (chanHosts s)"
  shows "safe items (MakeChannel E c) (\<lambda>e t. others_kept c s t \<and> (e = None \<longrightarrow> opened t c)) s"
proof -
  have live: "conn_live s (connHost (chanHosts s ! c))"
    using assms by (simp add: pool_inv_def heap_ok_def)
  have "wp (MakeChannel E c) (\<lambda>e t. others_kept c s t \<and> (e = None \<longrightarrow> opened t c)) s"
    by (rule wp_mono [OF wp_conj [OF MakeChannel_wp [OF assms(1,3) live],
          OF wp_imp_wlp [OF MakeChannel_local [OF assms(1,3) live]]]])
      (use assms(3) in \<open>auto simp: others_kept_def opened_def\<close>)
  then show ?thesis
    using safe_conj [OF MakeChannel_safe [OF assms]] by (blast intro: safe_mono wp_imp_wlp)
qed

lemma reconnectRound_sure:
  assumes "channel_law E" "pool_inv items s" "c < length (chanHosts s)"
  shows "wlp (reconnectRound E c) (\<lambda>r t. pool_inv items t \<and> heap_ext s t \<and> others_kept c s t \<and>
     (r \<noteq> None \<longrightarrow> opened t c)) (\<lambda>_ _. False) s"
proof -
  let ?h = "connHost (chanHosts s ! c)"
  have live: "conn_live s ?h" using assms by (simp add: pool_inv_def heap_ok_def)
  have make: "wlp (bind_go (MakeChannel E c) (\<lambda>e. case e of
       Some err \<Rightarrow> bind_go (handleError E err) (\<lambda>_. ret None) | None \<Rightarrow> ret (Some ())))
     (\<lambda>r u. pool_inv items u \<and> heap_ext s u \<and> others_kept c s u \<and> (r \<noteq> None \<longrightarrow> opened u c)) (\<lambda>_ _. False) t"
    if t: "pool_step s t" for t
  proof -
    have c: "c < length (chanHosts t)" and inv: "pool_inv items t"
      using t assms(3) pool_step_inv [OF assms(2) t] by (simp_all add: pool_step_def)
    have st: "heap_ext s t" "others_kept c s t"
      using t by (simp_all add: pool_step_heap pool_step_others)
    have live: "conn_live t (connHost (chanHosts t ! c))"
      using c inv by (simp add: pool_inv_def heap_ok_def)
    have "wp (MakeChannel E c) (\<lambda>e u. True) t"
      by (rule wp_mono [OF MakeChannel_wp [OF assms(1) c live]]) simp
    from wp_conj [OF this MakeChannel_again [OF assms(1) inv c, unfolded safe_def]]
    have "wlp (MakeChannel E c) (\<lambda>e u. pool_inv items u \<and> heap_ext t u \<and> others_kept c t u \<and>
        (e = None \<longrightarrow> opened u c)) (\<lambda>_ _. False) t"
      by (intro wp_imp_wlp) (erule wp_mono, auto)
    then show ?thesis
      by (rule wlp_seq)
        (use st in \<open>auto simp: wp_simps handleError_def split: option.splits
          intro: heap_ext_trans others_kept_trans simp: others_kept_def\<close>)
  qed
  have "wlp (verifyHealthyConnection E ?h) (\<lambda>_ t. pool_step s t) (\<lambda>_ _. False) s"
    by (rule verifyHealthyConnection_wlp [OF live])
  from wlp_seq [OF this make] show ?thesis
    unfolding reconnectRound_def using assms(3) by (simp add: wlp_bind wlp_chan_at)
qed

lemma reconnectChannel_sure:
  assumes "channel_law E" "pool_inv items s" "c < length (chanHosts s)"
  shows "wlp (reconnectChannel E c) (\<lambda>_ t. pool_inv items t \<and> heap_ext s t \<and> others_kept c s t \<and> opened t c)
    (\<lambda>_ _. False) s"
  unfolding reconnectChannel_def
proof (rule wlp_forever [where I = "\<lambda>t. pool_inv items t \<and> heap_ext s t \<and> others_kept c s t"])
  fix t assume t: "pool_inv items t \<and> heap_ext s t \<and> others_kept c s t"
  then have c: "c < length (chanHosts t)" using assms(3) heap_ext_length by blast
  show "wlp (reconnectRound E c) (\<lambda>r u. case r of
      None \<Rightarrow> pool_inv items u \<and> heap_ext s u \<and> others_kept c s u
    | Some a \<Rightarrow> pool_inv items u \<and> heap_ext s u \<and> others_kept c s u \<and> opened u c) (\<lambda>_ _. False) t"
    by (rule wlp_mono [OF reconnectRound_sure [OF assms(1) _ c]])
      (use t in \<open>auto split: option.splits intro: heap_ext_trans others_kept_trans\<close>)
qed (use assms in \<open>simp add: others_kept_def\<close>)

text \<open>What a return leaves alone: settings, other channels, the identity of hosts; the channel is open.\<close>

definition returned :: "nat \<Rightarrow> ('w, 'q, 'x) pool_st_scheme \<Rightarrow> ('w, 'q, 'x) pool_st_scheme \<Rightarrow> bool" where
  "returned c s t \<longleftrightarrow> heap_ext s t \<and> opened t c \<and> Config (pool t) = Config (pool s) \<and>
     (\<forall>d. d \<noteq> c \<longrightarrow> chanHosts t ! d = chanHosts s ! d)"

text \<open>
  A client that took a managed channel returns it: with room in the cache the call neither panics
  nor parks, and if it returns the channel is the last of a ready cache.
\<close>

lemma ReturnChannel_ready:
  assumes "channel_law E" "pool_inv items s" "cache_ready s" "managed s c" "opened s c" "c \<notin> set (cacheBuf s)"
    and "length (cacheBuf s) < ch_cap (channels (pool s))"
  shows "wlp (ReturnChannel E c erred) (\<lambda>_ t. pool_inv items t \<and> cache_ready t \<and> cacheBuf t = cacheBuf s @ [c] \<and>
     ch_cap (channels (pool t)) = ch_cap (channels (pool s)) \<and> returned c s t) (\<lambda>_ _. False) s"
proof -
  have c: "c < length (chanHosts s)" "transient (chanHosts s ! c)"
    using assms(4) by (simp_all add: managed_def)
  have send: "wlp (send_field get_channels put_channels c) (\<lambda>_ t. pool_inv items t \<and> cache_ready t \<and>
      cacheBuf t = cacheBuf s @ [c] \<and> ch_cap (channels (pool t)) = ch_cap (channels (pool s)) \<and> returned c s t)
      (\<lambda>_ _. False) t"
    if t: "pool_inv items t" "heap_ext s t" "others_kept c s t" "opened t c" for t
  proof -
    have "managed t c" by (rule managed_ext [OF assms(4) t(2)])
    moreover have "\<forall>d \<in> set (cacheBuf s). chanHosts t ! d = chanHosts s ! d"
      using t(3) assms(6) by (auto simp: others_kept_def)
    ultimately show ?thesis
      using t assms(2,3,6,7)
      by (auto simp: wp_simps get_channels_def put_channels_def chan_send_def pool_inv_def cache_ready_def returned_def
          cacheBuf_def others_kept_def opened_def managed_def heap_ok_def conn_live_def chan_ok_def)
  qed
  have rec: "wlp (if erred then reconnectChannel E c else ret ())
      (\<lambda>_ t. pool_inv items t \<and> heap_ext s t \<and> others_kept c s t \<and> opened t c) (\<lambda>_ _. False) s"
    using reconnectChannel_sure [OF assms(1,2) c(1)] assms(2,5)
    by (simp add: wp_simps others_kept_def)
  have "wlp (bind_go (if erred then reconnectChannel E c else ret ()) (\<lambda>_. send_field get_channels put_channels c))
      (\<lambda>_ t. pool_inv items t \<and> cache_ready t \<and> cacheBuf t = cacheBuf s @ [c] \<and>
         ch_cap (channels (pool t)) = ch_cap (channels (pool s)) \<and> returned c s t) (\<lambda>_ _. False) s"
    by (rule wlp_seq [OF rec]) (use send in blast)
  then show ?thesis
    using c by (simp add: ReturnChannel_def wlp_bind wlp_chan_at)
qed

subsection \<open>Channels and their connections\<close>

text \<open>
  \<open>touches H C s t\<close>: all that has changed of the pool and its hosts from \<open>s\<close> to \<open>t\<close> are the AMQP channel
  and error channel of channel hosts in \<open>C\<close>, the connection and notification channels of connection
  hosts in \<open>H\<close>, cleared flags of hosts in \<open>H\<close>, and the order of the cache. The queue of connections,
  the counters, the configuration and the handlers are the same.
\<close>

definition hostIDs :: "nat set \<Rightarrow> ('w, 'x) conn_st_scheme \<Rightarrow> uint64 set" where
  "hostIDs H s = {i. \<exists>h \<in> H. h < length (connHosts s) \<and> i = ConnectionID (connHosts s ! h)}"

definition touches :: "nat set \<Rightarrow> nat set \<Rightarrow> ('w, 'q, 'x) pool_st_scheme \<Rightarrow> ('w, 'q, 'x) pool_st_scheme \<Rightarrow> bool" where
  "touches H C s t \<longleftrightarrow>
     map host_static (connHosts t) = map host_static (connHosts s) \<and>
     (\<forall>h. h \<notin> H \<longrightarrow> connHosts t ! h = connHosts s ! h) \<and>
     map chan_static (chanHosts t) = map chan_static (chanHosts s) \<and>
     (\<forall>c. c \<notin> C \<longrightarrow> chanHosts t ! c = chanHosts s ! c) \<and>
     pool t = (pool s)\<lparr>channels := channels (pool t), flaggedConnections := flaggedConnections (pool t)\<rparr> \<and>
     (\<forall>i. flaggedConnections (pool t) i = flaggedConnections (pool s) i \<or>
        i \<in> hostIDs H s \<and> flaggedConnections (pool t) i = Some False)"

text \<open>The cached channels are in \<open>C\<close> and the channels of \<open>C\<close> have their connections in \<open>H\<close>.\<close>

definition covers :: "nat set \<Rightarrow> nat set \<Rightarrow> ('w, 'q, 'x) pool_st_scheme \<Rightarrow> bool" where
  "covers H C s \<longleftrightarrow> set (cacheBuf s) \<subseteq> C \<and>
     (\<forall>c \<in> C. c < length (chanHosts s) \<longrightarrow> connHost (chanHosts s ! c) \<in> H)"

definition confined :: "nat set \<Rightarrow> nat set \<Rightarrow> ('w, 'q, 'x) pool_st_scheme \<Rightarrow> ('w, 'q, 'x) pool_st_scheme \<Rightarrow> bool" where
  "confined H C s t \<longleftrightarrow> (covers H C s \<longrightarrow> covers H C t \<and> touches H C s t)"

lemma static_hostIDs:
  assumes "map host_static (connHosts t) = map host_static (connHosts s)"
  shows "hostIDs H t = hostIDs H s"
proof -
  have len: "length (connHosts t) = length (connHosts s)" using assms by (metis length_map)
  moreover have "ConnectionID (connHosts t ! h) = ConnectionID (connHosts s ! h)" if "h < length (connHosts s)" for h
    using that len arg_cong [OF assms, of "\<lambda>xs. xs ! h"] by (simp add: host_static_def)
  ultimately show ?thesis by (auto simp: hostIDs_def)
qed

lemma touches_refl: "touches H C s s"
  by (simp add: touches_def)

lemma touches_trans:
  assumes "touches H C s t" "touches H C t u"
  shows "touches H C s u"
proof -
  have st: "map host_static (connHosts t) = map host_static (connHosts s)" using assms(1) by (simp add: touches_def)
  have pool: "pool u = (pool s)\<lparr>channels := channels (pool u), flaggedConnections := flaggedConnections (pool u)\<rparr>"
    using assms unfolding touches_def
    by (cases "pool s"; cases "pool t"; cases "pool u") simp
  have "flaggedConnections (pool u) i = flaggedConnections (pool s) i \<or>
      i \<in> hostIDs H s \<and> flaggedConnections (pool u) i = Some False" for i
    using assms unfolding touches_def static_hostIDs [OF st] by metis
  with pool show ?thesis using assms by (simp add: touches_def)
qed

interpretation conf: state_frame "confined H C" for H C
  by unfold_locales (auto simp: confined_def touches_refl intro: touches_trans)

named_theorems conf_rules \<open>composition of code confined to given channels\<close>

lemmas conf_composed [conf_rules] = conf.within_composed

lemma conf_world [conf_rules]: "within (confined H C) (env_call g)" "within (confined H C) (env_do k)"
  by (auto simp: within_def env_call_def env_do_def confined_def covers_def cacheBuf_def touches_def)

lemma conf_reads [conf_rules]: "within (confined H C) (host_at h)" "within (confined H C) (chan_at c)"
  by (auto simp: within_def host_at_def chan_at_def conf.frame_refl split: if_splits)

lemma nth_update_out: "i \<in> A \<Longrightarrow> j \<notin> A \<Longrightarrow> xs[i := x] ! j = xs ! j"
  by (metis nth_list_update_neq)

lemma map_update_same: "(\<And>x. f (u x) = f x) \<Longrightarrow> map f (xs[i := u (xs ! i)]) = map f xs"
  by (simp add: map_update) (metis list_update_id map_update)

lemma conf_upd_host [conf_rules]:
  assumes "h \<in> H" "\<And>x. host_static (u x) = host_static x"
  shows "within (confined H C) (upd_host h u)"
  using assms
  by (auto simp: within_def upd_host_def go_prims confined_def covers_def cacheBuf_def touches_def nth_update_out
      map_update_same [of host_static] split: if_splits)

lemma conf_upd_chan [conf_rules]:
  assumes "c \<in> C" "\<And>x. chan_static (u x) = chan_static x"
  shows "within (confined H C) (upd_chan c u)"
proof -
  have "connHost (u x) = connHost x" for x using assms(2) [of x] by (simp add: chan_static_def)
  then have "connHost (xs[c := u (xs ! c)] ! d) = connHost (xs ! d)" if "d < length xs" for xs d
    using that by (cases "d = c") simp_all
  with assms show ?thesis
    by (auto simp: within_def upd_chan_def go_prims confined_def covers_def cacheBuf_def touches_def nth_update_out
        map_update_same [of chan_static] split: if_splits)
qed

text \<open>
  Code that yields values with a property wherever the cache is covered: the host of a channel in \<open>C\<close>
  is in \<open>H\<close>, a channel taken from the cache is in \<open>C\<close>.
\<close>

lemma conf_bind_result:
  assumes "within (confined H C) m" "\<And>s a t. covers H C s \<Longrightarrow> m s = Some (Return a, t) \<Longrightarrow> P a"
    and "\<And>a. P a \<Longrightarrow> within (confined H C) (f a)"
  shows "within (confined H C) (bind_go m f)"
  unfolding within_def
proof (intro allI impI)
  fix s r t
  assume run: "bind_go m f s = Some (r, t)"
  then obtain q u where mu: "m s = Some (q, u)" by (auto simp: bind_go_def split: option.splits)
  have su: "confined H C s u" by (rule withinD [OF assms(1) mu])
  show "confined H C s t"
  proof (cases "covers H C s")
    case True
    have "confined H C u t \<or> t = u"
      using run mu assms(2) [OF True] withinD [OF assms(3)] by (auto simp: bind_go_def split: result.splits)
    with su show ?thesis using conf.frame_trans by blast
  qed (simp add: confined_def)
qed

lemma conf_chan_host:
  assumes "c \<in> C" "\<And>ch. connHost ch \<in> H \<Longrightarrow> within (confined H C) (f ch)"
  shows "within (confined H C) (bind_go (chan_at c) f)"
proof (rule conf_bind_result [where P = "\<lambda>ch. connHost ch \<in> H"])
  fix s a t
  assume "covers H C s" "chan_at c s = Some (Return a, t)"
  with assms(1) show "connHost a \<in> H" by (auto simp: covers_def chan_at_def split: if_splits)
qed (use assms in \<open>auto intro: conf_rules\<close>)

lemma conf_take:
  assumes "\<And>c. c \<in> C \<Longrightarrow> within (confined H C) (f c)"
  shows "within (confined H C) (bind_go GetChannelFromPool f)"
proof (rule conf_bind_result [where P = "\<lambda>c. c \<in> C"])
  have "chan_recv ch = (Received c, ch') \<Longrightarrow> c \<in> set (ch_buf ch)" "chan_recv ch = (r, ch') \<Longrightarrow> set (ch_buf ch') \<subseteq> set (ch_buf ch)"
    for ch ch' :: "nat gochan" and c r
    by (cases ch rule: chan_recv_cases; auto)+
  note recv = this
  have "within (confined H C) (recv_field get_channels put_channels)"
    by (auto simp: within_def recv_field_def get_channels_def put_channels_def confined_def covers_def cacheBuf_def
        touches_def split: prod.splits dest: recv(2))
  then show "within (confined H C) GetChannelFromPool"
    unfolding GetChannelFromPool_def by (intro conf_rules)
  fix s a t
  assume "covers H C s" "GetChannelFromPool s = Some (Return a, t)"
  then show "a \<in> C"
    by (auto simp: GetChannelFromPool_def bind_go_def go_prims recv_field_def get_channels_def covers_def cacheBuf_def
        split: prod.splits received.splits dest: recv(1))
qed (rule assms)

lemma conf_send [conf_rules]:
  "c \<in> C \<Longrightarrow> within (confined H C) (send_field get_channels put_channels c)"
  by (auto simp: within_def send_field_def chan_send_def get_channels_def put_channels_def confined_def covers_def
      cacheBuf_def touches_def split: if_splits)

lemma conf_unflag [conf_rules]:
  assumes "h \<in> H"
  shows "within (confined H C) (bind_go (host_at h) (\<lambda>ch. bind_go (unflagConnection (ConnectionID ch)) (\<lambda>_. ret x)))"
  using assms
  by (auto simp: within_def bind_go_def host_at_def unflagConnection_def upd_pool_def go_prims confined_def covers_def
      cacheBuf_def touches_def hostIDs_def split: if_splits)

text \<open>The operations that a client with a cached channel runs.\<close>

lemma conf_leaves [conf_rules]:
  "within (confined H C) (isConnected E h)" "within (confined H C) (hostTLS E ch)"
  "within (confined H C) (sleep_if_positive E d)" "within (confined H C) (call_handler eh e)"
  "within (confined H C) (host_conn h)" "within (confined H C) (chan_ptr c)" "within (confined H C) (confirmMode E c)"
  "within (confined H C) (handleError E err)" "within (confined H C) (isConnectionFlagged i)"
  "within (confined H C) (reportUnhealthy r)" "within (confined H C) (needsRecovery E h b)"
  "within (confined H C) (ChannelHost_Close E c)"
  unfolding isConnected_def hostTLS_def createTLSConfig_def sleep_if_positive_def call_handler_def host_conn_def
    chan_ptr_def confirmMode_def handleError_def isConnectionFlagged_def reportUnhealthy_def needsRecovery_def
    ChannelHost_Close_def
  by (intro conf_rules)+

lemma conf_host [conf_rules]:
  assumes "h \<in> H"
  shows "within (confined H C) (poll_Errors E h)" "within (confined H C) (poll_Blockers E h)"
    "within (confined H C) (ConnectWithErrorHandler E eh h)"
  unfolding poll_Errors_def poll_Blockers_def ConnectWithErrorHandler_def
  by (intro conf_rules assms; simp add: host_static_def)+

lemma conf_verify [conf_rules]:
  assumes "h \<in> H"
  shows "within (confined H C) (verifyHealthyConnection E h)"
  unfolding verifyHealthyConnection_def triggerConnectionRecovery_def recoverRound_def flushErrorsRound_def
    PauseOnFlowControl_def pauseRound_def
  by (intro conf_rules assms)

lemma conf_MakeChannel [conf_rules]:
  assumes "c \<in> C"
  shows "within (confined H C) (MakeChannel E c)"
  unfolding MakeChannel_def by (intro conf_rules assms; simp add: chan_static_def)

lemma conf_ReturnChannel [conf_rules]:
  assumes "c \<in> C"
  shows "within (confined H C) (ReturnChannel E c erred)"
proof -
  have "within (confined H C) (reconnectRound E c)"
    unfolding reconnectRound_def by (rule conf_chan_host [OF assms]) (intro conf_rules assms)
  then show ?thesis
    unfolding ReturnChannel_def reconnectChannel_def by (intro conf_rules assms)
qed

end
