(* ===== verification/FR_Publisher.thy ===== *)
theory FR_Publisher
  imports FR_Message FR_PoolFrame
begin

section \<open>The publisher (publisher.go)\<close>

text \<open>
  The publisher takes channels from the pool's cache, publishes letters and reports on a receipts
  channel. \<^verbatim>\<open>publishReceipt\<close> starts a goroutine that counts the retry and sends the receipt; the
  receipts channel may be full, and then these goroutines wait: \<open>receiptSenders\<close> holds the receipts
  they carry, in the order in which they started to wait. \<open>stopSenders\<close> counts the goroutines of
  \<^verbatim>\<open>stopAutoPublish\<close> that wait for room in \<^verbatim>\<open>autoStop\<close>. The configuration is shared by pointer
  (\<open>confHeap\<close>). The auto publisher is in its own theory.
\<close>

record Publisher =
  pub_Config :: nat
  letters :: "nat gochan"
  autoStop :: "bool gochan"
  publishReceipts :: "PublishReceipt gochan"
  autoStarted :: bool
  sleepOnIdle :: duration
  sleepOnError :: duration
  PublishTimeout :: duration

record ('w, 'q) pub_st = "('w, 'q) letter_st" +
  confHeap :: "RabbitSeasoning list"
  publisher :: Publisher
  receiptSenders :: "PublishReceipt list"
  stopSenders :: nat

definition upd_pub :: "(Publisher \<Rightarrow> Publisher) \<Rightarrow> (('w, 'q, 'x) pub_st_scheme, unit) go" where
  "upd_pub f = modify_go (\<lambda>s. s\<lparr>publisher := f (publisher s)\<rparr>)"

definition conf_at :: "nat \<Rightarrow> (('w, 'q, 'x) pub_st_scheme, RabbitSeasoning) go" where
  "conf_at c = (\<lambda>s. if c < length (confHeap s) then Some (Return (confHeap s ! c), s)
                    else Some (Panicked NilDereference, s))"

text \<open>The retry count default is written into the shared configuration.\<close>

definition newPublisher :: "nat \<Rightarrow> PublisherConfig \<Rightarrow> Publisher" where
  "newPublisher c pc =
     \<lparr>pub_Config = c, letters = make_chan 1000, autoStop = make_chan 1, publishReceipts = make_chan 1000,
      autoStarted = False, sleepOnIdle = Duration (SleepOnIdleInterval pc) Millisecond,
      sleepOnError = Duration (pb_SleepOnErrorInterval pc) Millisecond,
      PublishTimeout = Duration (PublishTimeOutInterval pc) Millisecond\<rparr>"

definition NewPublisher :: "nat \<Rightarrow> (('w, 'q, 'x) pub_st_scheme, unit) go" where
  "NewPublisher c =
     bind_go (conf_at c) (\<lambda>conf. case rs_PublisherConfig conf of
       None \<Rightarrow> panic_go NilDereference
     | Some pc \<Rightarrow>
         (let pc' = (if MaxRetryCount pc = 0 then pc\<lparr>MaxRetryCount := 5\<rparr> else pc)
          in bind_go (modify_go (\<lambda>s. s\<lparr>confHeap := (confHeap s)[c := conf\<lparr>rs_PublisherConfig := Some pc'\<rparr>]\<rparr>)) (\<lambda>_.
             upd_pub (\<lambda>_. newPublisher c pc'))))"

subsection \<open>Receipts\<close>

definition publishReceipt :: "nat \<Rightarrow> goerror option \<Rightarrow> (('w, 'q, 'x) pub_st_scheme, unit) go" where
  "publishReceipt l err =
     bind_go (letter_at l) (\<lambda>letter.
     bind_go (if err \<noteq> None then
                modify_go (\<lambda>s. s\<lparr>letterHeap := (letterHeap s)[l :=
                  letter\<lparr>opts := (opts letter)\<lparr>RetryCount := RetryCount (opts letter) + 1\<rparr>\<rparr>]\<rparr>)
              else ret ()) (\<lambda>_.
     modify_go (\<lambda>s.
       let r = \<lparr>receipt_LetterID = LetterID letter, FailedLetter = (if err \<noteq> None then Some l else None),
                Success = (err = None), receipt_Error = err\<rparr>
       in case chan_send r (publishReceipts (publisher s)) of
            Return c \<Rightarrow> s\<lparr>publisher := (publisher s)\<lparr>publishReceipts := c\<rparr>\<rparr>
          | _ \<Rightarrow> s\<lparr>receiptSenders := receiptSenders s @ [r]\<rparr>)))"

definition PublishReceipts :: "Publisher \<Rightarrow> PublishReceipt gochan" where
  "PublishReceipts pub = publishReceipts pub"

text \<open>A receive on the receipts channel lets the goroutine that has waited longest complete its send.\<close>

definition recvReceipt :: "(('w, 'q, 'x) pub_st_scheme, PublishReceipt received) go" where
  "recvReceipt = (\<lambda>s. case chan_recv (publishReceipts (publisher s)) of
       (Received r, c) \<Rightarrow>
         (case receiptSenders s of
            [] \<Rightarrow> Some (Return (Received r), s\<lparr>publisher := (publisher s)\<lparr>publishReceipts := c\<rparr>\<rparr>)
          | q # qs \<Rightarrow> Some (Return (Received r),
              s\<lparr>publisher := (publisher s)\<lparr>publishReceipts := c\<lparr>ch_buf := ch_buf c @ [q]\<rparr>\<rparr>, receiptSenders := qs\<rparr>))
     | (v, c) \<Rightarrow> Some (Return v, s))"

subsection \<open>Publishing\<close>

definition CONFIRMATION_CANCEL :: "string \<Rightarrow> string" where
  "CONFIRMATION_CANCEL lid =
     ''publish confirmation not received before context expired - recommend retry/requeue (LetterID '' @ lid @ '')''"

definition CONFIRMATION_TIMEOUT :: "int \<Rightarrow> string \<Rightarrow> string" where
  "CONFIRMATION_TIMEOUT ms lid = ''publish confirmation timeout after '' @ append_int ms 0 @
     '' millisecond - recommend retry/requeue (LetterID '' @ lid @ '')''"

text \<open>\<^verbatim>\<open>Duration.Milliseconds\<close>: integer division that truncates towards zero.\<close>

definition Milliseconds :: "duration \<Rightarrow> int" where
  "Milliseconds d = sgn (sint d) * (\<bar>sint d\<bar> div 1000000)"

definition publishing :: "('w, 'e) env_scheme \<Rightarrow> Letter \<Rightarrow> gotime \<Rightarrow> string \<Rightarrow> amqp_Publishing" where
  "publishing E l now app =
     \<lparr>pm_ContentType = ContentType (opts l), pm_Body = Body l, pm_Headers = Headers (opts l),
      pm_DeliveryMode = DeliveryMode (opts l), pm_Priority = Priority (opts l),
      pm_MessageId = uuid_String E (LetterID l), pm_CorrelationId = CorrelationID (opts l),
      pm_Type = MessageType (opts l), pm_Timestamp = UTC now, pm_AppId = app\<rparr>"

text \<open>The call \<^verbatim>\<open>ch.Channel.PublishWithContext(...)\<close> the three plain publishing methods write out.\<close>

definition publishWithContext ::
  "('w, 'e) env_scheme \<Rightarrow> nat \<Rightarrow> nat \<Rightarrow> (('w, 'q, 'x) pub_st_scheme, goerror option) go" where
  "publishWithContext E c l =
     bind_go (letter_at l) (\<lambda>letter.
     bind_go (env_call (time_Now E)) (\<lambda>now.
     bind_go (gets_go pool) (\<lambda>cp.
     bind_go (chan_ptr c) (\<lambda>a.
     env_call (Chan_Publish E a (Ctx (opts letter)) (Exchange_name (opts letter)) (RoutingKey (opts letter))
       (Mandatory (opts letter)) (Immediate (opts letter))
       (publishing E letter now (ApplicationName (Config cp))))))))"

definition Publish :: "('w, 'e) env_scheme \<Rightarrow> nat \<Rightarrow> bool \<Rightarrow> (('w, 'q, 'x) pub_st_scheme, goerror option) go" where
  "Publish E l receipt =
     bind_go GetChannelFromPool (\<lambda>c.
     bind_go (publishWithContext E c l) (\<lambda>err.
     bind_go (if receipt then publishReceipt l err else ret ()) (\<lambda>_.
     bind_go (ReturnChannel E c (err \<noteq> None)) (\<lambda>_. ret err))))"

definition PublishWithTransient ::
  "('w, 'e) env_scheme \<Rightarrow> 'q queue_ops \<Rightarrow> nat \<Rightarrow> (('w, 'q, 'x) pub_st_scheme, goerror option) go" where
  "PublishWithTransient E K l =
     bind_go (GetTransientChannel E K False) (\<lambda>c.
     defer_go (recover_go (ChannelHost_Close E c)) (publishWithContext E c l))"

definition publishDeferredConfirm ::
  "('w, 'e) env_scheme \<Rightarrow> nat \<Rightarrow> nat \<Rightarrow> (('w, 'q, 'x) pub_st_scheme, nat option \<times> goerror option) go" where
  "publishDeferredConfirm E c l =
     bind_go (letter_at l) (\<lambda>letter.
     bind_go (env_call (time_Now E)) (\<lambda>now.
     bind_go (gets_go pool) (\<lambda>cp.
     bind_go (chan_ptr c) (\<lambda>a.
     env_call (Chan_PublishDeferred E a (Ctx (opts letter)) (Exchange_name (opts letter)) (RoutingKey (opts letter))
       (Mandatory (opts letter)) (Immediate (opts letter))
       (publishing E letter now (ApplicationName (Config cp))))))))"

text \<open>
  The \<^verbatim>\<open>select\<close> over the context, the timer and the confirmation takes one of its three branches,
  each of which returns; the timer is armed with the full timeout.
\<close>

definition waitPublishConfirmation ::
  "('w, 'e) env_scheme \<Rightarrow> nat option \<Rightarrow> nat \<Rightarrow> duration \<Rightarrow> (('w, 'q, 'x) pub_st_scheme, bool \<times> goerror option) go" where
  "waitPublishConfirmation E dConf l timeout =
     bind_go (letter_at l) (\<lambda>letter. case dConf of
       None \<Rightarrow> panic_go NilDereference
     | Some d \<Rightarrow>
         bind_go (env_call (Select_Confirm E (Done letter) d timeout)) (\<lambda>ev. case ev of
           CtxDone \<Rightarrow> ret (False, Some (ErrorString (CONFIRMATION_CANCEL (uuid_String E (LetterID letter)))))
         | TimedOut \<Rightarrow> ret (False, Some (ErrorString
             (CONFIRMATION_TIMEOUT (Milliseconds timeout) (uuid_String E (LetterID letter)))))
         | ConfirmDone \<Rightarrow> bind_go (env_call (Conf_Acked E d)) (\<lambda>acked. ret (acked, None))))"

text \<open>What follows a publish attempt in both confirming methods: retry, or report and return.\<close>

definition afterPublish ::
  "('w, 'e) env_scheme \<Rightarrow> nat \<Rightarrow> duration \<Rightarrow> nat option \<times> goerror option
     \<Rightarrow> (('w, 'q, 'x) pub_st_scheme, goerror option option) go" where
  "afterPublish E l timeout r = (case snd r of
       Some err \<Rightarrow>
         bind_go (gets_go publisher) (\<lambda>pub.
         bind_go (sleep_if_positive E (sleepOnError pub)) (\<lambda>_. ret None))
     | None \<Rightarrow>
         bind_go (waitPublishConfirmation E (fst r) l timeout) (\<lambda>(acked, err).
           if \<not> acked \<and> err = None then ret None
           else bind_go (publishReceipt l err) (\<lambda>_. ret (Some err))))"

definition confirmRound ::
  "('w, 'e) env_scheme \<Rightarrow> nat \<Rightarrow> duration \<Rightarrow> (('w, 'q, 'x) pub_st_scheme, goerror option option) go" where
  "confirmRound E l timeout =
     bind_go GetChannelFromPool (\<lambda>c.
     bind_go (publishDeferredConfirm E c l) (\<lambda>r.
     bind_go (ReturnChannel E c (snd r \<noteq> None)) (\<lambda>_. afterPublish E l timeout r)))"

definition PublishWithConfirmation ::
  "('w, 'e) env_scheme \<Rightarrow> nat \<Rightarrow> duration \<Rightarrow> (('w, 'q, 'x) pub_st_scheme, goerror option) go" where
  "PublishWithConfirmation E l timeout = forever (confirmRound E l timeout)"

definition confirmTransientRound ::
  "('w, 'e) env_scheme \<Rightarrow> 'q queue_ops \<Rightarrow> nat \<Rightarrow> duration \<Rightarrow> (('w, 'q, 'x) pub_st_scheme, goerror option option) go" where
  "confirmTransientRound E K l timeout =
     bind_go (GetTransientChannel E K True) (\<lambda>c.
     bind_go (publishDeferredConfirm E c l) (\<lambda>r.
     bind_go (ChannelHost_Close E c) (\<lambda>_. afterPublish E l timeout r)))"

definition PublishWithConfirmationTransient ::
  "('w, 'e) env_scheme \<Rightarrow> 'q queue_ops \<Rightarrow> nat \<Rightarrow> duration \<Rightarrow> (('w, 'q, 'x) pub_st_scheme, goerror option) go" where
  "PublishWithConfirmationTransient E K l timeout = forever (confirmTransientRound E K l timeout)"

subsection \<open>Queueing and stopping\<close>

definition safeSend :: "nat \<Rightarrow> (('w, 'q, 'x) pub_st_scheme, bool) go" where
  "safeSend l = (\<lambda>s. case chan_send l (letters (publisher s)) of
       Return c \<Rightarrow> Some (Return True, s\<lparr>publisher := (publisher s)\<lparr>letters := c\<rparr>\<rparr>)
     | Panicked p \<Rightarrow> Some (Return False, s)
     | Blocked \<Rightarrow> Some (Blocked, s))"

definition QueueLetter :: "nat \<Rightarrow> (('w, 'q, 'x) pub_st_scheme, bool) go" where
  "QueueLetter l = safeSend l"

fun QueueLetters :: "nat list \<Rightarrow> (('w, 'q, 'x) pub_st_scheme, bool) go" where
  "QueueLetters [] = ret True"
| "QueueLetters (l # ls) = bind_go (safeSend l) (\<lambda>ok. if \<not> ok then ret False else QueueLetters ls)"

definition stopAutoPublish :: "(('w, 'q, 'x) pub_st_scheme, unit) go" where
  "stopAutoPublish =
     bind_go (gets_go publisher) (\<lambda>pub.
       if \<not> autoStarted pub then ret ()
       else modify_go (\<lambda>s. case chan_send True (autoStop (publisher s)) of
          Return c \<Rightarrow> s\<lparr>publisher := (publisher s)\<lparr>autoStop := c\<rparr>\<rparr>
        | _ \<Rightarrow> s\<lparr>stopSenders := stopSenders s + 1\<rparr>))"

definition Publisher_Shutdown ::
  "('w, 'e) env_scheme \<Rightarrow> 'q queue_ops \<Rightarrow> bool \<Rightarrow> (('w, 'q, 'x) pub_st_scheme, unit) go" where
  "Publisher_Shutdown E K shutdownPools =
     bind_go stopAutoPublish (\<lambda>_. if shutdownPools then ConnectionPool_Shutdown E K False else ret ())"

subsection \<open>Receipts: contents and order\<close>

text \<open>
  All receipts in flight: the channel's buffer, then the waiting goroutines. A goroutine waits only
  while the buffer is full.
\<close>

definition receipts :: "('w, 'q, 'x) pub_st_scheme \<Rightarrow> PublishReceipt list" where
  "receipts s = ch_buf (publishReceipts (publisher s)) @ receiptSenders s"

definition receipts_ok :: "('w, 'q, 'x) pub_st_scheme \<Rightarrow> bool" where
  "receipts_ok s \<longleftrightarrow> \<not> ch_closed (publishReceipts (publisher s)) \<and> chan_ok (publishReceipts (publisher s)) \<and>
     (receiptSenders s \<noteq> [] \<longrightarrow> length (ch_buf (publishReceipts (publisher s))) = ch_cap (publishReceipts (publisher s)))"

text \<open>The receipt of letter \<open>l\<close> for an outcome, and the letter after it.\<close>

definition receipt_for :: "Letter \<Rightarrow> nat \<Rightarrow> goerror option \<Rightarrow> PublishReceipt" where
  "receipt_for letter l err = \<lparr>receipt_LetterID = LetterID letter,
     FailedLetter = (if err \<noteq> None then Some l else None), Success = (err = None), receipt_Error = err\<rparr>"

definition counted :: "Letter \<Rightarrow> goerror option \<Rightarrow> Letter" where
  "counted letter err = (if err = None then letter
     else letter\<lparr>opts := (opts letter)\<lparr>RetryCount := RetryCount (opts letter) + 1\<rparr>\<rparr>)"

text \<open>\<open>reported s t l err\<close>: from \<open>s\<close> to \<open>t\<close> exactly one receipt was issued, for \<open>l\<close> with outcome \<open>err\<close>.\<close>

definition reported ::
  "('w, 'q, 'x) pub_st_scheme \<Rightarrow> ('w, 'q, 'x) pub_st_scheme \<Rightarrow> nat \<Rightarrow> goerror option \<Rightarrow> bool" where
  "reported s t l err \<longleftrightarrow> receipts t = receipts s @ [receipt_for (letterHeap s ! l) l err] \<and> receipts_ok t \<and>
     letterHeap t = (letterHeap s)[l := counted (letterHeap s ! l) err] \<and>
     confHeap t = confHeap s \<and>
     publisher t = (publisher s)\<lparr>publishReceipts := publishReceipts (publisher t)\<rparr> \<and>
     letters (publisher t) = letters (publisher s) \<and>
     autoStarted (publisher t) = autoStarted (publisher s) \<and> autoStop (publisher t) = autoStop (publisher s) \<and>
     stopSenders t = stopSenders s"

lemma more_fields:
  assumes "pool_st.more t = pool_st.more (s :: ('w, 'q, 'x) pub_st_scheme)"
  shows "letterHeap t = letterHeap s" "confHeap t = confHeap s" "publisher t = publisher s"
    "receiptSenders t = receiptSenders s" "stopSenders t = stopSenders s"
  using assms by (cases s; cases t; simp)+

lemma reported_start:
  assumes "reported s t l err" "pool_st.more s = pool_st.more r"
  shows "reported r t l err"
  using assms(1) more_fields [OF assms(2)] by (simp add: reported_def receipts_def receipts_ok_def)

lemma publishReceipt_wp:
  assumes "l < length (letterHeap s)" "receipts_ok s"
  shows "wp (publishReceipt l err) (\<lambda>_ t. reported s t l err \<and> chanHosts t = chanHosts s \<and>
    connHosts t = connHosts s \<and> pool t = pool s) s"
proof -
  have same: "(letterHeap s)[l := letterHeap s ! l] = letterHeap s" by simp
  show ?thesis
    using assms
    by (cases "length (ch_buf (publishReceipts (publisher s))) < ch_cap (publishReceipts (publisher s))")
      (auto simp: publishReceipt_def wp_simps reported_def receipts_def receipts_ok_def receipt_for_def counted_def
        chan_send_def chan_ok_def Let_def)
qed

subsection \<open>Confirmed publishing\<close>

text \<open>A publish in confirm mode that reports no error yields a confirmation to wait for.\<close>

definition confirm_law :: "('w, 'e) env_scheme \<Rightarrow> bool" where
  "confirm_law E \<longleftrightarrow> (\<forall>a c x k m i p w. snd (fst (Chan_PublishDeferred E a c x k m i p w)) = None \<longrightarrow>
     fst (fst (Chan_PublishDeferred E a c x k m i p w)) \<noteq> None)"

text \<open>
  What a publishing client relies on and finds again: the pool's invariant, a ready cache that holds
  the same channels, and (in \<open>idle\<close>) its own state untouched.
\<close>

definition ready :: "('q \<Rightarrow> qitem list) \<Rightarrow> ('w, 'q, 'x) pool_st_scheme \<Rightarrow> bool" where
  "ready items s \<longleftrightarrow> pool_inv items s \<and> cache_ready s"

definition same_cache :: "('w, 'q, 'x) pool_st_scheme \<Rightarrow> ('w, 'q, 'x) pool_st_scheme \<Rightarrow> bool" where
  "same_cache s t \<longleftrightarrow> mset (cacheBuf t) = mset (cacheBuf s) \<and> ch_cap (channels (pool t)) = ch_cap (channels (pool s))"

definition idle :: "('q \<Rightarrow> qitem list) \<Rightarrow> ('w, 'q, 'x) pool_st_scheme \<Rightarrow> ('w, 'q, 'x) pool_st_scheme \<Rightarrow> bool" where
  "idle items s t \<longleftrightarrow> ready items t \<and> same_cache s t \<and> pool_st.more t = pool_st.more s"

lemma ready_world [simp]: "ready items (s\<lparr>world := w\<rparr>) = ready items s"
  by (simp add: ready_def cache_ready_def cacheBuf_def)

lemma same_cache_world [simp]: "same_cache s (t\<lparr>world := w\<rparr>) = same_cache s t"
  by (simp add: same_cache_def cacheBuf_def)

lemma idle_world [simp]: "idle items s (t\<lparr>world := w\<rparr>) = idle items s t"
  by (simp add: idle_def)

lemma keeps_letter_at [keeps_rules]: "keeps (letter_at l)"
  by (auto simp: keeps_iff letter_at_def split: if_splits)

lemma publishDeferredConfirm_wp:
  assumes "confirm_law E" "l < length (letterHeap s)" "opened s c"
  shows "wp (publishDeferredConfirm E c l) (\<lambda>r t. only_world s t \<and> (snd r = None \<longrightarrow> fst r \<noteq> None)) s"
  using assms
  by (auto simp: publishDeferredConfirm_def wp_simps opened_def confirm_law_def)

text \<open>The outcomes of a wait: confirmed, refused, timed out, cancelled.\<close>

definition wait_outcome :: "('w, 'e) env_scheme \<Rightarrow> Letter \<Rightarrow> duration \<Rightarrow> goerror option \<Rightarrow> bool" where
  "wait_outcome E letter timeout err \<longleftrightarrow> err = None \<or>
     err = Some (ErrorString (CONFIRMATION_CANCEL (uuid_String E (LetterID letter)))) \<or>
     err = Some (ErrorString (CONFIRMATION_TIMEOUT (Milliseconds timeout) (uuid_String E (LetterID letter))))"

lemma afterPublish_wp:
  assumes "l < length (letterHeap s)" "receipts_ok s" "snd r = None \<longrightarrow> fst r \<noteq> None"
  shows "wp (afterPublish E l timeout r) (\<lambda>c t. case c of
      None \<Rightarrow> only_world s t
    | Some err \<Rightarrow> wait_outcome E (letterHeap s ! l) timeout err \<and> reported s t l err \<and>
        chanHosts t = chanHosts s \<and> connHosts t = connHosts s \<and> pool t = pool s) s"
proof -
  have rep: "wp (publishReceipt l err) (\<lambda>_ t. reported s t l err \<and> chanHosts t = chanHosts s \<and>
      connHosts t = connHosts s \<and> pool t = pool s) (s\<lparr>world := w\<rparr>)" for err w
  proof -
    have "reported (s\<lparr>world := w\<rparr>) t l err = reported s t l err" for t
      by (simp add: reported_def receipts_def receipts_ok_def)
    then show ?thesis
      using publishReceipt_wp [of l "s\<lparr>world := w\<rparr>" err] assms(1,2) by (simp add: receipts_ok_def)
  qed
  show ?thesis
    using assms(1,3)
    by (auto simp: afterPublish_def waitPublishConfirmation_def wp_simps wait_outcome_def
        split: option.splits confirm_event.splits intro!: wp_mono [OF rep])
qed

lemma only_world_idle: "only_world t u \<Longrightarrow> idle items s t \<Longrightarrow> idle items s u"
  by (erule only_worldE) simp

lemma only_world_more:
  assumes "only_world (s :: ('w, 'q, 'x) pool_st_scheme) t"
  shows "pool_st.more t = pool_st.more s"
  using assms by (auto elim!: only_worldE)

text \<open>What a confirming publish has done when it returns.\<close>

definition delivered ::
  "('w, 'e) env_scheme \<Rightarrow> ('q \<Rightarrow> qitem list) \<Rightarrow> nat \<Rightarrow> duration \<Rightarrow> ('w, 'q, 'x) pub_st_scheme
     \<Rightarrow> goerror option \<Rightarrow> ('w, 'q, 'x) pub_st_scheme \<Rightarrow> bool" where
  "delivered E items l timeout s err t \<longleftrightarrow> ready items t \<and> same_cache s t \<and> reported s t l err \<and>
     wait_outcome E (letterHeap s ! l) timeout err"

lemma afterPublish_idle:
  assumes "idle items s t" "l < length (letterHeap s)" "receipts_ok s" "snd r = None \<longrightarrow> fst r \<noteq> None"
  shows "wp (afterPublish E l timeout r) (\<lambda>c u. case c of
      None \<Rightarrow> idle items s u | Some err \<Rightarrow> delivered E items l timeout s err u) t"
proof -
  have more: "pool_st.more t = pool_st.more s" using assms(1) by (simp add: idle_def)
  note f = more_fields [OF more]
  have "l < length (letterHeap t)" "receipts_ok t"
    using assms(2,3) f by (simp_all add: receipts_ok_def)
  then show ?thesis
  proof (rule wp_mono [OF afterPublish_wp [OF _ _ assms(4)]])
    fix c u
    assume u: "case c of None \<Rightarrow> only_world t u
      | Some err \<Rightarrow> wait_outcome E (letterHeap t ! l) timeout err \<and> reported t u l err \<and>
          chanHosts u = chanHosts t \<and> connHosts u = connHosts t \<and> pool u = pool t"
    show "case c of None \<Rightarrow> idle items s u | Some err \<Rightarrow> delivered E items l timeout s err u"
    proof (cases c)
      case None
      with u assms(1) show ?thesis by (simp add: only_world_idle)
    next
      case (Some err)
      have "ready items u" "same_cache s u"
        using Some u assms(1)
        by (auto simp: idle_def ready_def same_cache_def cache_ready_def cacheBuf_def pool_inv_def heap_ok_def
            conn_live_def)
      then show ?thesis
        using Some u f reported_start [OF _ more] by (simp add: delivered_def)
    qed
  qed
qed

lemma take_channel:
  assumes "ready items t" "cacheBuf t \<noteq> []"
  shows "wp GetChannelFromPool (\<lambda>c u. ready items u \<and> pool_st.more u = pool_st.more t \<and> cacheBuf t = c # cacheBuf u \<and>
     c \<notin> set (cacheBuf u) \<and> opened u c \<and> managed u c \<and> ch_cap (channels (pool u)) = ch_cap (channels (pool t)) \<and>
     length (cacheBuf u) < ch_cap (channels (pool u))) t"
proof -
  obtain c buf where b: "cacheBuf t = c # buf" using assms(2) by (cases "cacheBuf t") auto
  have "wlp GetChannelFromPool (\<lambda>_ u. pool_st.more u = pool_st.more t) (\<lambda>_ u. pool_st.more u = pool_st.more t) t"
    by (rule keeps_wlp [THEN iffD1, rule_format, OF keeps_calls(5)])
  moreover have inv: "pool_inv items t" "cache_ready t" using assms(1) by (simp_all add: ready_def)
  ultimately show ?thesis
    by (intro wp_mono [OF wp_conj [OF GetChannel_ready [OF inv b]]]) (auto simp: ready_def b)
qed

lemma give_channel_back:
  assumes "channel_law E" "ready items t" "cacheBuf s = c # cacheBuf t" "c \<notin> set (cacheBuf t)" "opened t c" "managed t c"
    and "ch_cap (channels (pool t)) = ch_cap (channels (pool s))" "length (cacheBuf t) < ch_cap (channels (pool t))"
    and "pool_st.more t = pool_st.more s"
  shows "wlp (ReturnChannel E c erred) (\<lambda>_ u. idle items s u) (\<lambda>_ _. False) t"
proof -
  have keep: "wlp (ReturnChannel E c erred) (\<lambda>_ u. pool_st.more u = pool_st.more t)
      (\<lambda>_ u. pool_st.more u = pool_st.more t) t"
    by (rule keeps_wlp [THEN iffD1, rule_format, OF keeps_calls(6)])
  have inv: "pool_inv items t" "cache_ready t" using assms(2) by (simp_all add: ready_def)
  show ?thesis
    by (rule wlp_mono [OF wlp_conj [OF ReturnChannel_ready [OF assms(1) inv assms(6,5,4,8)] keep]])
      (use assms(3,7,9) in \<open>simp_all add: ready_def idle_def same_cache_def\<close>)
qed

lemma confirmRound_wlp:
  assumes "channel_law E" "confirm_law E" "idle items s t" "cacheBuf s \<noteq> []"
    and "l < length (letterHeap s)" "receipts_ok s"
  shows "wlp (confirmRound E l timeout) (\<lambda>c u. case c of
      None \<Rightarrow> idle items s u | Some err \<Rightarrow> delivered E items l timeout s err u) (\<lambda>_ _. False) t"
proof -
  have t: "ready items t" "same_cache s t" "pool_st.more t = pool_st.more s"
    using assms(3) by (simp_all add: idle_def)
  then have ne: "cacheBuf t \<noteq> []" using assms(4) by (auto simp: same_cache_def)
  show ?thesis
    unfolding confirmRound_def
  proof (rule wlp_seq [OF wp_imp_wlp [OF take_channel [OF t(1) ne]]], elim conjE, goal_cases)
    case (1 c u)
    then have l: "l < length (letterHeap u)"
      using assms(5) more_fields [of u s] t(3) by simp
    show ?case
    proof (rule wlp_seq [OF wp_imp_wlp [OF publishDeferredConfirm_wp [OF assms(2) l \<open>opened u c\<close>]]], elim conjE, goal_cases)
      case (1 r v)
      from \<open>only_world u v\<close> obtain w where v: "v = u\<lparr>world := w\<rparr>" by (rule only_worldE)
      have giv: "wlp (ReturnChannel E c (snd r \<noteq> None)) (\<lambda>_ x. idle items t x) (\<lambda>_ _. False) v"
        unfolding v by (rule give_channel_back [OF assms(1)])
          (use \<open>ready items u\<close> \<open>cacheBuf t = c # cacheBuf u\<close> \<open>c \<notin> set (cacheBuf u)\<close> \<open>opened u c\<close> \<open>managed u c\<close>
            \<open>ch_cap (channels (pool u)) = ch_cap (channels (pool t))\<close> \<open>length (cacheBuf u) < ch_cap (channels (pool u))\<close>
            \<open>pool_st.more u = pool_st.more t\<close> in \<open>simp_all add: opened_def managed_def cacheBuf_def\<close>)
      have idle: "idle items s x" if "idle items t x" for x
        using that t by (simp add: idle_def same_cache_def)
      show ?case
        by (rule wlp_seq [OF giv], rule wp_imp_wlp, rule afterPublish_idle [OF idle])
          (use assms(5,6) \<open>snd r = None \<longrightarrow> fst r \<noteq> None\<close> in auto)
    qed
  qed
qed

text \<open>What a confirming publish may have done to the channels it used and to their connections.\<close>

definition repaired :: "('w, 'q, 'x) pool_st_scheme \<Rightarrow> ('w, 'q, 'x) pool_st_scheme \<Rightarrow> bool" where
  "repaired s t \<longleftrightarrow> touches ((\<lambda>c. connHost (chanHosts s ! c)) ` set (cacheBuf s)) (set (cacheBuf s)) s t"

lemma repairedI:
  assumes "\<And>H C. within (confined H C) m" "m s = Some (r, t)"
  shows "repaired s t"
  using withinD [OF assms(1) assms(2), of "(\<lambda>c. connHost (chanHosts s ! c)) ` set (cacheBuf s)" "set (cacheBuf s)"]
  by (simp add: confined_def covers_def repaired_def)

lemma conf_letters [conf_rules]:
  "within (confined H C) (letter_at l)" "within (confined H C) (publishReceipt l err)"
proof -
  show at: "within (confined H C) (letter_at l)" for l :: nat
    by (auto simp: within_def letter_at_def conf.frame_refl split: if_splits)
  have mod: "within (confined H C) (modify_go f)" if "\<And>s. confined H C s (f s)" for f
    using that by (simp add: within_def modify_go_def)
  show "within (confined H C) (publishReceipt l err)"
    unfolding publishReceipt_def
    by (intro conf_rules at mod) (auto simp: confined_def covers_def cacheBuf_def touches_def Let_def split: result.splits)
qed

lemma conf_PublishWithConfirmation: "within (confined H C) (PublishWithConfirmation E l timeout)"
proof -
  have pub: "within (confined H C) (publishDeferredConfirm E c l)" for c
    unfolding publishDeferredConfirm_def by (intro conf_rules)
  have event: "within (confined H C) (case ev of CtxDone \<Rightarrow> ret a | TimedOut \<Rightarrow> ret b | ConfirmDone \<Rightarrow> m)"
    if "within (confined H C) m" for ev a b m
    using that by (cases ev) (simp_all add: conf_rules)
  have aft: "within (confined H C) (afterPublish E l timeout r)" for r
    unfolding afterPublish_def waitPublishConfirmation_def by (intro conf_rules event)
  show ?thesis
    unfolding PublishWithConfirmation_def confirmRound_def
    by (rule conf.within_forever, rule conf_take, intro conf_rules pub aft)
qed

text \<open>
  C10: what a return of \<open>PublishWithConfirmation\<close> means. From a state with a ready, non-empty cache the
  call neither panics nor parks. If it returns \<open>err\<close>, exactly one receipt was issued, for this
  letter: a success exactly if \<open>err\<close> is nil, and otherwise a failure that carries the letter, whose
  retry count was raised by one; \<open>err\<close> is nil, the cancellation or the timeout error, never an error
  of the publish itself. All channels are back in the cache. No other letter changed, and of the
  publisher only its receipts. A failed publish reopens the channel it used, after a recovery of its
  connection where that is needed, so of the pool and its hosts exactly this may differ (\<open>repaired\<close>):
  the AMQP channels of cached channel hosts, the connections of the hosts they are on, flags of these
  hosts that were cleared, and the order of the cache. The queue of connections, the flags of all
  others, the counters and the settings are the same.
\<close>

theorem PublishWithConfirmation_result:
  assumes "channel_law E" "confirm_law E" "ready items s" "cacheBuf s \<noteq> []"
    and "l < length (letterHeap s)" "receipts_ok s" "PublishWithConfirmation E l timeout s = Some (r, t)"
  shows "\<exists>err. r = Return err \<and> delivered E items l timeout s err t \<and> repaired s t"
proof -
  have "wlp (PublishWithConfirmation E l timeout) (\<lambda>err u. delivered E items l timeout s err u) (\<lambda>_ _. False) s"
    unfolding PublishWithConfirmation_def
    by (rule wlp_forever [where I = "idle items s"])
      (use assms(3) confirmRound_wlp [OF assms(1,2) _ assms(4-6)] in \<open>auto simp: idle_def same_cache_def\<close>)
  with assms(7) have "\<exists>err. r = Return err \<and> delivered E items l timeout s err t"
    by (cases r) (auto simp: wlp_iff)
  with repairedI [OF conf_PublishWithConfirmation assms(7)] show ?thesis by blast
qed

text \<open>
  C12: neither the timeout nor the context bounds \<open>PublishWithConfirmation\<close> as a whole. If every publish
  attempt fails, or every confirmation is a nack, the call never returns, whatever timeout was given.
\<close>

theorem PublishWithConfirmation_unbounded:
  assumes "channel_law E" "confirm_law E" "ready items s" "cacheBuf s \<noteq> []" "l < length (letterHeap s)" "receipts_ok s"
    and "(\<forall>a c x k m i p w. snd (fst (Chan_PublishDeferred E a c x k m i p w)) \<noteq> None) \<or>
      (\<forall>c d w. fst (Select_Confirm E c d timeout w) = ConfirmDone \<and> \<not> fst (Conf_Acked E d w))"
  shows "PublishWithConfirmation E l timeout s = None"
proof -
  have "wlp (confirmRound E l timeout) (\<lambda>c u. case c of None \<Rightarrow> idle items s u | Some err \<Rightarrow> False) (\<lambda>_ _. False) t"
    if t: "idle items s t" for t
  proof -
    have after: "wlp (afterPublish E l timeout r) (\<lambda>c _. c = None) (\<lambda>_ _. True) u"
      if "snd r \<noteq> None \<or> (\<forall>c d w. fst (Select_Confirm E c d timeout w) = ConfirmDone \<and> \<not> fst (Conf_Acked E d w))" for r u
      using that by (auto simp: afterPublish_def waitPublishConfirmation_def wp_simps split: option.splits confirm_event.splits)
    have pub: "wlp (publishDeferredConfirm E c l) (\<lambda>r _. snd r \<noteq> None \<or>
        (\<forall>c d w. fst (Select_Confirm E c d timeout w) = ConfirmDone \<and> \<not> fst (Conf_Acked E d w))) (\<lambda>_ _. True) u" for c u
      using assms(7) by (auto simp: publishDeferredConfirm_def wp_simps split: option.splits)
    have "wlp (confirmRound E l timeout) (\<lambda>c _. c = None) (\<lambda>_ _. True) t"
      unfolding confirmRound_def
      by (rule wlp_seq [OF wlp_True], rule wlp_seq [OF pub], rule wlp_seq [OF wlp_True]) (rule after)
    from wlp_conj [OF confirmRound_wlp [OF assms(1,2) t assms(4-6)] this] show ?thesis
      by (rule wlp_mono) (auto split: option.splits)
  qed
  then have "wlp (PublishWithConfirmation E l timeout) (\<lambda>_ _. False) (\<lambda>_ _. False) s"
    unfolding PublishWithConfirmation_def
    by (intro wlp_forever [where I = "idle items s"]) (use assms(3) in \<open>auto simp: idle_def same_cache_def\<close>)
  then show ?thesis
    by (cases "PublishWithConfirmation E l timeout s") (auto simp: wlp_iff elim: settles.elims)
qed

subsection \<open>Confirmed publishing comes to an end\<close>

text \<open>
  A broker that is healthy and whose refusals are finite: in worlds of \<open>H n\<close> at most \<open>n\<close> publish
  errors and nacks are still to come.
\<close>

definition finite_refusals :: "('w, 'e) env_scheme \<Rightarrow> (nat \<Rightarrow> 'w \<Rightarrow> bool) \<Rightarrow> bool" where
  "finite_refusals E H \<longleftrightarrow> (\<forall>n. healthy E (H n)) \<and>
     (\<forall>n w. H n w \<longrightarrow> H n (snd (time_Now E w)) \<and> (\<forall>d. H n (time_Sleep E d w)) \<and>
        (\<forall>c d t. H n (snd (Select_Confirm E c d t w))) \<and>
        (\<forall>d. if fst (Conf_Acked E d w) then H n (snd (Conf_Acked E d w)) else \<exists>m<n. H m (snd (Conf_Acked E d w))) \<and>
        (\<forall>a c x k md i p. if snd (fst (Chan_PublishDeferred E a c x k md i p w)) = None
           then H n (snd (Chan_PublishDeferred E a c x k md i p w))
           else \<exists>m<n. H m (snd (Chan_PublishDeferred E a c x k md i p w))))"

lemma refusalsD:
  assumes "finite_refusals E H" "H n w"
  shows "healthy E (H n)" "H n (snd (time_Now E w))" "H n (time_Sleep E d w)" "H n (snd (Select_Confirm E c d' t w))"
    and "if fst (Conf_Acked E d' w) then H n (snd (Conf_Acked E d' w)) else \<exists>m<n. H m (snd (Conf_Acked E d' w))"
    and "if snd (fst (Chan_PublishDeferred E a c x k md i p w)) = None
       then H n (snd (Chan_PublishDeferred E a c x k md i p w))
       else \<exists>m<n. H m (snd (Chan_PublishDeferred E a c x k md i p w))"
proof -
  note F = assms(1) [unfolded finite_refusals_def]
  show "healthy E (H n)" using F [THEN conjunct1] by blast
  note G = F [THEN conjunct2, THEN spec, THEN spec, THEN mp, OF assms(2)]
  show "H n (snd (time_Now E w))" "H n (time_Sleep E d w)" "H n (snd (Select_Confirm E c d' t w))"
    using G by simp_all
  show "if fst (Conf_Acked E d' w) then H n (snd (Conf_Acked E d' w)) else \<exists>m<n. H m (snd (Conf_Acked E d' w))"
    using G by blast
  show "if snd (fst (Chan_PublishDeferred E a c x k md i p w)) = None
       then H n (snd (Chan_PublishDeferred E a c x k md i p w))
       else \<exists>m<n. H m (snd (Chan_PublishDeferred E a c x k md i p w))"
    using G [THEN conjunct2, THEN conjunct2, THEN conjunct2, THEN conjunct2] by blast
qed

text \<open>Every cached channel sits on a quiet, unflagged connection.\<close>

definition on_quiet :: "('w, 'q, 'x) pool_st_scheme \<Rightarrow> nat \<Rightarrow> bool" where
  "on_quiet s c \<longleftrightarrow> c < length (chanHosts s) \<and> Ackable (chanHosts s ! c) \<and> transient (chanHosts s ! c) \<and>
     Channel (chanHosts s ! c) \<noteq> None \<and>
     (let h = connHost (chanHosts s ! c) in h < length (connHosts s) \<and> quiet_host (connHosts s ! h) \<and> unflagged s h)"

definition calm_cache :: "('w, 'q, 'x) pool_st_scheme \<Rightarrow> bool" where
  "calm_cache s \<longleftrightarrow> (\<forall>c \<in> set (cacheBuf s). on_quiet s c) \<and> \<not> ch_closed (channels (pool s)) \<and>
     chan_ok (channels (pool s))"


lemma on_quiet_cong:
  assumes "chanHosts t = chanHosts s" "connHosts t = connHosts s" "flaggedConnections (pool t) = flaggedConnections (pool s)"
  shows "on_quiet t c = on_quiet s c"
  using assms by (simp add: on_quiet_def unflagged_def)

lemma on_quiet_reopened:
  assumes "on_quiet s c" "on_quiet s d"
  shows "on_quiet (put_channels q (s\<lparr>world := w, chanHosts := (chanHosts s)[c := (chanHosts s ! c)\<lparr>Channel := Some a,
    chan_Errors := e\<rparr>]\<rparr>)) d"
  using assms by (cases "d = c") (simp_all add: on_quiet_def unflagged_def put_channels_def Let_def)

lemma quiet_return:
  assumes "healthy E H" "H (world s)" "on_quiet s c" "\<forall>d \<in> set (cacheBuf s). on_quiet s d"
    and "\<not> ch_closed (channels (pool s))" "length (cacheBuf s) < ch_cap (channels (pool s))"
  shows "wp (ReturnChannel E c erred) (\<lambda>_ t. calm_cache t \<and> H (world t) \<and> (\<not> erred \<longrightarrow> world t = world s)) s"
proof (cases erred)
  case False
  have "c < length (chanHosts s)" "transient (chanHosts s ! c)" using assms(3) by (simp_all add: on_quiet_def)
  from ReturnChannel_cached [OF this assms(5), of E] assms(2-6) False show ?thesis
    by (auto simp: wp_def put_channels_def calm_cache_def cacheBuf_def chan_ok_def on_quiet_def unflagged_def)
next
  case True
  let ?ch = "chanHosts s ! c"
  note q = assms(3) [unfolded on_quiet_def Let_def]
  have "wp (ReturnChannel E c True) (\<lambda>_ t. \<exists>w a. H w \<and> t = put_channels
      ((channels (pool s))\<lparr>ch_buf := ch_buf (channels (pool s)) @ [c]\<rparr>)
      (s\<lparr>world := w, chanHosts := (chanHosts s)[c := ?ch\<lparr>Channel := Some a, chan_Errors := make_chan 100\<rparr>]\<rparr>)) s"
    by (rule ReturnChannel_erred [OF assms(1,2)]) (use q assms(5,6) in \<open>simp_all add: cacheBuf_def\<close>)
  then have "wp (ReturnChannel E c True) (\<lambda>_ t. calm_cache t \<and> H (world t)) s"
    by (rule wp_mono) (use assms(3-6) on_quiet_reopened [OF assms(3)] in
      \<open>auto simp: calm_cache_def chan_ok_def cacheBuf_def put_channels_def\<close>)
  with True show ?thesis by simp
qed

lemma quiet_publish:
  assumes "finite_refusals E H" "H n (world s)" "l < length (letterHeap s)" "opened s c" "confirm_law E"
  shows "wp (publishDeferredConfirm E c l) (\<lambda>r t. only_world s t \<and> (snd r = None \<longrightarrow> fst r \<noteq> None) \<and>
    (if snd r = None then H n (world t) else \<exists>m<n. H m (world t))) s"
proof -
  have now: "H n (snd (time_Now E (world s)))" using refusalsD(2) [OF assms(1,2)] .
  show ?thesis
    using assms(3-5) refusalsD(6) [OF assms(1) now]
    by (auto simp: publishDeferredConfirm_def wp_simps opened_def confirm_law_def split: if_splits)
qed

lemma quiet_after:
  assumes "finite_refusals E H" "l < length (letterHeap s)" "receipts_ok s" "snd r = None \<longrightarrow> fst r \<noteq> None"
    and "if snd r = None then H n (world s) else \<exists>m<n. H m (world s)"
  shows "wp (afterPublish E l timeout r) (\<lambda>c t. c = None \<longrightarrow> (\<exists>m<n. H m (world t))) s"
proof (cases "snd r")
  case (Some err)
  then obtain m where "m < n" "H m (world s)" using assms(5) by auto
  with Some refusalsD(3) [OF assms(1)] show ?thesis
    by (auto simp: afterPublish_def sleep_if_positive_def wp_simps)
next
  case None
  then obtain d where d: "fst r = Some d" and H: "H n (world s)" using assms(4,5) by auto
  define w where "w = snd (Select_Confirm E (Done (letterHeap s ! l)) d timeout (world s))"
  have w: "H n w" using refusalsD(4) [OF assms(1) H] by (simp add: w_def)
  have rep: "wp (publishReceipt l err) (\<lambda>_ t. True) (s\<lparr>world := v\<rparr>)" for err v
    by (rule wp_mono [OF publishReceipt_wp]) (use assms(2,3) in \<open>simp_all add: receipts_ok_def\<close>)
  show ?thesis
    using None d assms(2) refusalsD(5) [OF assms(1) w, of d]
    by (auto simp: afterPublish_def waitPublishConfirmation_def wp_simps w_def split: confirm_event.splits if_splits
        intro!: wp_mono [OF rep])
qed

lemma confirmRound_quiet:
  assumes "finite_refusals E H" "confirm_law E" "ready items s" "calm_cache s" "H n (world s)" "cacheBuf s \<noteq> []"
    and "l < length (letterHeap s)" "receipts_ok s"
  shows "wp (confirmRound E l timeout) (\<lambda>c t. c = None \<longrightarrow> calm_cache t \<and> (\<exists>m<n. H m (world t))) s"
proof -
  obtain c buf where b: "cacheBuf s = c # buf" using assms(6) by (cases "cacheBuf s") auto
  let ?t = "put_channels ((channels (pool s))\<lparr>ch_buf := buf\<rparr>) s"
  have q: "on_quiet s c" "\<forall>d \<in> set buf. on_quiet s d" "\<not> ch_closed (channels (pool s))"
    "length buf < ch_cap (channels (pool s))"
    using assms(4) b by (simp_all add: calm_cache_def cacheBuf_def chan_ok_def)
  have get: "wp GetChannelFromPool (\<lambda>a t. a = c \<and> t = ?t) s"
    using b by (simp add: GetChannelFromPool_def wp_simps get_channels_def cacheBuf_def)
  have op: "opened ?t c" using q(1) by (simp add: on_quiet_def opened_def put_channels_def)
  have ret: "wp (bind_go (ReturnChannel E c (snd r \<noteq> None)) (\<lambda>_. afterPublish E l timeout r))
      (\<lambda>a t. a = None \<longrightarrow> calm_cache t \<and> (\<exists>m<n. H m (world t))) (?t\<lparr>world := w\<rparr>)"
    if r: "snd r = None \<longrightarrow> fst r \<noteq> None" "if snd r = None then H n w else \<exists>m<n. H m w" for r w
  proof -
    obtain m where m: "H m w" "if snd r = None then m = n else m < n"
      using r(2) by (auto split: if_splits)
    have "healthy E (H m)" using refusalsD(1) [OF assms(1) m(1)] .
    have giv: "wp (ReturnChannel E c (snd r \<noteq> None)) (\<lambda>_ t. calm_cache t \<and> H m (world t) \<and>
        pool_st.more t = pool_st.more s) (?t\<lparr>world := w\<rparr>)"
    proof -
      let ?u = "?t\<lparr>world := w\<rparr>"
      have "wlp (ReturnChannel E c (snd r \<noteq> None)) (\<lambda>_ u. pool_st.more u = pool_st.more ?u)
          (\<lambda>_ u. pool_st.more u = pool_st.more ?u) ?u"
        by (rule keeps_wlp [THEN iffD1, rule_format, OF keeps_calls(6)])
      moreover have "wp (ReturnChannel E c (snd r \<noteq> None)) (\<lambda>_ t. calm_cache t \<and> H m (world t) \<and>
          (\<not> snd r \<noteq> None \<longrightarrow> world t = world ?u)) ?u"
        by (rule quiet_return [OF refusalsD(1) [OF assms(1) m(1)]])
          (use q m on_quiet_cong [of ?u s] in \<open>simp_all add: put_channels_def cacheBuf_def\<close>)
      ultimately show ?thesis
        by (auto simp: put_channels_def dest: wp_conj elim: wp_mono)
    qed
    show ?thesis
    proof (rule wp_seq [OF giv], elim conjE, goal_cases)
      case (1 u t)
      have f: "l < length (letterHeap t)" "receipts_ok t"
        using more_fields [OF 1(3)] assms(7,8) by (simp_all add: receipts_ok_def)
      have "if snd r = None then H n (world t) else \<exists>m<n. H m (world t)"
        using m(2) 1(2) by (auto split: if_splits)
      from wp_conj [OF quiet_after [OF assms(1) f r(1) this, of timeout]
          wp_imp_wlp [OF afterPublish_wp [OF f r(1), of E timeout]]]
      show ?case
        by (rule wp_mono) (use 1(1) in \<open>auto elim!: only_worldE
          simp: calm_cache_def on_quiet_def unflagged_def cacheBuf_def Let_def\<close>)
    qed
  qed
  have pub: "wp (publishDeferredConfirm E c l) (\<lambda>r t. only_world ?t t \<and> (snd r = None \<longrightarrow> fst r \<noteq> None) \<and>
    (if snd r = None then H n (world t) else \<exists>m<n. H m (world t))) ?t"
    by (rule quiet_publish [OF assms(1) _ _ op assms(2)]) (use assms(5,7) in \<open>simp_all add: put_channels_def\<close>)
  show ?thesis
    unfolding confirmRound_def
  proof (rule wp_seq [OF get], elim conjE, simp only:, rule wp_seq [OF pub], elim conjE, goal_cases)
    case (1 a t r u)
    from \<open>only_world ?t u\<close> obtain w where u: "u = ?t\<lparr>world := w\<rparr>" by (rule only_worldE)
    show ?case unfolding u by (rule ret) (use 1 u in \<open>auto split: if_splits\<close>)
  qed
qed

lemma PublishWithConfirmation_wp:
  assumes "finite_refusals E H" "channel_law E" "confirm_law E" "ready items s" "calm_cache s" "H n (world s)"
    and "cacheBuf s \<noteq> []" "l < length (letterHeap s)" "receipts_ok s"
  shows "wp (PublishWithConfirmation E l timeout) (\<lambda>err t. delivered E items l timeout s err t) s"
proof -
  show ?thesis
    unfolding PublishWithConfirmation_def
  proof (rule wp_forever [where n = n and I = "\<lambda>n t. idle items s t \<and> calm_cache t \<and> H n (world t)"])
    show "idle items s s \<and> calm_cache s \<and> H n (world s)"
      using assms by (simp add: idle_def same_cache_def)
    fix n t assume t: "idle items s t \<and> calm_cache t \<and> H n (world t)"
    then have "ready items t" "cacheBuf t \<noteq> []" "pool_st.more t = pool_st.more s"
      using assms(7) by (auto simp: idle_def same_cache_def)
    moreover from this have "l < length (letterHeap t)" "receipts_ok t"
      using more_fields [of t s] assms(8,9) by (simp_all add: receipts_ok_def)
    ultimately have "wp (confirmRound E l timeout) (\<lambda>c u. c = None \<longrightarrow> calm_cache u \<and> (\<exists>m<n. H m (world u))) t"
      using confirmRound_quiet [OF assms(1,3)] t by blast
    from wp_conj [OF this confirmRound_wlp [OF assms(2,3) conjunct1 [OF t] assms(7-9)]]
    show "wp (confirmRound E l timeout) (\<lambda>c u. case c of
        None \<Rightarrow> \<exists>m<n. idle items s u \<and> calm_cache u \<and> H m (world u)
      | Some err \<Rightarrow> delivered E items l timeout s err u) t"
      by (auto elim!: wp_mono split: option.splits)
  qed
qed

text \<open>
  C11: confirmed publishing comes to an end. If the broker is healthy and refuses only finitely often
  (publish errors and nacks together), \<open>PublishWithConfirmation\<close> returns, with what a return means: one
  receipt, the channel back in the cache.
\<close>

theorem PublishWithConfirmation_returns:
  assumes "finite_refusals E H" "channel_law E" "confirm_law E" "ready items s" "calm_cache s" "H n (world s)"
    and "cacheBuf s \<noteq> []" "l < length (letterHeap s)" "receipts_ok s"
  shows "\<exists>err t. PublishWithConfirmation E l timeout s = Some (Return err, t) \<and> delivered E items l timeout s err t"
  using PublishWithConfirmation_wp [OF assms] by (simp add: wp_iff)

subsection \<open>Instances\<close>

text \<open>A publisher with one letter, on a pool with one connection and one cached channel.\<close>

definition pubConf :: PublisherConfig where
  "pubConf = \<lparr>pb_AutoAck = False, SleepOnIdleInterval = 0, pb_SleepOnErrorInterval = 10,
     PublishTimeOutInterval = 100, MaxRetryCount = 5\<rparr>"

definition pub0 :: "(broker, qitem list) pub_st" where
  "pub0 = \<lparr>world = calm, connHosts = [host0], chanHosts = [chan0],
     pool = (pool started1)\<lparr>channels := (make_chan 1)\<lparr>ch_buf := [0]\<rparr>\<rparr>,
     letterHeap = [\<lparr>LetterID = 7, Body = [1, 2], opts = defaultOpts ''ex'' ''key''\<rparr>], confHeap = [],
     publisher = newPublisher 0 pubConf, receiptSenders = [], stopSenders = 0\<rparr>"

lemma pub0_ready: "ready (\<lambda>q. q) pub0"
  by (simp add: ready_def pool_inv_def heap_ok_def conn_live_def cache_ready_def cacheBuf_def pub0_def started1_def
      newPool_def chan_ok_def host0_def chan0_def openHost_def openChan_def make_chan_def slice_fits_def
      cfg1_def cfg2_def)

lemma pub0_start: "cacheBuf pub0 \<noteq> []" "0 < length (letterHeap pub0)" "receipts_ok pub0"
  by (simp_all add: pub0_def cacheBuf_def receipts_ok_def newPublisher_def chan_ok_def)

lemma scripted_confirm: "confirm_law scripted"
  by (simp add: confirm_law_def scripted_def)

text \<open>A broker that refuses every publish.\<close>

definition refusing :: "broker env" where
  "refusing = scripted\<lparr>Chan_PublishDeferred := (\<lambda>a c x k m i p w. ((None, Some refused), w))\<rparr>"

theorem PublishWithConfirmation_unbounded_witness:
  "PublishWithConfirmation refusing 0 (Duration 100 Millisecond) pub0 = None"
  by (rule PublishWithConfirmation_unbounded [OF _ _ pub0_ready pub0_start])
    (simp_all add: refusing_def channel_law_def confirm_law_def scripted_def)

text \<open>In worlds of \<open>few n\<close> the scripts still hold at most \<open>n\<close> publish errors and nacks.\<close>

definition few :: "nat \<Rightarrow> broker \<Rightarrow> bool" where
  "few n w \<longleftrightarrow> obliging w \<and> length (filter Not (publishes w)) + length (filter Not (acks w)) \<le> n"

lemma tl_refusals:
  "length (filter Not (tl xs)) \<le> length (filter Not xs)"
  "\<not> next_of True xs \<Longrightarrow> Suc (length (filter Not (tl xs))) = length (filter Not xs)"
  by (cases xs; simp)+

lemma few_mono: "few n w \<Longrightarrow> obliging v \<Longrightarrow> publishes v = publishes w \<Longrightarrow> acks v = acks w \<Longrightarrow> few n v"
  by (simp add: few_def)

lemma scripted_refusals: "finite_refusals scripted few"
  unfolding finite_refusals_def
proof (intro conjI allI impI)
  fix n show "healthy scripted (few n)"
    by (simp add: healthy_def scripted_def few_def obliging_def)
next
  fix n w d assume w: "few n w"
  show "if fst (Conf_Acked scripted d w) then few n (snd (Conf_Acked scripted d w))
      else \<exists>m<n. few m (snd (Conf_Acked scripted d w))"
    using w tl_refusals(1) [of "acks w"] tl_refusals(2) [of "acks w"]
    by (auto simp: scripted_def few_def obliging_def intro!: exI [of _ "n - 1"])
next
  fix n w a c x k md i p assume w: "few n w"
  show "if snd (fst (Chan_PublishDeferred scripted a c x k md i p w)) = None
      then few n (snd (Chan_PublishDeferred scripted a c x k md i p w))
      else \<exists>m<n. few m (snd (Chan_PublishDeferred scripted a c x k md i p w))"
    using w tl_refusals(1) [of "publishes w"] tl_refusals(2) [of "publishes w"]
    by (auto simp: scripted_def few_def obliging_def intro!: exI [of _ "n - 1"])
qed (simp_all add: scripted_def few_def obliging_def)

lemma pub0_calm: "calm_cache pub0"
  by (simp add: calm_cache_def on_quiet_def unflagged_def cacheBuf_def pub0_def started1_def newPool_def chan_ok_def
      chan0_def host0_def Let_def openChan_def)

text \<open>The first publish errs, the second is nacked, the third confirmed.\<close>

definition pub3 :: "(broker, qitem list) pub_st" where
  "pub3 = pub0\<lparr>world := calm\<lparr>publishes := [False], acks := [False]\<rparr>\<rparr>"

theorem PublishWithConfirmation_returns_witness:
  "\<exists>err t. PublishWithConfirmation scripted 0 1000 pub3 = Some (Return err, t) \<and>
     delivered scripted (\<lambda>q. q) 0 1000 pub3 err t"
  by (rule PublishWithConfirmation_returns [OF scripted_refusals scripted_channels scripted_confirm, where n = 2])
    (use pub0_ready pub0_start pub0_calm in \<open>simp_all add: pub3_def few_def obliging_def calm_def receipts_ok_def
      calm_cache_def on_quiet_def unflagged_def cacheBuf_def Let_def\<close>)

theorem PublishWithConfirmation_result_witness:
  "\<exists>err t. PublishWithConfirmation scripted 0 1000 pub0 = Some (Return err, t) \<and>
     delivered scripted (\<lambda>q. q) 0 1000 pub0 err t \<and> repaired pub0 t"
proof -
  have "wp (PublishWithConfirmation scripted 0 1000) (\<lambda>err t. delivered scripted (\<lambda>q. q) 0 1000 pub0 err t) pub0"
    by (rule PublishWithConfirmation_wp [OF scripted_refusals scripted_channels scripted_confirm pub0_ready pub0_calm _ pub0_start])
      (simp add: pub0_def few_def calm_def obliging_def)
  then obtain err t where t: "PublishWithConfirmation scripted 0 1000 pub0 = Some (Return err, t)"
    by (auto simp: wp_iff)
  from PublishWithConfirmation_result [OF scripted_channels scripted_confirm pub0_ready pub0_start t] t
  show ?thesis by auto
qed

end
