(* ===== verification/FR_Publishing.thy ===== *)
theory FR_Publishing
  imports FR_Publisher
begin

section \<open>Plain and transient publishing, queueing (publisher.go)\<close>

text \<open>
  The publishing methods without confirmation or on channels of their own, the queue of letters and
  the order of the receipts.
\<close>

subsection \<open>Publishing without confirmation\<close>

lemma publishWithContext_wp:
  assumes "l < length (letterHeap s)" "opened s c"
  shows "wp (publishWithContext E c l) (\<lambda>_ t. only_world s t) s"
  using assms by (auto simp: publishWithContext_def wp_simps opened_def)

text \<open>A report leaves the pool's side alone.\<close>

definition receipt_if :: "bool \<Rightarrow> ('w, 'q, 'x) pub_st_scheme \<Rightarrow> nat \<Rightarrow> goerror option \<Rightarrow> ('w, 'q, 'x) pub_st_scheme \<Rightarrow> bool" where
  "receipt_if receipt s l err t \<longleftrightarrow> (if receipt then reported s t l err else pool_st.more t = pool_st.more s)"

lemma receipt_if_more:
  assumes "receipt_if receipt s l err t" "pool_st.more u = pool_st.more t"
  shows "receipt_if receipt s l err u"
  using assms more_fields [of u t] by (simp add: receipt_if_def reported_def receipts_def receipts_ok_def split: if_splits)

lemma receipt_if_start:
  assumes "receipt_if receipt s l err t" "pool_st.more s = pool_st.more r"
  shows "receipt_if receipt r l err t"
  using assms by (auto simp: receipt_if_def intro: reported_start split: if_splits)

lemma receipt_step_wp:
  assumes "l < length (letterHeap s)" "receipts_ok s"
  shows "wp (if receipt then publishReceipt l err else ret ()) (\<lambda>_ t. receipt_if receipt s l err t \<and>
    chanHosts t = chanHosts s \<and> connHosts t = connHosts s \<and> pool t = pool s) s"
  using publishReceipt_wp [OF assms] by (auto simp: receipt_if_def wp_simps)

lemma ready_cong:
  assumes "chanHosts t = chanHosts s" "connHosts t = connHosts s" "pool t = pool s"
  shows "ready items t = ready items s" "opened t c = opened s c" "managed t c = managed s c" "cacheBuf t = cacheBuf s"
  using assms by (auto simp: ready_def cache_ready_def cacheBuf_def pool_inv_def heap_ok_def conn_live_def opened_def
      managed_def)

lemma channel_back:
  assumes "channel_law E" "ready items t" "c \<notin> set (cacheBuf t)" "opened t c" "managed t c"
    and "length (cacheBuf t) < ch_cap (channels (pool t))"
  shows "wlp (ReturnChannel E c erred) (\<lambda>_ u. ready items u \<and> cacheBuf u = cacheBuf t @ [c] \<and>
    ch_cap (channels (pool u)) = ch_cap (channels (pool t)) \<and> pool_st.more u = pool_st.more t) (\<lambda>_ _. False) t"
proof -
  have keep: "wlp (ReturnChannel E c erred) (\<lambda>_ u. pool_st.more u = pool_st.more t)
      (\<lambda>_ u. pool_st.more u = pool_st.more t) t"
    by (rule keeps_wlp [THEN iffD1, rule_format, OF keeps_calls(6)])
  have inv: "pool_inv items t" "cache_ready t" using assms(2) by (simp_all add: ready_def)
  show ?thesis
    by (rule wlp_mono [OF wlp_conj [OF ReturnChannel_ready [OF assms(1) inv assms(5,4,3,6)] keep]])
      (simp_all add: ready_def)
qed

lemma Publish_wlp:
  assumes "channel_law E" "ready items s" "cacheBuf s \<noteq> []" "l < length (letterHeap s)" "receipts_ok s"
  shows "wlp (Publish E l receipt) (\<lambda>err t. ready items t \<and> same_cache s t \<and> receipt_if receipt s l err t) (\<lambda>_ _. False) s"
  unfolding Publish_def
proof (rule wlp_seq [OF wp_imp_wlp [OF take_channel [OF assms(2,3)]]], elim conjE, goal_cases)
  case (1 c u)
  note f = more_fields [OF 1(2)]
  have l: "l < length (letterHeap u)" "receipts_ok u" using assms(4,5) f by (simp_all add: receipts_ok_def)
  show ?case
  proof (rule wlp_seq [OF wp_imp_wlp [OF publishWithContext_wp [OF l(1) 1(5)]]], goal_cases)
    case (1 err v)
    then obtain w where v: "v = u\<lparr>world := w\<rparr>" by (rule only_worldE)
    have lv: "l < length (letterHeap v)" "receipts_ok v" using l v by (simp_all add: receipts_ok_def)
    show ?case
    proof (rule wlp_seq [OF wp_imp_wlp [OF receipt_step_wp [OF lv]]], elim conjE, goal_cases)
      case (1 a x)
      note c = ready_cong [OF 1(2-4)]
      have giv: "wlp (ReturnChannel E c (err \<noteq> None)) (\<lambda>_ y. ready items y \<and> cacheBuf y = cacheBuf x @ [c] \<and>
          ch_cap (channels (pool y)) = ch_cap (channels (pool x)) \<and> pool_st.more y = pool_st.more x) (\<lambda>_ _. False) x"
        by (rule channel_back [OF assms(1)])
          (use \<open>ready items u\<close> \<open>c \<notin> set (cacheBuf u)\<close> \<open>opened u c\<close> \<open>managed u c\<close> 1(4)
            \<open>length (cacheBuf u) < ch_cap (channels (pool u))\<close> c v in
            \<open>simp_all add: opened_def managed_def cacheBuf_def\<close>)
      have rep: "receipt_if receipt s l err x"
        using 1(1) by (rule receipt_if_start) (use v \<open>pool_st.more u = pool_st.more s\<close> in simp)
      show ?case
      proof (rule wlp_seq [OF giv], elim conjE, goal_cases)
        case (1 a y)
        then have "receipt_if receipt s l err y" using rep receipt_if_more by blast
        moreover have "same_cache s y"
          using 1 c(4) v \<open>pool x = pool v\<close> \<open>cacheBuf s = c # cacheBuf u\<close>
            \<open>ch_cap (channels (pool u)) = ch_cap (channels (pool s))\<close>
          by (simp add: same_cache_def cacheBuf_def)
        ultimately show ?case using 1 by (simp add: wlp_ret)
      qed
    qed
  qed
qed

text \<open>
  C24: \<open>Publish\<close> from a state with a ready, non-empty cache neither panics nor parks. When it returns,
  all channels are back in the cache, reopened if the publish failed, and exactly if a receipt was
  asked for one was issued, for this letter and with the error the call returns; without one the
  letter and the publisher are untouched.
\<close>

theorem Publish_result:
  assumes "channel_law E" "ready items s" "cacheBuf s \<noteq> []" "l < length (letterHeap s)" "receipts_ok s"
    and "Publish E l receipt s = Some (r, t)"
  shows "\<exists>err. r = Return err \<and> ready items t \<and> same_cache s t \<and>
    (if receipt then reported s t l err else pool_st.more t = pool_st.more s)"
  using Publish_wlp [OF assms(1-5), of receipt] assms(6) by (cases r) (auto simp: wlp_iff receipt_if_def)

subsection \<open>Transient channels\<close>

lemma keeps_publishing [keeps_rules]:
  "keeps (publishWithContext E c l)" "keeps (publishDeferredConfirm E c l)"
  unfolding publishWithContext_def publishDeferredConfirm_def by (intro keeps_rules)+

lemma keeps_PublishWithTransient: "keeps (PublishWithTransient E K l)"
  unfolding PublishWithTransient_def by (intro keeps_rules)

lemma wp_Close: "opened s c \<Longrightarrow> (\<And>w. Q () (s\<lparr>world := w\<rparr>)) \<Longrightarrow> wp (ChannelHost_Close E c) Q s"
  by (auto simp: ChannelHost_Close_def wp_simps opened_def)

lemma transient_wlp:
  assumes "fifo_queue K items" "channel_law E" "pool_inv items s"
  shows "wlp (GetTransientChannel E K b) (\<lambda>c t. pool_inv items t \<and> cache_kept s t \<and> opened t c \<and>
      pool_st.more t = pool_st.more s) (\<lambda>p t. p = None \<and> pool_inv items t \<and> pool_st.more t = pool_st.more s) s"
proof -
  have keep: "wlp (GetTransientChannel E K b) (\<lambda>_ u. pool_st.more u = pool_st.more s)
      (\<lambda>_ u. pool_st.more u = pool_st.more s) s"
    by (rule keeps_wlp [THEN iffD1, rule_format, OF keeps_calls(4)])
  have "safe items (GetTransientChannel E K b) (\<lambda>c t. cache_kept s t \<and> opened t c) s"
    unfolding GetTransientChannel_def by (rule createCacheChannel_kept [OF assms])
  from wlp_conj [OF this [unfolded safe_def] keep] show ?thesis
    by (rule wlp_mono) auto
qed

lemma PublishWithTransient_wlp:
  assumes "fifo_queue K items" "channel_law E" "pool_inv items s" "l < length (letterHeap s)"
  shows "wlp (PublishWithTransient E K l) (\<lambda>_ t. pool_inv items t \<and> cache_kept s t \<and> pool_st.more t = pool_st.more s)
    (\<lambda>p t. p = None \<and> pool_inv items t \<and> pool_st.more t = pool_st.more s) s"
  unfolding PublishWithTransient_def
proof (rule wlp_seq [OF transient_wlp [OF assms(1-3)]], elim conjE, goal_cases)
  case (1 c t)
  have l: "l < length (letterHeap t)" using assms(4) more_fields [OF 1(4)] by simp
  have "wp (publishWithContext E c l) (\<lambda>_ u. only_world t u) t"
    by (rule publishWithContext_wp [OF l 1(3)])
  then have "wp (defer_go (recover_go (ChannelHost_Close E c)) (publishWithContext E c l)) (\<lambda>_ u. only_world t u) t"
    unfolding wp_defer
    by (rule wp_mono) (use 1(3) in \<open>auto intro!: wp_recover wp_Close elim!: only_worldE simp: opened_def\<close>)
  then show ?case
    by (intro wp_imp_wlp) (erule wp_mono, use 1 in \<open>auto elim!: only_worldE simp: cache_kept_def\<close>)
qed

text \<open>On a healthy network a transient channel is opened on the next connection of the queue.\<close>

lemma quiet_transient:
  assumes "healthy E H" "fifo_queue K items" "H (world s)" "items (connections (pool s)) = QConnHost h # xs"
    and "h < length (connHosts s)" "quiet_host (connHosts s ! h)" "unflagged s h"
    and "\<And>w a q. H w \<Longrightarrow> items q = xs @ [QConnHost h] \<Longrightarrow> Q (length (chanHosts s)) (s\<lparr>world := w,
      chanHosts := chanHosts s @ [openChan 0 (ConnectionID (connHosts s ! h)) False h a],
      pool := (pool s)\<lparr>connections := q\<rparr>\<rparr>)"
  shows "wp (GetTransientChannel E K b) Q s"
proof -
  have s: "s = withChans s (world s) [] (connections (pool s)) (ch_buf (channels (pool s)))"
    by (simp add: withChans_def)
  show ?thesis
    unfolding GetTransientChannel_def
    by (subst s, rule quiet_createCacheChannel [OF assms(1-7)]) (use assms(8) in \<open>simp add: withChans_def\<close>)
qed

text \<open>
  C26: \<open>PublishWithTransient\<close> on any network does not panic, leaves the cached channels alone, and never
  issues a receipt: whatever the outcome, the receipts, the letter and its retry count are as before.
\<close>

theorem PublishWithTransient_silent:
  assumes "fifo_queue K items" "channel_law E" "pool_inv items s" "l < length (letterHeap s)"
    and "PublishWithTransient E K l s = Some (r, t)"
  shows "(r = Blocked \<or> (\<exists>err. r = Return err) \<and> cache_kept s t) \<and> pool_inv items t \<and>
    receipts t = receipts s \<and> letterHeap t = letterHeap s \<and> publisher t = publisher s"
  using PublishWithTransient_wlp [OF assms(1-4)] assms(5) more_fields [of t s]
  by (cases r) (auto simp: wlp_iff receipts_def)

lemma confirmTransientRound_wlp:
  assumes "fifo_queue K items" "channel_law E" "confirm_law E" "l < length (letterHeap s)" "receipts_ok s"
    and t: "pool_inv items t" "cache_kept s t" "pool_st.more t = pool_st.more s"
  shows "wlp (confirmTransientRound E K l timeout) (\<lambda>c u. case c of
      None \<Rightarrow> pool_inv items u \<and> cache_kept s u \<and> pool_st.more u = pool_st.more s
    | Some err \<Rightarrow> pool_inv items u \<and> cache_kept s u \<and> reported s u l err \<and> wait_outcome E (letterHeap s ! l) timeout err)
    (\<lambda>p u. p = None \<and> pool_inv items u \<and> pool_st.more u = pool_st.more s) t"
  unfolding confirmTransientRound_def
proof (rule wlp_seq [OF wlp_mono [OF transient_wlp [OF assms(1,2) t(1)]]], assumption, use t(3) in simp, elim conjE, goal_cases)
  case (1 c u)
  then have u: "pool_inv items u" "cache_kept s u" "opened u c" "pool_st.more u = pool_st.more s"
    using t(2,3) by (auto intro: cache_kept_trans)
  note f = more_fields [OF u(4)]
  have l: "l < length (letterHeap u)" "receipts_ok u" using assms(4,5) f by (simp_all add: receipts_ok_def)
  have pub: "wp (bind_go (publishDeferredConfirm E c l) (\<lambda>r. bind_go (ChannelHost_Close E c) (\<lambda>_. ret r)))
      (\<lambda>r v. only_world u v \<and> (snd r = None \<longrightarrow> fst r \<noteq> None)) u"
    by (rule wp_seq [OF publishDeferredConfirm_wp [OF assms(3) l(1) u(3)]])
      (use u(3) in \<open>auto simp: wp_bind wp_ret opened_def intro!: wp_Close elim!: only_worldE\<close>)
  have after: "wp (afterPublish E l timeout r) (\<lambda>c x. case c of
      None \<Rightarrow> pool_inv items x \<and> cache_kept s x \<and> pool_st.more x = pool_st.more s
    | Some err \<Rightarrow> pool_inv items x \<and> cache_kept s x \<and> reported s x l err \<and> wait_outcome E (letterHeap s ! l) timeout err) v"
    if v: "only_world u v" "snd r = None \<longrightarrow> fst r \<noteq> None" for r v
  proof -
    from v(1) obtain w where v': "v = u\<lparr>world := w\<rparr>" by (rule only_worldE)
    have lv: "l < length (letterHeap v)" "receipts_ok v" "letterHeap v = letterHeap s" "pool_st.more v = pool_st.more s"
      using l f u(4) v' by (simp_all add: receipts_ok_def)
    show ?thesis
      by (rule wp_mono [OF afterPublish_wp [OF lv(1,2) v(2)]])
        (use u v' lv(3,4) reported_start [OF _ lv(4)] in
          \<open>auto split: option.splits elim!: only_worldE simp: cache_kept_def pool_inv_def heap_ok_def conn_live_def\<close>)
  qed
  have "wp (bind_go (bind_go (publishDeferredConfirm E c l) (\<lambda>r. bind_go (ChannelHost_Close E c) (\<lambda>_. ret r)))
      (afterPublish E l timeout)) (\<lambda>c x. case c of
      None \<Rightarrow> pool_inv items x \<and> cache_kept s x \<and> pool_st.more x = pool_st.more s
    | Some err \<Rightarrow> pool_inv items x \<and> cache_kept s x \<and> reported s x l err \<and> wait_outcome E (letterHeap s ! l) timeout err) u"
    by (rule wp_seq [OF pub], elim conjE, rule after)
  then show ?case by (simp add: wp_bind wp_ret wp_imp_wlp)
qed

text \<open>
  C25: \<open>PublishWithConfirmationTransient\<close> on any network does not panic. If it returns \<open>err\<close>, exactly one
  receipt was issued, for this letter and with this outcome, \<open>err\<close> is nil, the cancellation or the
  timeout error, and the cached channels are untouched; if it parks, no receipt was issued.
\<close>

theorem PublishWithConfirmationTransient_result:
  assumes "fifo_queue K items" "channel_law E" "confirm_law E" "pool_inv items s" "l < length (letterHeap s)" "receipts_ok s"
    and "PublishWithConfirmationTransient E K l timeout s = Some (r, t)"
  shows "pool_inv items t \<and> (case r of
      Return err \<Rightarrow> reported s t l err \<and> wait_outcome E (letterHeap s ! l) timeout err \<and> cache_kept s t
    | Blocked \<Rightarrow> receipts t = receipts s \<and> letterHeap t = letterHeap s
    | Panicked p \<Rightarrow> False)"
proof -
  have "wlp (PublishWithConfirmationTransient E K l timeout) (\<lambda>err u. pool_inv items u \<and> cache_kept s u \<and>
      reported s u l err \<and> wait_outcome E (letterHeap s ! l) timeout err)
    (\<lambda>p u. p = None \<and> pool_inv items u \<and> pool_st.more u = pool_st.more s) s"
    unfolding PublishWithConfirmationTransient_def
    by (rule wlp_forever [where I = "\<lambda>u. pool_inv items u \<and> cache_kept s u \<and> pool_st.more u = pool_st.more s"])
      (use assms(4) confirmTransientRound_wlp [OF assms(1-3,5,6)] in auto)
  with assms(7) more_fields [of t s] show ?thesis
    by (cases r) (auto simp: wlp_iff receipts_def)
qed

subsection \<open>The queue of letters\<close>

definition upd_letters :: "nat gochan \<Rightarrow> ('w, 'q, 'x) pub_st_scheme \<Rightarrow> ('w, 'q, 'x) pub_st_scheme" where
  "upd_letters c s = s\<lparr>publisher := (publisher s)\<lparr>letters := c\<rparr>\<rparr>"

lemma upd_letters_simps [simp]:
  "letters (publisher (upd_letters c s)) = c" "upd_letters c (upd_letters d s) = upd_letters c s"
  "upd_letters (letters (publisher s)) s = s"
  by (simp_all add: upd_letters_def)

lemma safeSend_cases:
  "safeSend l s = (let q = letters (publisher s) in
     if ch_closed q then Some (Return False, s)
     else if length (ch_buf q) < ch_cap q then Some (Return True, upd_letters (q\<lparr>ch_buf := ch_buf q @ [l]\<rparr>) s)
     else Some (Blocked, s))"
  by (simp add: safeSend_def chan_send_def upd_letters_def Let_def)

lemma QueueLetters_open:
  "\<not> ch_closed (letters (publisher s)) \<Longrightarrow> chan_ok (letters (publisher s)) \<Longrightarrow>
     QueueLetters ls s = (let q = letters (publisher s); room = ch_cap q - length (ch_buf q)
       in Some (if length ls \<le> room then Return True else Blocked,
                upd_letters (q\<lparr>ch_buf := ch_buf q @ take room ls\<rparr>) s))"
proof (induction ls arbitrary: s)
  case Nil
  then show ?case by (simp add: ret_def Let_def)
next
  case (Cons l ls)
  let ?q = "letters (publisher s)"
  show ?case
  proof (cases "length (ch_buf ?q) < ch_cap ?q")
    case True
    then obtain k where k: "ch_cap ?q - length (ch_buf ?q) = Suc k"
      by (cases "ch_cap ?q - length (ch_buf ?q)") auto
    let ?s = "upd_letters (?q\<lparr>ch_buf := ch_buf ?q @ [l]\<rparr>) s"
    have "QueueLetters ls ?s = Some (if length ls \<le> k then Return True else Blocked,
        upd_letters (?q\<lparr>ch_buf := ch_buf ?q @ l # take k ls\<rparr>) s)"
      using Cons.IH [of ?s] Cons.prems True k by (simp add: Let_def chan_ok_def diff_Suc split: nat.splits)
    with True k Cons.prems show ?thesis
      by (simp add: bind_go_def safeSend_cases Let_def)
  next
    case False
    with Cons.prems show ?thesis
      by (simp add: bind_go_def safeSend_cases Let_def chan_ok_def)
  qed
qed

text \<open>
  C27: \<open>QueueLetters\<close>, completely. On an open queue it appends the letters in order as far as there is
  room: it returns true if all fit, and otherwise parks with exactly the prefix that fits queued. On
  a closed queue it queues nothing and returns false, without a panic (for no letters at all it
  returns true). \<open>QueueLetter\<close> is the case of one letter.
\<close>

theorem QueueLetters_outcome:
  assumes "chan_ok (letters (publisher s))"
  shows "QueueLetters ls s = (let q = letters (publisher s); room = ch_cap q - length (ch_buf q) in
      if ls = [] then Some (Return True, s)
      else if ch_closed q then Some (Return False, s)
      else Some (if length ls \<le> room then Return True else Blocked,
                 upd_letters (q\<lparr>ch_buf := ch_buf q @ take room ls\<rparr>) s)) \<and>
    QueueLetter l s = QueueLetters [l] s"
proof -
  have "QueueLetters ls s = Some (Return False, s)" if "ls \<noteq> []" "ch_closed (letters (publisher s))"
    using that by (cases ls) (simp_all add: bind_go_def safeSend_cases ret_def)
  moreover have "QueueLetter l s = QueueLetters [l] s"
    by (simp add: QueueLetter_def bind_go_def safeSend_cases ret_def Let_def)
  ultimately show ?thesis
    using QueueLetters_open [OF _ assms, of ls] by (auto simp: Let_def ret_def)
qed

subsection \<open>Instances\<close>

lemma Publish0: "wp (Publish scripted 0 True) (\<lambda>err t. err = None \<and> map fst (published (world t)) = [''ex'']) pub0"
  by (simp add: Publish_def GetChannelFromPool_def publishWithContext_def ReturnChannel_def publishReceipt_def wp_simps
      get_channels_def put_channels_def chan_send_def Let_def scripted_def
      pub0_def started1_def newPool_def newPublisher_def calm_def chan0_def openChan_def make_chan_def defaultOpts_def)

theorem Publish_result_witness:
  "\<exists>t. Publish scripted 0 True pub0 = Some (Return None, t) \<and> ready (\<lambda>q. q) t \<and> same_cache pub0 t \<and>
     reported pub0 t 0 None"
proof -
  from Publish0 obtain t where t: "Publish scripted 0 True pub0 = Some (Return None, t)" by (auto simp: wp_iff)
  from Publish_result [OF scripted_channels pub0_ready pub0_start t] t show ?thesis by auto
qed

lemma pub0_transient:
  assumes "\<And>w a q. obliging w \<Longrightarrow> Q 1 (pub0\<lparr>world := w, chanHosts := [chan0, openChan 0 0 False 0 a],
      pool := (pool pub0)\<lparr>connections := q\<rparr>\<rparr>)"
  shows "wp (GetTransientChannel scripted list_queue b) Q pub0"
  by (rule quiet_transient [OF scripted_healthy list_queue_fifo, where h = 0 and xs = "[]"])
    (use assms in \<open>simp_all add: pub0_def started1_def host0_def unflagged_def newPool_def\<close>)

lemma transient0: "wp (PublishWithTransient scripted list_queue 0) (\<lambda>_ _. True) pub0"
  unfolding PublishWithTransient_def wp_bind
  by (rule pub0_transient)
    (simp add: publishWithContext_def ChannelHost_Close_def wp_simps openChan_def pub0_def wp_recover)

theorem PublishWithTransient_silent_witness:
  "\<exists>r t. PublishWithTransient scripted list_queue 0 pub0 = Some (Return r, t) \<and> cache_kept pub0 t \<and> receipts t = []"
proof -
  obtain r t where t: "PublishWithTransient scripted list_queue 0 pub0 = Some (Return r, t)"
    using transient0 by (auto simp: wp_iff)
  have "pool_inv (\<lambda>q. q) pub0" using pub0_ready by (simp add: ready_def)
  from PublishWithTransient_silent [OF list_queue_fifo scripted_channels this pub0_start(2) t] t show ?thesis
    by (auto simp: receipts_def pub0_def newPublisher_def)
qed

theorem QueueLetters_outcome_witness:
  "\<exists>t. QueueLetters [0, 0] pub0 = Some (Return True, t) \<and> ch_buf (letters (publisher t)) = [0, 0]"
  using QueueLetters_outcome [of pub0 "[0, 0]" 0]
  by (simp add: pub0_def newPublisher_def chan_ok_def Let_def upd_letters_def)

lemma confirmTransient0:
  "wp (PublishWithConfirmationTransient scripted list_queue 0 1000) (\<lambda>err t. True) pub0"
proof -
  have "wp (confirmTransientRound scripted list_queue 0 1000) (\<lambda>c t. c \<noteq> None) (pub0\<lparr>world := calm\<rparr>)"
    unfolding confirmTransientRound_def wp_bind
    by (rule quiet_transient [where H = "\<lambda>w. obliging w \<and> confirms w = [] \<and> acks w = [] \<and> publishes w = []" and h = 0
          and xs = "[]", OF _ list_queue_fifo])
      (simp_all add: healthy_def obliging_def calm_def pub0_def started1_def host0_def unflagged_def newPool_def
        publishDeferredConfirm_def ChannelHost_Close_def afterPublish_def waitPublishConfirmation_def
        publishReceipt_def wp_simps openChan_def scripted_def)
  then have "wp (confirmTransientRound scripted list_queue 0 1000) (\<lambda>c t. c \<noteq> None) pub0"
    by (simp add: pub0_def)
  then show ?thesis
    unfolding PublishWithConfirmationTransient_def
    by (intro wp_forever [where n = 0 and I = "\<lambda>_ t. t = pub0"]) (auto elim!: wp_mono split: option.splits)
qed

theorem PublishWithConfirmationTransient_result_witness:
  "\<exists>err t. PublishWithConfirmationTransient scripted list_queue 0 1000 pub0 = Some (Return err, t) \<and>
     reported pub0 t 0 err \<and> cache_kept pub0 t"
proof -
  obtain err t where t: "PublishWithConfirmationTransient scripted list_queue 0 1000 pub0 = Some (Return err, t)"
    using confirmTransient0 by (auto simp: wp_iff)
  have "pool_inv (\<lambda>q. q) pub0" using pub0_ready by (simp add: ready_def)
  from PublishWithConfirmationTransient_result
    [OF list_queue_fifo scripted_channels scripted_confirm this pub0_start(2,3) t] t show ?thesis
    by auto
qed

end
