(* ===== verification/FR_AutoPublish.thy ===== *)
theory FR_AutoPublish
  imports FR_Publishing
begin

section \<open>The auto publisher (publisher.go)\<close>

text \<open>
  \<^verbatim>\<open>StartAutoPublishing\<close> starts a loop goroutine; the loop takes letters off the queue and starts one
  goroutine per letter that runs \<^verbatim>\<open>PublishWithConfirmation\<close>, as many at a time as its semaphore allows.
  Goroutines are program counters in the state: \<open>loops\<close> holds one per start, \<open>workers\<close> one per letter
  together with the loop (and hence the semaphore) it belongs to. A step of the machine is a client's
  call or one step of one goroutine: a receive, a send, a call of the pool, a publish, a wait. A
  parked goroutine has no step; a panic ends the program (\<open>crashed\<close>). \<open>accepted\<close> and \<open>taken\<close> are
  history: the letters taken into the queue and the receipts the client has read.
\<close>

datatype loop_pc =
    LoopSelect
  | PublishSelect
  | HaveLetter "nat option"
  | SelectStop
  | LoopExit
  | LoopEnded

datatype worker =
    WStart "nat option"
  | WHolds "nat option" nat
  | WSent nat nat "nat option \<times> goerror option"
  | WWait nat "nat option \<times> goerror option"
  | WDone nat "goerror option"

record ('w, 'q) auto_st = "('w, 'q) pub_st" +
  loops :: "loop_pc list"
  workers :: "(nat \<times> worker) list"
  accepted :: "nat list"
  taken :: "PublishReceipt list"
  crashed :: bool

subsection \<open>The goroutine of one letter\<close>

text \<open>
  \<^verbatim>\<open>PublishWithConfirmation\<close> cut where other goroutines may run. A nil letter is dereferenced when it is
  published, after a channel was taken. The receive from the semaphore at the end takes the
  goroutine's own token, so it does not wait: \<open>WDone\<close> no longer holds one.
\<close>

definition worker_go ::
  "('w, 'e) env_scheme \<Rightarrow> duration \<Rightarrow> worker \<Rightarrow> (('w, 'q, 'x) pub_st_scheme, worker) go" where
  "worker_go E timeout wk = (case wk of
       WStart lo \<Rightarrow> bind_go GetChannelFromPool (\<lambda>c. ret (WHolds lo c))
     | WHolds lo c \<Rightarrow> (case lo of
           None \<Rightarrow> panic_go NilDereference
         | Some l \<Rightarrow> bind_go (publishDeferredConfirm E c l) (\<lambda>r. ret (WSent l c r)))
     | WSent l c r \<Rightarrow> bind_go (ReturnChannel E c (snd r \<noteq> None)) (\<lambda>_. ret (WWait l r))
     | WWait l r \<Rightarrow> bind_go (afterPublish E l timeout r) (\<lambda>res. ret (case res of
           None \<Rightarrow> WStart (Some l) | Some err \<Rightarrow> WDone l err))
     | WDone l err \<Rightarrow> block_go)"

definition finished :: "worker \<Rightarrow> bool" where
  "finished wk = (case wk of WDone l err \<Rightarrow> True | _ \<Rightarrow> False)"

subsection \<open>The loop\<close>

text \<open>A receive from \<open>autoStop\<close>; a goroutine of \<^verbatim>\<open>stopAutoPublish\<close> that waits for room can then send.\<close>

definition recvStop :: "(('w, 'q, 'x) pub_st_scheme, bool received) go" where
  "recvStop = (\<lambda>s. case chan_recv (autoStop (publisher s)) of
       (Received b, c) \<Rightarrow>
         (if stopSenders s = 0 then Some (Return (Received b), s\<lparr>publisher := (publisher s)\<lparr>autoStop := c\<rparr>\<rparr>)
          else Some (Return (Received b), s\<lparr>publisher := (publisher s)\<lparr>autoStop := c\<lparr>ch_buf := ch_buf c @ [True]\<rparr>\<rparr>,
                       stopSenders := stopSenders s - 1\<rparr>))
     | (v, c) \<Rightarrow> Some (Return v, s))"

definition set_loop :: "nat \<Rightarrow> loop_pc \<Rightarrow> (('w, 'q, 'x) auto_st_scheme, unit) go" where
  "set_loop j pc = modify_go (\<lambda>s. s\<lparr>loops := (loops s)[j := pc]\<rparr>)"

text \<open>The semaphore: capacity \<^verbatim>\<open>MaxCacheChannelCount/2 + 1\<close>, one token per unfinished goroutine of the loop.\<close>

definition semaphoreCap :: "('w, 'q, 'x) pool_st_scheme \<Rightarrow> nat" where
  "semaphoreCap s = unat (MaxCacheChannelCount (Config (pool s)) div 2 + 1)"

definition busy :: "nat \<Rightarrow> ('w, 'q, 'x) auto_st_scheme \<Rightarrow> nat" where
  "busy j s = length (filter (\<lambda>(k, wk). k = j \<and> \<not> finished wk) (workers s))"

definition StartAutoPublishing :: "(('w, 'q, 'x) auto_st_scheme, unit) go" where
  "StartAutoPublishing =
     bind_go (gets_go publisher) (\<lambda>pub.
       if \<not> autoStarted pub then
         bind_go (upd_pub (\<lambda>p. p\<lparr>autoStarted := True\<rparr>)) (\<lambda>_.
         modify_go (\<lambda>s. s\<lparr>loops := loops s @ [LoopSelect]\<rparr>))
       else ret ())"

text \<open>One step of \<^verbatim>\<open>deliverLetters\<close>, which returns only after it closed the queue.\<close>

definition deliverLetters :: "('w, 'e) env_scheme \<Rightarrow> nat \<Rightarrow> loop_pc \<Rightarrow> (('w, 'q, 'x) auto_st_scheme, unit) go" where
  "deliverLetters E j pc = (case pc of
       PublishSelect \<Rightarrow>
         bind_go (recv_field (\<lambda>s. letters (publisher s)) upd_letters) (\<lambda>r. case r of
           Received l \<Rightarrow> set_loop j (HaveLetter (Some l))
         | ZeroValue \<Rightarrow> set_loop j (HaveLetter None)
         | WouldBlock \<Rightarrow>
             bind_go (gets_go publisher) (\<lambda>pub.
             bind_go (env_do (time_Sleep E (sleepOnIdle pub))) (\<lambda>_. set_loop j SelectStop)))
     | HaveLetter lo \<Rightarrow>
         bind_go (gets_go (\<lambda>s. busy j s < semaphoreCap s)) (\<lambda>free.
           if free then
             bind_go (modify_go (\<lambda>s. s\<lparr>workers := workers s @ [(j, WStart lo)]\<rparr>)) (\<lambda>_.
             set_loop j PublishSelect)
           else block_go)
     | SelectStop \<Rightarrow>
         bind_go recvStop (\<lambda>r.
           if r = Received True then
             bind_go (gets_go publisher) (\<lambda>pub. case chan_close (letters pub) of
               Return c \<Rightarrow> bind_go (modify_go (upd_letters c)) (\<lambda>_. set_loop j LoopExit)
             | Panicked p \<Rightarrow> panic_go p
             | Blocked \<Rightarrow> block_go)
           else set_loop j PublishSelect)
     | _ \<Rightarrow> block_go)"

definition startAutoPublishingLoop ::
  "('w, 'e) env_scheme \<Rightarrow> nat \<Rightarrow> loop_pc \<Rightarrow> (('w, 'q, 'x) auto_st_scheme, unit) go" where
  "startAutoPublishingLoop E j pc = (case pc of
       LoopSelect \<Rightarrow>
         bind_go recvStop (\<lambda>r. if r = Received True then set_loop j LoopExit else set_loop j PublishSelect)
     | LoopExit \<Rightarrow>
         bind_go (upd_pub (\<lambda>p. p\<lparr>autoStarted := False\<rparr>)) (\<lambda>_. set_loop j LoopEnded)
     | LoopEnded \<Rightarrow> block_go
     | _ \<Rightarrow> deliverLetters E j pc)"

subsection \<open>The machine\<close>

datatype auto_event =
    EvQueue nat
  | EvStart
  | EvStop
  | EvReceipt
  | EvLoop nat
  | EvWorker nat

fun run_auto :: "('w, 'e) env_scheme \<Rightarrow> auto_event \<Rightarrow> (('w, 'q, 'x) auto_st_scheme, unit) go" where
  "run_auto E (EvQueue l) =
     bind_go (QueueLetter l) (\<lambda>ok. if ok then modify_go (\<lambda>s. s\<lparr>accepted := accepted s @ [l]\<rparr>) else ret ())"
| "run_auto E EvStart = StartAutoPublishing"
| "run_auto E EvStop = stopAutoPublish"
| "run_auto E EvReceipt =
     bind_go recvReceipt (\<lambda>v. case v of
       Received r \<Rightarrow> modify_go (\<lambda>s. s\<lparr>taken := taken s @ [r]\<rparr>) | ZeroValue \<Rightarrow> ret () | WouldBlock \<Rightarrow> ret ())"
| "run_auto E (EvLoop j) =
     bind_go (gets_go loops) (\<lambda>ls. if j < length ls then startAutoPublishingLoop E j (ls ! j) else block_go)"
| "run_auto E (EvWorker i) =
     bind_go (gets_go workers) (\<lambda>ws.
       if i < length ws then
         bind_go (gets_go publisher) (\<lambda>pub.
         bind_go (worker_go E (PublishTimeout pub) (snd (ws ! i))) (\<lambda>wk.
         modify_go (\<lambda>s. s\<lparr>workers := (workers s)[i := (fst (ws ! i), wk)]\<rparr>)))
       else block_go)"

text \<open>Clients queue letters that exist.\<close>

definition event_ok :: "('w, 'q, 'x) auto_st_scheme \<Rightarrow> auto_event \<Rightarrow> bool" where
  "event_ok s ev = (case ev of EvQueue l \<Rightarrow> l < length (letterHeap s) | _ \<Rightarrow> True)"

inductive auto_step ::
  "('w, 'e) env_scheme \<Rightarrow> ('w, 'q, 'x) auto_st_scheme \<Rightarrow> ('w, 'q, 'x) auto_st_scheme \<Rightarrow> bool"
  for E where
  auto_run: "\<not> crashed s \<Longrightarrow> event_ok s ev \<Longrightarrow> run_auto E ev s = Some (Return (), t) \<Longrightarrow> auto_step E s t"
| auto_crash: "\<not> crashed s \<Longrightarrow> event_ok s ev \<Longrightarrow> run_auto E ev s = Some (Panicked p, t) \<Longrightarrow>
    auto_step E s (t\<lparr>crashed := True\<rparr>)"

inductive_cases auto_stepE: "auto_step E s t"

text \<open>A worker that runs alone is \<^verbatim>\<open>PublishWithConfirmation\<close>.\<close>

definition worker_round ::
  "('w, 'e) env_scheme \<Rightarrow> nat \<Rightarrow> duration \<Rightarrow> (('w, 'q, 'x) pub_st_scheme, goerror option option) go" where
  "worker_round E l timeout =
     bind_go (worker_go E timeout (WStart (Some l))) (\<lambda>w1.
     bind_go (worker_go E timeout w1) (\<lambda>w2.
     bind_go (worker_go E timeout w2) (\<lambda>w3.
     bind_go (worker_go E timeout w3) (\<lambda>w4. ret (case w4 of WDone l err \<Rightarrow> Some err | _ \<Rightarrow> None)))))"

lemma worker_round_eq: "worker_round E l timeout = confirmRound E l timeout"
proof -
  have "(case (case res of None \<Rightarrow> WStart (Some l) | Some err \<Rightarrow> WDone l err) of WDone l err \<Rightarrow> Some err | _ \<Rightarrow> None) = res"
    for res :: "goerror option option" by (cases res) simp_all
  then show ?thesis
    by (simp add: worker_round_def worker_go_def confirmRound_def bind_assoc bind_ret)
qed

text \<open>
  The goroutine of a letter, run alone, is \<open>PublishWithConfirmation\<close>: cutting the method into
  atomic steps has neither lost nor added behaviour.
\<close>

lemma worker_is_PublishWithConfirmation:
  "forever (worker_round E l timeout) = PublishWithConfirmation E l timeout"
  by (simp add: PublishWithConfirmation_def worker_round_eq)

subsection \<open>What a worker's step does\<close>

fun worker_letter :: "worker \<Rightarrow> nat option" where
  "worker_letter (WStart lo) = lo"
| "worker_letter (WHolds lo c) = lo"
| "worker_letter (WSent l c r) = Some l"
| "worker_letter (WWait l r) = Some l"
| "worker_letter (WDone l err) = Some l"

fun worker_chan :: "worker \<Rightarrow> nat multiset" where
  "worker_chan (WHolds lo c) = {#c#}"
| "worker_chan (WSent l c r) = {#c#}"
| "worker_chan _ = {#}"

text \<open>A publish that did not err left a confirmation to wait for.\<close>

fun worker_ok :: "worker \<Rightarrow> bool" where
  "worker_ok (WSent l c r) = (snd r = None \<longrightarrow> fst r \<noteq> None)"
| "worker_ok (WWait l r) = (snd r = None \<longrightarrow> fst r \<noteq> None)"
| "worker_ok _ = True"

text \<open>The channels are usable, and each is in the cache or in the hands of one goroutine.\<close>

definition usable :: "('w, 'q, 'x) pool_st_scheme \<Rightarrow> nat \<Rightarrow> bool" where
  "usable s c \<longleftrightarrow> opened s c \<and> managed s c"

definition stepped :: "('q \<Rightarrow> qitem list) \<Rightarrow> worker \<Rightarrow> ('w, 'q, 'x) pub_st_scheme \<Rightarrow> worker \<Rightarrow> ('w, 'q, 'x) pub_st_scheme \<Rightarrow> bool" where
  "stepped items wk s wk' t \<longleftrightarrow> pool_inv items t \<and> Config (pool t) = Config (pool s) \<and>
     ch_cap (channels (pool t)) = ch_cap (channels (pool s)) \<and>
     mset (cacheBuf t) + worker_chan wk' = mset (cacheBuf s) + worker_chan wk \<and>
     (\<forall>c. usable s c \<longrightarrow> usable t c) \<and> worker_letter wk' = worker_letter wk \<and> \<not> finished wk \<and> worker_ok wk' \<and>
     pub_st.more t = pub_st.more s \<and>
     (case wk' of WDone l err \<Rightarrow> reported s t l err | _ \<Rightarrow> pool_st.more t = pool_st.more s)"

lemma afterPublish_more: "wlp (afterPublish E l timeout r) (\<lambda>_ t. pub_st.more t = pub_st.more s) (\<lambda>_ _. True) s"
  by (auto simp: afterPublish_def waitPublishConfirmation_def publishReceipt_def sleep_if_positive_def wp_simps Let_def
      split: option.splits confirm_event.splits result.splits)

lemma more_pub: "pool_st.more t = pool_st.more (s :: ('w, 'q, 'x) pub_st_scheme) \<Longrightarrow> pub_st.more t = pub_st.more s"
  by (cases s; cases t; simp)

lemma worker_take:
  assumes "pool_inv items s"
  shows "wlp (worker_go E timeout (WStart lo)) (\<lambda>wk' t. stepped items (WStart lo) s wk' t) (\<lambda>p _. p = None) s"
  using assms
  by (cases "cacheBuf s")
    (auto simp: worker_go_def GetChannelFromPool_def wp_simps get_channels_def put_channels_def cacheBuf_def pool_inv_def
      heap_ok_def conn_live_def chan_ok_def stepped_def usable_def opened_def managed_def finished_def)

lemma worker_publish:
  assumes "confirm_law E" "pool_inv items s" "l < length (letterHeap s)" "opened s c"
  shows "wlp (worker_go E timeout (WHolds (Some l) c)) (\<lambda>wk' t. stepped items (WHolds (Some l) c) s wk' t) (\<lambda>_ _. False) s"
proof -
  have "wlp (publishDeferredConfirm E c l) (\<lambda>r t. only_world s t \<and> (snd r = None \<longrightarrow> fst r \<noteq> None)) (\<lambda>_ _. False) s"
    by (rule wp_imp_wlp [OF publishDeferredConfirm_wp [OF assms(1,3,4)]])
  then show ?thesis
    unfolding worker_go_def worker.case option.case wlp_bind
    by (rule wlp_mono) (use assms(2) in \<open>auto elim!: only_worldE simp: wlp_ret stepped_def usable_def opened_def managed_def
      cacheBuf_def finished_def\<close>)
qed

lemma worker_return:
  assumes "channel_law E" "pool_inv items s" "cache_ready s" "usable s c" "c \<notin> set (cacheBuf s)"
    and "length (cacheBuf s) < ch_cap (channels (pool s))" "worker_ok (WSent l c r)"
  shows "wlp (worker_go E timeout (WSent l c r)) (\<lambda>wk' t. stepped items (WSent l c r) s wk' t) (\<lambda>_ _. False) s"
proof -
  have c: "managed s c" "opened s c" using assms(4) by (simp_all add: usable_def)
  have keep: "wlp (ReturnChannel E c (snd r \<noteq> None)) (\<lambda>_ u. pool_st.more u = pool_st.more s)
      (\<lambda>_ u. pool_st.more u = pool_st.more s) s"
    by (rule keeps_wlp [THEN iffD1, rule_format, OF keeps_calls(6)])
  have us: "usable t d" if "returned c s t" "usable s d" for t d
    using that by (cases "d = c") (auto simp: returned_def usable_def opened_def intro: managed_ext dest: heap_ext_length)
  show ?thesis
    unfolding worker_go_def worker.case wlp_bind
    by (rule wlp_mono [OF wlp_conj [OF ReturnChannel_ready [OF assms(1-3) c assms(5,6)] keep]])
      (use assms(7) us in \<open>auto simp: wlp_ret stepped_def finished_def returned_def dest: more_pub\<close>)
qed

lemma worker_wait:
  assumes "pool_inv items s" "l < length (letterHeap s)" "receipts_ok s" "worker_ok (WWait l r)"
  shows "wlp (worker_go E timeout (WWait l r)) (\<lambda>wk' t. stepped items (WWait l r) s wk' t) (\<lambda>_ _. False) s"
proof -
  have r: "snd r = None \<longrightarrow> fst r \<noteq> None" using assms(4) by simp
  have "wlp (afterPublish E l timeout r) (\<lambda>res t. stepped items (WWait l r) s
      (case res of None \<Rightarrow> WStart (Some l) | Some err \<Rightarrow> WDone l err) t) (\<lambda>_ _. False) s"
    by (rule wlp_mono [OF wlp_conj [OF wp_imp_wlp [OF afterPublish_wp [OF assms(2,3) r]] afterPublish_more]])
      (use assms(1) in \<open>auto simp: stepped_def finished_def usable_def opened_def managed_def cacheBuf_def pool_inv_def
        heap_ok_def conn_live_def elim!: only_worldE split: option.splits\<close>)
  then show ?thesis
    unfolding worker_go_def worker.case wlp_bind by (rule wlp_mono) (simp_all add: wlp_ret)
qed

text \<open>All kinds of steps together; the only panic is that of a nil letter.\<close>

lemma worker_go_wlp:
  assumes "channel_law E" "confirm_law E" "pool_inv items s" "cache_ready s" "receipts_ok s" "worker_ok wk"
    and "\<And>c. c \<in># worker_chan wk \<Longrightarrow> usable s c \<and> c \<notin> set (cacheBuf s) \<and> length (cacheBuf s) < ch_cap (channels (pool s))"
    and "\<And>l. worker_letter wk = Some l \<Longrightarrow> l < length (letterHeap s)"
  shows "wlp (worker_go E timeout wk) (\<lambda>wk' t. stepped items wk s wk' t)
    (\<lambda>p t. p \<noteq> None \<longrightarrow> t = s \<and> worker_letter wk = None) s"
proof (cases wk)
  case (WStart lo)
  show ?thesis unfolding WStart by (rule wlp_mono [OF worker_take [OF assms(3)]]) simp_all
next
  case (WHolds lo c)
  then have c: "opened s c" using assms(7) by (simp add: usable_def)
  show ?thesis
  proof (cases lo)
    case None
    with WHolds show ?thesis by (simp add: worker_go_def wlp_panic)
  next
    case (Some l)
    with WHolds assms(8) have l: "l < length (letterHeap s)" by simp
    show ?thesis unfolding WHolds Some
      by (rule wlp_mono [OF worker_publish [OF assms(2,3) l c]]) simp_all
  qed
next
  case (WSent l c r)
  then have c: "usable s c" "c \<notin> set (cacheBuf s)" "length (cacheBuf s) < ch_cap (channels (pool s))"
    using assms(7) by simp_all
  show ?thesis using assms(6) unfolding WSent
    by (intro wlp_mono [OF worker_return [OF assms(1,3,4) c]]) simp_all
next
  case (WWait l r)
  show ?thesis using assms(6,8) unfolding WWait
    by (intro wlp_mono [OF worker_wait [OF assms(3) _ assms(5)]]) simp_all
next
  case (WDone l err)
  then show ?thesis by (simp add: worker_go_def wlp_block)
qed

subsection \<open>The invariant\<close>

definition held :: "('w, 'q, 'x) auto_st_scheme \<Rightarrow> nat multiset" where
  "held s = (\<Sum>(k, wk)\<leftarrow>workers s. worker_chan wk)"

definition chan_inv :: "nat multiset \<Rightarrow> ('w, 'q, 'x) auto_st_scheme \<Rightarrow> bool" where
  "chan_inv C s \<longleftrightarrow> mset (cacheBuf s) + held s = C \<and> (\<forall>c \<in># C. usable s c) \<and> (\<forall>c. count C c \<le> 1) \<and>
     size C \<le> ch_cap (channels (pool s))"

text \<open>A letter a loop has received and not yet handed over.\<close>

fun pending :: "loop_pc \<Rightarrow> nat option list" where
  "pending (HaveLetter lo) = [lo]"
| "pending _ = []"

definition inFlight :: "('w, 'q, 'x) auto_st_scheme \<Rightarrow> nat option list" where
  "inFlight s = map (worker_letter \<circ> snd) (workers s) @ concat (map pending (loops s))"

definition loop_inv :: "('w, 'q, 'x) auto_st_scheme \<Rightarrow> bool" where
  "loop_inv s \<longleftrightarrow> length (filter (\<lambda>pc. pc \<noteq> LoopEnded) (loops s)) = (if autoStarted (publisher s) then 1 else 0)"

definition queue_inv :: "('w, 'q, 'x) auto_st_scheme \<Rightarrow> bool" where
  "queue_inv s \<longleftrightarrow> accepted s = somes (inFlight s) @ ch_buf (letters (publisher s)) \<and>
     (\<forall>l \<in> set (accepted s). l < length (letterHeap s))"

definition nil_inv :: "('w, 'q, 'x) auto_st_scheme \<Rightarrow> bool" where
  "nil_inv s \<longleftrightarrow> (\<not> ch_closed (letters (publisher s)) \<longrightarrow> None \<notin> set (inFlight s) \<and> \<not> crashed s)"

text \<open>The outcomes the finished goroutines have reported.\<close>

definition outcome :: "('w, 'q, 'x) auto_st_scheme \<Rightarrow> worker \<Rightarrow> (uint64 \<times> goerror option) multiset" where
  "outcome s wk = (case wk of WDone l err \<Rightarrow> {#(LetterID (letterHeap s ! l), err)#} | _ \<Rightarrow> {#})"

definition report_inv :: "('w, 'q, 'x) auto_st_scheme \<Rightarrow> bool" where
  "report_inv s \<longleftrightarrow> receipts_ok s \<and>
     mset (map (\<lambda>r. (receipt_LetterID r, receipt_Error r)) (taken s @ receipts s)) = (\<Sum>(k, wk)\<leftarrow>workers s. outcome s wk)"

definition auto_inv ::
  "('q \<Rightarrow> qitem list) \<Rightarrow> nat multiset \<Rightarrow> ('w, 'q, 'x) auto_st_scheme \<Rightarrow> bool" where
  "auto_inv items C s \<longleftrightarrow> pool_inv items s \<and> chan_inv C s \<and> loop_inv s \<and> (\<forall>j. busy j s \<le> semaphoreCap s) \<and>
     queue_inv s \<and> nil_inv s \<and> report_inv s \<and> (\<forall>(k, wk) \<in> set (workers s). worker_ok wk)"

subsection \<open>Every step keeps the invariant\<close>

lemma auto_fields:
  assumes "pub_st.more t = pub_st.more (s :: ('w, 'q, 'x) auto_st_scheme)"
  shows "loops t = loops s" "workers t = workers s" "accepted t = accepted s" "taken t = taken s" "crashed t = crashed s"
  using assms by (cases s; cases t; simp)+

lemma stepped_fields:
  assumes "stepped items wk s wk' t"
  shows "letters (publisher t) = letters (publisher s)" "autoStarted (publisher t) = autoStarted (publisher s)"
    "length (letterHeap t) = length (letterHeap s)" "LetterID (letterHeap t ! n) = LetterID (letterHeap s ! n)"
  using assms more_fields [of t s]
  by (cases wk'; auto simp: stepped_def reported_def counted_def intro!: nth_update_proj)+

lemma worker_keeps_chan:
  assumes "chan_inv C s" "stepped items wk s wk' t" "i < length (workers s)" "workers s ! i = (k, wk)"
  shows "chan_inv C (t\<lparr>workers := (workers t)[i := (k, wk')]\<rparr>)"
proof -
  let ?t = "t\<lparr>workers := (workers t)[i := (k, wk')]\<rparr>"
  note st = assms(2) [unfolded stepped_def]
  have "held ?t + worker_chan wk = held s + worker_chan wk'"
    using sum_list_step [OF assms(3), of "\<lambda>(k, wk). worker_chan wk" "(k, wk')"] assms(4) auto_fields [of t s] st
    by (simp add: held_def)
  moreover have "mset (cacheBuf t) + worker_chan wk' = mset (cacheBuf s) + worker_chan wk" using st by blast
  ultimately have "mset (cacheBuf t) + held ?t = mset (cacheBuf s) + held s"
    by (rule swap_sums)
  then show ?thesis
    using assms(1) st by (auto simp: chan_inv_def cacheBuf_def usable_def opened_def managed_def)
qed

lemma worker_keeps_busy:
  assumes "stepped items wk s wk' t" "i < length (workers s)" "workers s ! i = (k, wk)"
  shows "busy j (t\<lparr>workers := (workers t)[i := (k, wk')]\<rparr>) \<le> busy j s"
  using sum_list_step [OF assms(2), of "\<lambda>(k, wk). if k = j \<and> \<not> finished wk then 1 else 0 :: nat" "(k, wk')"]
    assms auto_fields [of t s]
  by (auto simp: busy_def length_filter_sum stepped_def case_prod_beta split: if_splits)

lemma worker_keeps_reports:
  assumes "report_inv s" "stepped items wk s wk' t" "i < length (workers s)" "workers s ! i = (k, wk)"
  shows "report_inv (t\<lparr>workers := (workers t)[i := (k, wk')]\<rparr>)"
proof -
  let ?t = "t\<lparr>workers := (workers t)[i := (k, wk')]\<rparr>"
  note st = assms(2) [unfolded stepped_def]
  have out: "outcome ?t = outcome s" "outcome s wk = {#}"
    using stepped_fields(4) [OF assms(2)] st by (auto simp: outcome_def fun_eq_iff finished_def split: worker.splits)
  have sum: "(\<Sum>(k, wk)\<leftarrow>workers ?t. outcome ?t wk) = (\<Sum>(k, wk)\<leftarrow>workers s. outcome s wk) + outcome s wk'"
    using sum_list_step [OF assms(3), of "\<lambda>(k, wk). outcome s wk" "(k, wk')"] assms(4) auto_fields [of t s] st out
    by simp
  show ?thesis
  proof (cases "\<exists>l err. wk' = WDone l err")
    case True
    then obtain l err where wk': "wk' = WDone l err" by blast
    with st have "reported s t l err" by simp
    with assms(1) sum wk' auto_fields [of t s] st show ?thesis
      by (simp add: report_inv_def reported_def receipts_def receipts_ok_def outcome_def receipt_for_def)
  next
    case False
    then have "pool_st.more t = pool_st.more s" "outcome s wk' = {#}"
      using st by (cases wk'; simp add: outcome_def)+
    with assms(1) sum auto_fields [of t s] more_fields [of t s] st show ?thesis
      by (simp add: report_inv_def receipts_def receipts_ok_def)
  qed
qed

lemma worker_keeps_inv:
  assumes "auto_inv items C s" "stepped items wk s wk' t" "i < length (workers s)" "workers s ! i = (k, wk)"
  shows "auto_inv items C (t\<lparr>workers := (workers t)[i := (k, wk')]\<rparr>)"
proof -
  let ?t = "t\<lparr>workers := (workers t)[i := (k, wk')]\<rparr>"
  note st = assms(2) [unfolded stepped_def] and inv = assms(1) [unfolded auto_inv_def]
  note f = auto_fields [of t s] stepped_fields [OF assms(2)]
  have fl: "inFlight ?t = inFlight s"
    using f st nth_map_update [OF assms(3), of "worker_letter \<circ> snd" "(k, wk')"] assms(4) by (simp add: inFlight_def)
  have "busy j ?t \<le> semaphoreCap ?t" for j
    using worker_keeps_busy [OF assms(2-4), of j] inv st by (auto simp: semaphoreCap_def intro: order_trans)
  moreover have "\<forall>(k, wk) \<in> set (workers ?t). worker_ok wk"
    using inv st f by (auto dest!: set_update_subset_insert [THEN subsetD])
  moreover have "pool_inv items t" using st by blast
  then have "pool_inv items ?t" by (simp add: pool_inv_def heap_ok_def conn_live_def)
  ultimately show ?thesis
    using inv st f fl worker_keeps_chan [OF _ assms(2-4)] worker_keeps_reports [OF _ assms(2-4)]
    unfolding auto_inv_def by (simp add: loop_inv_def queue_inv_def nil_inv_def)
qed

text \<open>There is at most one loop that has not ended.\<close>

lemma only_loop:
  assumes "length (filter (\<lambda>pc. pc \<noteq> LoopEnded) ls) \<le> 1" "j < length ls" "ls ! j \<noteq> LoopEnded"
  shows "concat (map pending ls) = pending (ls ! j)" "concat (map pending (ls[j := pc])) = pending pc"
    and "length (filter (\<lambda>pc. pc \<noteq> LoopEnded) (ls[j := pc])) = (if pc = LoopEnded then 0 else 1)"
proof -
  obtain us x vs where ls: "ls = us @ x # vs" and j: "length us = j"
    using assms(2) by (metis id_take_nth_drop length_take less_imp_le_nat min.absorb2)
  have x: "ls ! j = x" and up: "ls[j := pc] = us @ pc # vs" unfolding ls j [symmetric] by simp_all
  have "filter (\<lambda>pc. pc \<noteq> LoopEnded) us = []" "filter (\<lambda>pc. pc \<noteq> LoopEnded) vs = []"
    using assms(1,3) unfolding x unfolding ls by simp_all
  then have ended: "\<forall>pc \<in> set us \<union> set vs. pc = LoopEnded" by (auto simp: filter_empty_conv)
  have none: "pending pc = []" if "pc \<in> set us \<union> set vs" for pc
  proof -
    from ended that have "pc = LoopEnded" by blast
    then show ?thesis by simp
  qed
  have nn: "concat (map pending us) = []" "concat (map pending vs) = []" using none by simp_all
  show "concat (map pending ls) = pending (ls ! j)" "concat (map pending (ls[j := pc])) = pending pc"
    unfolding up x unfolding ls by (simp_all add: nn)
  show "length (filter (\<lambda>pc. pc \<noteq> LoopEnded) (ls[j := pc])) = (if pc = LoopEnded then 0 else 1)"
    unfolding up using ended by (simp add: filter_empty_conv)
qed

text \<open>What the steps of a loop have in common: the pool, the letters and the receipts are left alone.\<close>

definition aside :: "('w, 'q, 'x) auto_st_scheme \<Rightarrow> ('w, 'q, 'x) auto_st_scheme \<Rightarrow> bool" where
  "aside s t \<longleftrightarrow> pool t = pool s \<and> chanHosts t = chanHosts s \<and> connHosts t = connHosts s \<and> letterHeap t = letterHeap s \<and>
     receiptSenders t = receiptSenders s \<and> publishReceipts (publisher t) = publishReceipts (publisher s) \<and> taken t = taken s"

lemma aside_keeps:
  assumes "aside s t" "workers t = workers s @ map (\<lambda>lo. (j, WStart lo)) los"
  shows "pool_inv items t = pool_inv items s" "chan_inv C t = chan_inv C s" "report_inv t = report_inv s"
    "semaphoreCap t = semaphoreCap s" "(\<forall>(k, wk) \<in> set (workers t). worker_ok wk) = (\<forall>(k, wk) \<in> set (workers s). worker_ok wk)"
    "busy k t = busy k s + (if k = j then length los else 0)"
proof -
  have "(\<Sum>(k, wk)\<leftarrow>map (\<lambda>lo. (j, WStart lo)) los. worker_chan wk) = {#}"
    "(\<Sum>(k, wk)\<leftarrow>map (\<lambda>lo. (j, WStart lo)) los. outcome s wk) = {#}"
    by (induction los) (simp_all add: outcome_def)
  moreover have "outcome t = outcome s" using assms(1) by (auto simp: outcome_def fun_eq_iff aside_def split: worker.splits)
  moreover have "length (filter (\<lambda>(k', wk). k' = k \<and> \<not> finished wk) (map (\<lambda>lo. (j, WStart lo)) los)) =
      (if k = j then length los else 0)"
    by (induction los) (simp_all add: finished_def)
  ultimately show "pool_inv items t = pool_inv items s" "chan_inv C t = chan_inv C s" "report_inv t = report_inv s"
    "semaphoreCap t = semaphoreCap s" "busy k t = busy k s + (if k = j then length los else 0)"
    using assms by (auto simp: aside_def pool_inv_def heap_ok_def conn_live_def chan_inv_def held_def cacheBuf_def usable_def
        opened_def managed_def report_inv_def receipts_def receipts_ok_def semaphoreCap_def busy_def)
  show "(\<forall>(k, wk) \<in> set (workers t). worker_ok wk) = (\<forall>(k, wk) \<in> set (workers s). worker_ok wk)"
    using assms(2) by auto
qed

lemma loop_move:
  assumes inv: "auto_inv items C s" and j: "j < length (loops s)" "loops s ! j \<noteq> LoopEnded"
    and t: "aside s t" "accepted t = accepted s" "workers t = workers s @ map (\<lambda>lo. (j, WStart lo)) los"
      "loops t = (loops s)[j := pc]" "autoStarted (publisher t) = (pc \<noteq> LoopEnded)"
    and room: "los = [] \<or> length los = 1 \<and> busy j s < semaphoreCap s"
    and letters: "somes (los @ pending pc) @ ch_buf (letters (publisher t)) =
        somes (pending (loops s ! j)) @ ch_buf (letters (publisher s))"
    and nil: "\<not> ch_closed (letters (publisher t)) \<Longrightarrow> \<not> ch_closed (letters (publisher s)) \<and>
        (None \<notin> set (pending (loops s ! j)) \<longrightarrow> None \<notin> set (los @ pending pc)) \<and> crashed t = crashed s"
  shows "auto_inv items C t"
proof -
  note i = inv [unfolded auto_inv_def]
  have one: "length (filter (\<lambda>pc. pc \<noteq> LoopEnded) (loops s)) \<le> 1" using i by (simp add: loop_inv_def)
  note lp = only_loop [OF one j] and k = aside_keeps [OF t(1,3)]
  have fl: "inFlight t = map (worker_letter \<circ> snd) (workers s) @ los @ pending pc"
    "inFlight s = map (worker_letter \<circ> snd) (workers s) @ pending (loops s ! j)"
    using lp t by (simp_all add: inFlight_def comp_def)
  have "loop_inv t" using lp t by (simp add: loop_inv_def)
  moreover have "queue_inv t" using i fl letters t by (simp add: queue_inv_def aside_def)
  moreover have "nil_inv t" using i fl nil by (auto simp: nil_inv_def)
  moreover have "busy k t \<le> semaphoreCap t" for k
    using i room k(4) k(6) [of k] by (cases "k = j") (auto simp: Suc_le_eq)
  ultimately show ?thesis
    using i k by (simp add: auto_inv_def)
qed

text \<open>Two ways to stop, for the steps of the machine: a return, or a panic that ends the program.\<close>

definition keeps_inv ::
  "('q \<Rightarrow> qitem list) \<Rightarrow> nat multiset \<Rightarrow> (('w, 'q, 'x) auto_st_scheme, unit) go \<Rightarrow> ('w, 'q, 'x) auto_st_scheme \<Rightarrow> bool" where
  "keeps_inv items C m s \<longleftrightarrow>
     wlp m (\<lambda>_ t. auto_inv items C t) (\<lambda>p t. p \<noteq> None \<longrightarrow> auto_inv items C (t\<lparr>crashed := True\<rparr>)) s"

lemma recvStop_wlp:
  "wlp recvStop (\<lambda>r t. \<exists>c n. t = s\<lparr>publisher := (publisher s)\<lparr>autoStop := c\<rparr>, stopSenders := n\<rparr>) X s"
proof -
  have same: "\<exists>c' n. s\<lparr>publisher := (publisher s)\<lparr>autoStop := c\<rparr>\<rparr> =
      s\<lparr>publisher := (publisher s)\<lparr>autoStop := c'\<rparr>, stopSenders := n\<rparr>" for c
    by (rule exI [of _ c], rule exI [of _ "stopSenders s"]) simp
  show ?thesis
    using same [of "autoStop (publisher s)"] same
    by (cases "autoStop (publisher s)" rule: chan_recv_cases) (auto simp: recvStop_def wlp_def)
qed

lemma loop_started:
  assumes "auto_inv items C s" "j < length (loops s)" "loops s ! j \<noteq> LoopEnded"
  shows "autoStarted (publisher s)"
proof (rule ccontr)
  assume "\<not> autoStarted (publisher s)"
  then have "filter (\<lambda>pc. pc \<noteq> LoopEnded) (loops s) = []"
    using assms(1) by (simp add: auto_inv_def loop_inv_def)
  with assms(2,3) show False by (auto simp: filter_empty_conv)
qed

lemma loop_keeps_inv:
  assumes inv: "auto_inv items C s" and j: "j < length (loops s)" "loops s ! j = pc"
  shows "keeps_inv items C (startAutoPublishingLoop E j pc) s"
proof -
  note move = loop_move [OF inv j(1)]
  have on: "autoStarted (publisher s)" if "pc \<noteq> LoopEnded" using loop_started [OF inv j(1)] that j(2) by simp
  have stop: "wlp (bind_go recvStop f) Q X s"
    if "\<And>r c n. wlp (f r) Q X (s\<lparr>publisher := (publisher s)\<lparr>autoStop := c\<rparr>, stopSenders := n\<rparr>)" for f :: "_ \<Rightarrow> (_, unit) go" and Q X
    by (rule wlp_seq [OF recvStop_wlp]) (use that in blast)
  show ?thesis
  proof (cases pc)
    case LoopSelect
    show ?thesis
      unfolding keeps_inv_def LoopSelect startAutoPublishingLoop_def loop_pc.case
      by (rule stop, unfold set_loop_def if_distrib [of wlp, symmetric] wlp_if wlp_modify)
        (auto intro!: move [where los = "[]"] simp: aside_def j(2) LoopSelect on)
  next
    case PublishSelect
    show ?thesis
      by (cases "letters (publisher s)" rule: chan_recv_cases)
        (auto simp: keeps_inv_def PublishSelect startAutoPublishingLoop_def deliverLetters_def wp_simps set_loop_def
          upd_letters_def j(2) aside_def on intro!: move [where los = "[]"])
  next
    case (HaveLetter lo)
    show ?thesis
      by (auto simp: keeps_inv_def HaveLetter startAutoPublishingLoop_def deliverLetters_def wp_simps set_loop_def
          j(2) aside_def on intro!: move [where los = "[lo]"])
  next
    case SelectStop
    show ?thesis
      unfolding keeps_inv_def SelectStop startAutoPublishingLoop_def deliverLetters_def loop_pc.case
    proof (rule stop)
      fix r :: "bool received" and c n
      have "(loops s)[j := SelectStop] = loops s" using j(2) SelectStop by (metis list_update_id)
      then have "auto_inv items C (s\<lparr>publisher := (publisher s)\<lparr>autoStop := c\<rparr>, stopSenders := n, crashed := True\<rparr>)"
        if "ch_closed (letters (publisher s))"
        by (intro move [where los = "[]" and pc = SelectStop]) (use that in \<open>simp_all add: aside_def j(2) SelectStop on\<close>)
      then show "wlp (if r = Received True then bind_go (gets_go publisher) (\<lambda>pub. case chan_close (letters pub) of
               Return c \<Rightarrow> bind_go (modify_go (upd_letters c)) (\<lambda>_. set_loop j LoopExit)
             | Panicked p \<Rightarrow> panic_go p | Blocked \<Rightarrow> block_go) else set_loop j PublishSelect)
          (\<lambda>_ t. auto_inv items C t) (\<lambda>p t. p \<noteq> None \<longrightarrow> auto_inv items C (t\<lparr>crashed := True\<rparr>))
          (s\<lparr>publisher := (publisher s)\<lparr>autoStop := c\<rparr>, stopSenders := n\<rparr>)"
        by (cases "ch_closed (letters (publisher s))")
          (auto simp: wp_simps set_loop_def chan_close_def upd_letters_def j(2) SelectStop aside_def on
            intro!: move [where los = "[]"])
    qed
  next
    case LoopExit
    show ?thesis
      by (auto simp: keeps_inv_def LoopExit startAutoPublishingLoop_def upd_pub_def wp_simps set_loop_def
          j(2) aside_def intro!: move [where los = "[]"])
  next
    case LoopEnded
    then show ?thesis by (simp add: keeps_inv_def startAutoPublishingLoop_def wlp_block)
  qed
qed

lemma client_move:
  assumes inv: "auto_inv items C s"
    and t: "aside s t" "workers t = workers s" "crashed t = crashed s" "concat (map pending (loops t)) = concat (map pending (loops s))"
      "loop_inv t" "ch_closed (letters (publisher t)) = ch_closed (letters (publisher s))"
      "accepted t = accepted s @ ls" "ch_buf (letters (publisher t)) = ch_buf (letters (publisher s)) @ ls"
      "\<forall>l \<in> set ls. l < length (letterHeap s)"
  shows "auto_inv items C t"
proof -
  have "workers t = workers s @ map (\<lambda>lo. (0, WStart lo)) []" using t(2) by simp
  note k = aside_keeps [OF t(1) this]
  have "inFlight t = inFlight s" using t by (simp add: inFlight_def)
  then show ?thesis
    using inv k t by (auto simp: auto_inv_def queue_inv_def nil_inv_def aside_def)
qed

lemma recvReceipt_wlp:
  assumes "receipts_ok s"
  shows "wlp recvReceipt (\<lambda>v t. case v of
      Received r \<Rightarrow> receipts s = r # receipts t \<and> receipts_ok t \<and>
        (\<exists>c qs. t = s\<lparr>publisher := (publisher s)\<lparr>publishReceipts := c\<rparr>, receiptSenders := qs\<rparr>)
    | _ \<Rightarrow> t = s) X s"
proof (cases "publishReceipts (publisher s)" rule: chan_recv_cases)
  case (got r rs)
  have same: "\<exists>c' qs. s\<lparr>publisher := (publisher s)\<lparr>publishReceipts := c\<rparr>\<rparr> =
      s\<lparr>publisher := (publisher s)\<lparr>publishReceipts := c'\<rparr>, receiptSenders := qs\<rparr>" for c
    by (rule exI [of _ c], rule exI [of _ "receiptSenders s"]) simp
  show ?thesis
  proof (cases "receiptSenders s")
    case Nil
    with got assms same [of "(publishReceipts (publisher s))\<lparr>ch_buf := rs\<rparr>"] show ?thesis
      by (simp add: recvReceipt_def wlp_def receipts_def receipts_ok_def chan_ok_def)
  next
    case (Cons q qs)
    with got assms show ?thesis
      by (auto simp: recvReceipt_def wlp_def receipts_def receipts_ok_def chan_ok_def)
  qed
qed (simp_all add: recvReceipt_def wlp_def)

lemma receipt_keeps_inv:
  assumes "auto_inv items C s"
  shows "keeps_inv items C (run_auto E EvReceipt) s"
proof -
  note i = assms [unfolded auto_inv_def]
  have ok: "receipts_ok s" using i by (simp add: report_inv_def)
  have "auto_inv items C (t\<lparr>taken := taken s @ [r]\<rparr>)"
    if t: "receipts s = r # receipts t" "receipts_ok t"
      "t = s\<lparr>publisher := (publisher s)\<lparr>publishReceipts := c\<rparr>, receiptSenders := qs\<rparr>" for r t c qs
  proof -
    let ?t = "t\<lparr>taken := taken s @ [r]\<rparr>"
    have "taken ?t @ receipts ?t = taken s @ receipts s" using t(1) by (simp add: receipts_def)
    moreover have "workers ?t = workers s" "outcome ?t = outcome s" "receipts_ok ?t"
      using t by (auto simp: outcome_def fun_eq_iff receipts_ok_def split: worker.splits)
    ultimately have "report_inv ?t" using i unfolding report_inv_def by metis
    then show ?thesis
      using i t(3)
      by (simp add: auto_inv_def pool_inv_def heap_ok_def conn_live_def
        chan_inv_def held_def cacheBuf_def usable_def opened_def managed_def loop_inv_def busy_def semaphoreCap_def
        queue_inv_def inFlight_def nil_inv_def)
  qed
  then show ?thesis
    unfolding keeps_inv_def run_auto.simps
    by (intro wlp_seq [OF recvReceipt_wlp [OF ok]]) (use assms in \<open>auto simp: wp_simps split: received.splits\<close>)
qed

lemma calls_keep_inv:
  assumes inv: "auto_inv items C s" and ok: "event_ok s ev" and ev: "ev \<in> {EvStart, EvStop} \<or> (\<exists>l. ev = EvQueue l)"
  shows "keeps_inv items C (run_auto E ev) s"
proof -
  have loop: "loop_inv s" using inv by (simp add: auto_inv_def)
  consider "ev = EvStart" | "ev = EvStop" | l where "ev = EvQueue l" using ev by auto
  then show ?thesis
  proof cases
    case 1
    show ?thesis
      unfolding 1 by (auto simp: keeps_inv_def StartAutoPublishing_def upd_pub_def wp_simps inv
        intro!: client_move [OF inv, where ls = "[]"]) (use loop in \<open>auto simp: aside_def loop_inv_def\<close>)
  next
    case 2
    show ?thesis
      unfolding 2 by (auto simp: keeps_inv_def stopAutoPublish_def wp_simps inv split: result.splits
        intro!: client_move [OF inv, where ls = "[]"]) (use loop in \<open>auto simp: aside_def loop_inv_def\<close>)
  next
    case 3
    then have l: "l < length (letterHeap s)" using ok by (simp add: event_ok_def)
    let ?q = "letters (publisher s)"
    have "auto_inv items C (upd_letters (?q\<lparr>ch_buf := ch_buf ?q @ [l]\<rparr>) s\<lparr>accepted := accepted s @ [l]\<rparr>)"
      by (rule client_move [OF inv, where ls = "[l]"])
        (use loop l in \<open>simp_all add: aside_def upd_letters_def loop_inv_def\<close>)
    moreover have "accepted (upd_letters c s) = accepted s" for c by (simp add: upd_letters_def)
    ultimately show ?thesis
      unfolding 3 using inv
      by (simp add: keeps_inv_def wlp_def bind_go_def QueueLetter_def safeSend_cases go_prims Let_def)
  qed
qed

lemma crash_keeps_inv:
  assumes "auto_inv items C s" "None \<in> set (inFlight s)"
  shows "auto_inv items C (s\<lparr>crashed := True\<rparr>)"
proof -
  have out: "outcome (s\<lparr>crashed := True\<rparr>) = outcome s"
    by (auto simp: outcome_def fun_eq_iff split: worker.splits)
  have "nil_inv (s\<lparr>crashed := True\<rparr>)" using assms by (auto simp: auto_inv_def nil_inv_def)
  then show ?thesis
    using assms(1) out
    by (simp add: auto_inv_def pool_inv_def heap_ok_def conn_live_def chan_inv_def held_def cacheBuf_def usable_def
        opened_def managed_def loop_inv_def busy_def semaphoreCap_def queue_inv_def inFlight_def report_inv_def
        receipts_def receipts_ok_def)
qed

lemma worker_event_keeps_inv:
  assumes E: "channel_law E" "confirm_law E" and inv: "auto_inv items C s"
  shows "keeps_inv items C (run_auto E (EvWorker i)) s"
proof (cases "i < length (workers s)")
  case False
  then show ?thesis by (simp add: keeps_inv_def wp_simps)
next
  case True
  obtain k wk where wk: "workers s ! i = (k, wk)" by (cases "workers s ! i")
  then have mem: "(k, wk) \<in> set (workers s)" using True by (metis nth_mem)
  note I = inv [unfolded auto_inv_def]
  have ch: "mset (cacheBuf s) + held s = C" "\<forall>c \<in># C. usable s c" "\<forall>c. count C c \<le> 1" "size C \<le> ch_cap (channels (pool s))"
    using I by (simp_all add: chan_inv_def)
  have sub: "worker_chan wk \<subseteq># held s"
    using elem_le_sum_list [OF mem, of "\<lambda>(k, wk). worker_chan wk"] by (simp add: held_def)
  have count: "count (mset (cacheBuf s)) c + count (held s) c \<le> 1" for c
    using ch(1,3) by (metis count_union)
  have "distinct (cacheBuf s)"
    unfolding distinct_count_atmost_1
  proof
    fix c show "count (mset (cacheBuf s)) c = (if c \<in> set (cacheBuf s) then 1 else 0)"
      using count [of c] count_greater_zero_iff [of "mset (cacheBuf s)" c]
      by (cases "c \<in> set (cacheBuf s)") (auto simp: count_mset_0_iff simp del: count_greater_zero_iff)
  qed
  moreover have "usable s c" if "c \<in> set (cacheBuf s)" for c
    using ch(1,2) that by auto
  ultimately have ready: "cache_ready s" by (simp add: cache_ready_def usable_def opened_def)
  have chans: "usable s c \<and> c \<notin> set (cacheBuf s) \<and> length (cacheBuf s) < ch_cap (channels (pool s))"
    if c: "c \<in># worker_chan wk" for c
  proof -
    have h: "c \<in># held s" using sub c by (rule mset_subset_eqD)
    then have "count (held s) c \<ge> 1" by (simp add: Suc_le_eq)
    then have "count (mset (cacheBuf s)) c = 0" using count [of c] by linarith
    then have "c \<notin> set (cacheBuf s)" by (simp add: count_mset_0_iff)
    moreover have "usable s c" using ch(1,2) h by auto
    moreover have "length (cacheBuf s) + size (held s) \<le> ch_cap (channels (pool s))"
      using ch(4) unfolding ch(1) [symmetric] by simp
    moreover have "size (held s) > 0" using h by (auto simp: nonempty_has_size [symmetric])
    ultimately show ?thesis by simp
  qed
  have wf: "worker_letter wk \<in> set (inFlight s)"
    using mem by (force simp: inFlight_def)
  have lt: "l < length (letterHeap s)" if "worker_letter wk = Some l" for l
    using I wf that by (auto simp: queue_inv_def)
  have "wlp (worker_go E (PublishTimeout (publisher s)) wk) (\<lambda>wk' t. stepped items wk s wk' t)
    (\<lambda>p t. p \<noteq> None \<longrightarrow> t = s \<and> worker_letter wk = None) s"
    by (rule worker_go_wlp [OF E _ ready]) (use I mem chans lt in \<open>auto simp: report_inv_def\<close>)
  then have "wlp (bind_go (worker_go E (PublishTimeout (publisher s)) wk) (\<lambda>wk'. modify_go (\<lambda>s. s\<lparr>workers := (workers s)[i := (k, wk')]\<rparr>)))
      (\<lambda>_ t. auto_inv items C t) (\<lambda>p t. p \<noteq> None \<longrightarrow> auto_inv items C (t\<lparr>crashed := True\<rparr>)) s"
    unfolding wlp_bind wlp_modify
    by (rule wlp_mono) (use worker_keeps_inv [OF inv _ True wk] crash_keeps_inv [OF inv] wf in auto)
  with True wk show ?thesis by (simp add: keeps_inv_def wlp_bind wlp_gets)
qed

lemma event_keeps_inv:
  assumes "channel_law E" "confirm_law E" "auto_inv items C s" "event_ok s ev"
  shows "keeps_inv items C (run_auto E ev) s"
proof (cases ev)
  case (EvLoop j)
  show ?thesis
    unfolding EvLoop using loop_keeps_inv [OF assms(3), of j "loops s ! j" E]
    by (simp add: keeps_inv_def wlp_bind wlp_gets wlp_block)
next
  case EvReceipt
  show ?thesis unfolding EvReceipt by (rule receipt_keeps_inv [OF assms(3)])
next
  case (EvWorker i)
  show ?thesis unfolding EvWorker by (rule worker_event_keeps_inv [OF assms(1-3)])
qed (use calls_keep_inv [OF assms(3,4)] in auto)

subsection \<open>Reachable states\<close>

text \<open>A publisher that has just been made on a pool with a ready cache.\<close>

definition auto_start :: "('q \<Rightarrow> qitem list) \<Rightarrow> nat multiset \<Rightarrow> ('w, 'q, 'x) auto_st_scheme \<Rightarrow> bool" where
  "auto_start items C s \<longleftrightarrow> ready items s \<and> (\<forall>c \<in> set (cacheBuf s). managed s c) \<and> mset (cacheBuf s) = C \<and>
     loops s = [] \<and> workers s = [] \<and> accepted s = [] \<and> taken s = [] \<and> \<not> crashed s \<and>
     \<not> autoStarted (publisher s) \<and> ch_buf (letters (publisher s)) = [] \<and> \<not> ch_closed (letters (publisher s)) \<and>
     receipts s = [] \<and> receipts_ok s"

lemma auto_start_inv: "auto_start items C s \<Longrightarrow> auto_inv items C s"
  by (auto simp: auto_start_def auto_inv_def ready_def cache_ready_def chan_inv_def held_def usable_def opened_def managed_def
      loop_inv_def busy_def queue_inv_def inFlight_def nil_inv_def report_inv_def pool_inv_def cacheBuf_def chan_ok_def
      distinct_count_atmost_1 le_Suc_eq)

lemma auto_step_inv:
  assumes "auto_step E s t" "channel_law E" "confirm_law E" "auto_inv items C s"
  shows "auto_inv items C t"
  using assms(1)
proof cases
  case (auto_run ev)
  with event_keeps_inv [OF assms(2-4) auto_run(2)] show ?thesis by (simp add: keeps_inv_def wlp_iff)
next
  case (auto_crash ev p u)
  with event_keeps_inv [OF assms(2-4) auto_crash(3)] show ?thesis by (auto simp: keeps_inv_def wlp_iff)
qed

interpretation auto: invariant_system "auto_start items C" "auto_step E"
  "\<lambda>s. channel_law E \<and> confirm_law E \<longrightarrow> auto_inv items C s" for items C E
  by unfold_locales (auto intro: auto_start_inv auto_step_inv)

subsection \<open>Properties\<close>

lemma semaphoreCap_eq: "semaphoreCap s = unat (MaxCacheChannelCount (Config (pool s))) div 2 + 1"
proof -
  let ?n = "MaxCacheChannelCount (Config (pool s))"
  have n: "unat ?n < 18446744073709551616" using unsigned_less [of ?n] by simp
  have "unat (?n div 2 + 1) = (unat (?n div 2) + 1) mod 18446744073709551616"
    by (simp add: unat_word_ariths)
  also have "\<dots> = unat ?n div 2 + 1" using n by (simp add: unat_div)
  finally show ?thesis by (simp add: semaphoreCap_def)
qed

text \<open>The letters handed to goroutines, in order.\<close>

definition handed :: "('w, 'q, 'x) auto_st_scheme \<Rightarrow> nat option list" where
  "handed s = map (worker_letter \<circ> snd) (workers s)"

text \<open>
  C13: the auto publisher loses and reorders nothing. After any interleaving of queueing, starting,
  stopping, reading receipts and the steps of all its goroutines, the letters accepted by the queue are,
  in this order, those handed to goroutines, the one the loop holds, and those still in the queue;
  and as long as the queue has not been closed no nil letter has appeared and nothing has panicked.
\<close>

theorem auto_publisher_order:
  assumes "channel_law E" "confirm_law E" "auto_start items C s" "(auto_step E)\<^sup>*\<^sup>* s t"
  shows "\<exists>held_back. accepted t = somes (handed t) @ somes held_back @ ch_buf (letters (publisher t)) \<and> length held_back \<le> 1 \<and>
    (\<not> ch_closed (letters (publisher t)) \<longrightarrow> None \<notin> set (handed t) \<and> \<not> crashed t)"
proof -
  have inv: "auto_inv items C t" using auto.reachable_inv [OF assms(3,4)] assms(1,2) by blast
  have "length (concat (map pending (loops t))) \<le> 1"
  proof (cases "\<exists>j < length (loops t). loops t ! j \<noteq> LoopEnded")
    case True
    then obtain j where j: "j < length (loops t)" "loops t ! j \<noteq> LoopEnded" by blast
    have one: "length (filter (\<lambda>pc. pc \<noteq> LoopEnded) (loops t)) \<le> 1" using inv by (simp add: auto_inv_def loop_inv_def)
    show ?thesis unfolding only_loop(1) [OF one j] by (cases "loops t ! j") simp_all
  next
    case False
    then have "\<forall>pc \<in> set (loops t). pending pc = []" by (metis in_set_conv_nth pending.simps(6))
    then show ?thesis by (simp add: concat_eq_Nil_conv [THEN iffD2])
  qed
  with inv show ?thesis
    by (intro exI [of _ "concat (map pending (loops t))"])
      (auto simp: auto_inv_def queue_inv_def nil_inv_def inFlight_def handed_def)
qed

text \<open>
  C14: what the auto publisher has running is bounded. At most one loop is alive, exactly while
  \<open>autoStarted\<close> is set; no loop ever has more than \<open>MaxCacheChannelCount / 2 + 1\<close> letters in progress;
  and every cached channel is, at every moment, either in the cache or in the hands of exactly one
  goroutine.
\<close>

theorem auto_publisher_bounds:
  assumes "channel_law E" "confirm_law E" "auto_start items C s" "(auto_step E)\<^sup>*\<^sup>* s t"
  shows "length (filter (\<lambda>pc. pc \<noteq> LoopEnded) (loops t)) = (if autoStarted (publisher t) then 1 else 0) \<and>
    busy j t \<le> unat (MaxCacheChannelCount (Config (pool t))) div 2 + 1 \<and>
    mset (cacheBuf t) + held t = C \<and> (\<forall>c \<in># C. usable t c) \<and> count C c \<le> 1"
proof -
  have inv: "auto_inv items C t" using auto.reachable_inv [OF assms(3,4)] assms(1,2) by blast
  then show ?thesis
    by (simp add: auto_inv_def loop_inv_def chan_inv_def semaphoreCap_eq)
qed

text \<open>
  C15: one receipt per letter. At every moment the receipts the client has read, those in the channel
  and those on their way are, as a multiset of letter ids and errors, exactly the outcomes of the
  goroutines that have finished.
\<close>

theorem auto_publisher_receipts:
  assumes "channel_law E" "confirm_law E" "auto_start items C s" "(auto_step E)\<^sup>*\<^sup>* s t"
  shows "mset (map (\<lambda>r. (receipt_LetterID r, receipt_Error r)) (taken t @ receipts t)) =
    (\<Sum>(k, wk)\<leftarrow>workers t. case wk of WDone l err \<Rightarrow> {#(LetterID (letterHeap t ! l), err)#} | _ \<Rightarrow> {#})"
proof -
  have "auto_inv items C t" using auto.reachable_inv [OF assms(3,4)] assms(1,2) by blast
  then show ?thesis by (simp add: auto_inv_def report_inv_def outcome_def)
qed

subsection \<open>Starting again after a stop\<close>

lemma wp_safeSend [wp_simps]:
  "wp (safeSend l) Q s = (if ch_closed (letters (publisher s)) then Q False s
     else length (ch_buf (letters (publisher s))) < ch_cap (letters (publisher s)) \<and>
       Q True (upd_letters ((letters (publisher s))\<lparr>ch_buf := ch_buf (letters (publisher s)) @ [l]\<rparr>) s))"
  by (simp add: wp_def safeSend_cases Let_def)

lemma wp_recvStop_empty [wp_simps]:
  "ch_buf (autoStop (publisher s)) = [] \<Longrightarrow> \<not> ch_closed (autoStop (publisher s)) \<Longrightarrow> wp recvStop Q s = Q WouldBlock s"
  by (simp add: wp_def recvStop_def)

lemma wp_recvStop_one:
  "autoStop (publisher s) = (make_chan 1)\<lparr>ch_buf := [b]\<rparr> \<Longrightarrow> stopSenders s = 0 \<Longrightarrow>
     wp recvStop Q s = Q (Received b) (s\<lparr>publisher := (publisher s)\<lparr>autoStop := make_chan 1\<rparr>\<rparr>)"
  by (simp add: wp_def recvStop_def make_chan_def)

text \<open>A schedule: events that run one after the other.\<close>

fun schedule :: "('w, 'e) env_scheme \<Rightarrow> auto_event list \<Rightarrow> (('w, 'q, 'x) auto_st_scheme, unit) go" where
  "schedule E [] = ret ()"
| "schedule E (ev # evs) =
     bind_go (gets_go (\<lambda>s. \<not> crashed s \<and> event_ok s ev)) (\<lambda>ok.
       if ok then bind_go (run_auto E ev) (\<lambda>_. schedule E evs) else block_go)"

lemma schedule_steps: "wp (schedule E evs) Q s \<Longrightarrow> \<exists>t. (auto_step E)\<^sup>*\<^sup>* s t \<and> Q () t"
proof (induction evs arbitrary: s)
  case Nil
  then show ?case by (auto simp: wp_simps)
next
  case (Cons ev evs)
  have ok: "\<not> crashed s" "event_ok s ev" and run: "wp (run_auto E ev) (\<lambda>_. wp (schedule E evs) Q) s"
    using Cons.prems by (auto simp: wp_bind wp_gets wp_block split: if_splits)
  from run obtain u where u: "run_auto E ev s = Some (Return (), u)" "wp (schedule E evs) Q u"
    by (auto simp: wp_iff [of "run_auto E ev"])
  from Cons.IH [OF u(2)] obtain t where "(auto_step E)\<^sup>*\<^sup>* u t" "Q () t" by blast
  moreover have "auto_step E s u" using ok u(1) by (rule auto_run)
  ultimately show ?case by (blast intro: converse_rtranclp_into_rtranclp)
qed

text \<open>
  What no event undoes: a closed queue stays closed, the stop channel is never closed, loops are only
  added, and every goroutine belongs to one of them (\<open>n\<close>: if there are at least \<open>n\<close> loops already).
\<close>

definition grows :: "nat \<Rightarrow> ('w, 'q, 'x) auto_st_scheme \<Rightarrow> ('w, 'q, 'x) auto_st_scheme \<Rightarrow> bool" where
  "grows n s t \<longleftrightarrow> (ch_closed (letters (publisher s)) \<longrightarrow> ch_closed (letters (publisher t))) \<and>
     ch_closed (autoStop (publisher t)) = ch_closed (autoStop (publisher s)) \<and> length (loops s) \<le> length (loops t) \<and>
     (n \<le> length (loops s) \<longrightarrow> (\<forall>(k, wk) \<in> set (workers s). k < length (loops s)) \<longrightarrow> (\<forall>(k, wk) \<in> set (workers t). k < length (loops t)))"

interpretation grown: state_frame "grows n" for n
  by unfold_locales (auto simp: grows_def)

lemma grows_modify: "(\<And>s. grows n s (f s)) \<Longrightarrow> within (grows n) (modify_go f)"
  by (simp add: within_def modify_go_def)

lemma grows_set_loop: "within (grows n) (set_loop j pc)"
  unfolding set_loop_def by (rule grows_modify) (simp add: grows_def)

lemma recv_closed: "chan_recv c = (v, c') \<Longrightarrow> ch_closed c' = ch_closed c"
  by (cases c rule: chan_recv_cases) auto

lemma grows_fields: "within (grows n) (recv_field (\<lambda>s. letters (publisher s)) upd_letters)" "within (grows n) recvStop"
  "within (grows n) (safeSend l)" "within (grows n) stopAutoPublish" "within (grows n) recvReceipt"
  by (auto simp: within_def recv_field_def recvStop_def safeSend_def stopAutoPublish_def recvReceipt_def go_prims bind_go_def
      chan_send_def grows_def upd_letters_def split: prod.splits received.splits result.splits if_splits list.splits
      dest: recv_closed)

lemma grows_close: "within (grows n) (bind_go (gets_go publisher) (\<lambda>pub. case chan_close (letters pub) of
    Return c \<Rightarrow> bind_go (modify_go (upd_letters c)) (\<lambda>_. set_loop j LoopExit) | Panicked p \<Rightarrow> panic_go p | Blocked \<Rightarrow> block_go))"
  by (auto simp: within_def go_prims set_loop_def chan_close_def grows_def upd_letters_def split: if_splits)

lemma grows_loop: "within (grows (Suc j)) (startAutoPublishingLoop E j pc)"
proof -
  have world: "within (grows (Suc j)) (env_do f)" for f
    by (simp add: within_def env_do_def grows_def)
  have upd: "within (grows (Suc j)) (upd_pub (\<lambda>p. p\<lparr>autoStarted := b\<rparr>))" for b
    unfolding upd_pub_def by (rule grows_modify) (simp add: grows_def)
  have new: "within (grows (Suc j)) (bind_go (modify_go (\<lambda>s. s\<lparr>workers := workers s @ [(j, WStart lo)]\<rparr>))
      (\<lambda>_. set_loop j PublishSelect))" for lo
    by (auto simp: within_def go_prims set_loop_def grows_def)
  show ?thesis
    unfolding startAutoPublishingLoop_def deliverLetters_def
    by (cases pc) (auto intro!: grown.within_composed grows_fields grows_set_loop grows_close world upd new
        split: received.splits)
qed

text \<open>The goroutine of a letter touches only the pool, the letters and the receipts.\<close>

definition steady :: "('w, 'q, 'x) pub_st_scheme \<Rightarrow> ('w, 'q, 'x) pub_st_scheme \<Rightarrow> bool" where
  "steady s t \<longleftrightarrow> publisher t = (publisher s)\<lparr>publishReceipts := publishReceipts (publisher t)\<rparr> \<and>
     pub_st.more t = pub_st.more s"

interpretation still: state_frame steady
proof unfold_locales
  fix s t u :: "('a, 'b, 'c) pub_st_scheme"
  assume "steady s t" "steady t u"
  then show "steady s u"
    by (cases "publisher s"; cases "publisher t"; cases "publisher u") (simp add: steady_def)
qed (simp add: steady_def)

lemma keeps_steady:
  fixes m :: "(('w, 'q, 'x) pub_st_scheme, 'a) go"
  shows "keeps m \<Longrightarrow> within steady m"
  unfolding within_def [of steady]
proof (intro allI impI)
  fix s t :: "('w, 'q, 'x) pub_st_scheme" and r
  assume "keeps m" "m s = Some (r, t)"
  then have "pool_st.more t = pool_st.more s" by (rule keepsD)
  then show "steady s t" by (cases s; cases t) (simp add: steady_def)
qed

lemma keeps_wait: "keeps (waitPublishConfirmation E d l timeout)"
proof -
  have event: "keeps (case ev of CtxDone \<Rightarrow> m | TimedOut \<Rightarrow> k | ConfirmDone \<Rightarrow> n)" if "keeps m" "keeps k" "keeps n" for ev m k n
    using that by (cases ev) simp_all
  show ?thesis unfolding waitPublishConfirmation_def by (intro keeps_rules event)
qed

lemma steady_receipt: "within steady (publishReceipt l err)"
proof -
  have mod: "within steady (modify_go f)" if "\<And>s. steady s (f s)" for f
    using that by (simp add: within_def modify_go_def)
  show ?thesis
    unfolding publishReceipt_def
    by (intro still.within_composed keeps_steady [OF keeps_letter_at] mod)
      (auto simp: steady_def Let_def split: result.splits)
qed

lemma steady_worker: "within steady (worker_go E timeout wk)"
proof -
  note pool = keeps_steady [OF keeps_calls(5)] keeps_steady [OF keeps_calls(6)] keeps_steady [OF keeps_publishing(2)]
    keeps_steady [OF keeps_wait] keeps_steady [OF keeps_leaves(5)]
  have after: "within steady (afterPublish E l timeout r)" for l r
    unfolding afterPublish_def by (intro still.within_composed pool steady_receipt)
  show ?thesis
    unfolding worker_go_def
    by (cases wk) (auto intro!: still.within_composed pool after split: option.splits)
qed

lemma worker_grows:
  assumes "run_auto E (EvWorker i) s = Some (r, t)"
  shows "grows 0 s t"
proof (cases "i < length (workers s)")
  case True
  let ?go = "worker_go E (PublishTimeout (publisher s)) (snd (workers s ! i))"
  from assms True obtain q u where go: "?go s = Some (q, u)"
    by (auto simp: go_prims split: option.splits)
  have u: "workers u = workers s" "loops u = loops s" "letters (publisher u) = letters (publisher s)"
    "autoStop (publisher u) = autoStop (publisher s)"
    using withinD [OF steady_worker go] by (cases s; cases u; cases "publisher s"; cases "publisher u"; simp add: steady_def)+
  have "t = u \<or> (\<exists>wk. t = u\<lparr>workers := (workers u)[i := (fst (workers s ! i), wk)]\<rparr>)"
    using assms True go by (auto simp: go_prims split: result.splits)
  moreover have "workers s ! i \<in> set (workers s)" using True by simp
  ultimately show ?thesis
    using u by (fastforce simp: grows_def case_prod_beta dest!: set_update_subset_insert [THEN subsetD])
qed (use assms in \<open>simp add: go_prims grown.frame_refl\<close>)

lemma run_grows: "within (grows 0) (run_auto E ev)"
proof (cases ev)
  case (EvLoop j)
  show ?thesis
    unfolding within_def EvLoop run_auto.simps
  proof (intro allI impI)
    fix s r t
    assume run: "bind_go (gets_go loops) (\<lambda>ls. if j < length ls then startAutoPublishingLoop E j (ls ! j) else block_go) s = Some (r, t)"
    show "grows 0 s t"
    proof (cases "j < length (loops s)")
      case True
      with run have "grows (Suc j) s t" by (intro withinD [OF grows_loop]) (simp add: go_prims)
      with True show ?thesis by (simp add: grows_def)
    qed (use run in \<open>simp add: go_prims grown.frame_refl\<close>)
  qed
next
  case (EvWorker i)
  then show ?thesis unfolding within_def using worker_grows by blast
next
  case EvStart
  show ?thesis
    unfolding EvStart run_auto.simps StartAutoPublishing_def upd_pub_def
    by (intro grown.within_composed grows_modify) (auto simp: grows_def less_Suc_eq)
qed (auto simp: QueueLetter_def grows_def
    intro!: grown.within_composed grows_fields grows_modify split: received.splits)

lemma restart_from_stopped:
  assumes "\<not> crashed s" "\<not> autoStarted (publisher s)" "ch_closed (letters (publisher s))" "ch_buf (letters (publisher s)) = []"
    and "ch_buf (autoStop (publisher s)) = []" "\<not> ch_closed (autoStop (publisher s))"
    and "\<forall>(k, wk) \<in> set (workers s). k < length (loops s)" "cacheBuf s \<noteq> []"
  shows "\<exists>t. (auto_step E)\<^sup>*\<^sup>* s t \<and> crashed t"
proof -
  define j where "j = length (loops s)"
  define i where "i = length (workers s)"
  obtain c buf where c: "cacheBuf s = c # buf" using assms(8) by (cases "cacheBuf s") auto
  have idle: "busy j s = 0" using assms(7) by (auto simp: busy_def j_def filter_empty_conv)
  define s1 where "s1 = s\<lparr>publisher := (publisher s)\<lparr>autoStarted := True\<rparr>, loops := loops s @ [LoopSelect]\<rparr>"
  define s2 where "s2 = s1\<lparr>loops := loops s @ [PublishSelect]\<rparr>"
  define s3 where "s3 = s1\<lparr>loops := loops s @ [HaveLetter None]\<rparr>"
  define s4 where "s4 = s1\<lparr>loops := loops s @ [PublishSelect], workers := workers s @ [(j, WStart None)]\<rparr>"
  define s5 where "s5 = (put_channels ((channels (pool s))\<lparr>ch_buf := buf\<rparr>) s4)\<lparr>workers := workers s @ [(j, WHolds None c)]\<rparr>"
  have "auto_step E s s1"
    by (rule auto_run [of s EvStart])
      (use assms in \<open>simp_all add: event_ok_def StartAutoPublishing_def go_prims upd_pub_def s1_def\<close>)
  moreover have "auto_step E s1 s2"
    by (rule auto_run [of s1 "EvLoop j"])
      (use assms in \<open>simp_all add: event_ok_def startAutoPublishingLoop_def go_prims recvStop_def set_loop_def s1_def s2_def j_def\<close>)
  moreover have "auto_step E s2 s3"
    by (rule auto_run [of s2 "EvLoop j"])
      (use assms in \<open>simp_all add: event_ok_def startAutoPublishingLoop_def deliverLetters_def go_prims recv_field_def set_loop_def
        s1_def s2_def s3_def j_def upd_letters_def\<close>)
  moreover have "auto_step E s3 s4"
    by (rule auto_run [of s3 "EvLoop j"])
      (use assms idle in \<open>simp_all add: event_ok_def startAutoPublishingLoop_def deliverLetters_def go_prims set_loop_def
        s1_def s3_def s4_def j_def busy_def semaphoreCap_eq\<close>)
  moreover have "auto_step E s4 s5"
    by (rule auto_run [of s4 "EvWorker i"])
      (use assms c in \<open>simp_all add: event_ok_def worker_go_def GetChannelFromPool_def go_prims recv_field_def get_channels_def
        put_channels_def cacheBuf_def s1_def s4_def s5_def i_def\<close>)
  moreover have "auto_step E s5 (s5\<lparr>crashed := True\<rparr>)"
    by (rule auto_crash [of s5 "EvWorker i" E NilDereference])
      (use assms in \<open>simp_all add: event_ok_def worker_go_def go_prims put_channels_def s1_def s4_def s5_def i_def\<close>)
  ultimately have "(auto_step E)\<^sup>*\<^sup>* s (s5\<lparr>crashed := True\<rparr>)"
    by (meson converse_rtranclp_into_rtranclp rtranclp.rtrancl_refl)
  then show ?thesis by (rule_tac exI [of _ "s5\<lparr>crashed := True\<rparr>"]) simp
qed

lemma steps_grow: "(auto_step E)\<^sup>*\<^sup>* s t \<Longrightarrow> grows 0 s t"
proof (induction rule: rtranclp_induct)
  case base
  show ?case by (rule grown.frame_refl)
next
  case (step t u)
  from step.hyps(2) have "grows 0 t u"
  proof cases
    case (auto_crash ev p v)
    have "grows 0 t v" by (rule withinD [OF run_grows auto_crash(4)])
    then show ?thesis unfolding auto_crash(1) by (simp add: grows_def)
  qed (rule withinD [OF run_grows])
  with step.IH show ?case by (rule grown.frame_trans)
qed

text \<open>
  A stopped publisher with nothing left to do: no loop is alive, the queue is closed and empty, no
  stop request is pending, and a channel is in the cache.
\<close>

definition stopped :: "('w, 'q, 'x) auto_st_scheme \<Rightarrow> bool" where
  "stopped s \<longleftrightarrow> \<not> crashed s \<and> \<not> autoStarted (publisher s) \<and> ch_closed (letters (publisher s)) \<and>
     ch_buf (letters (publisher s)) = [] \<and> ch_buf (autoStop (publisher s)) = [] \<and> cacheBuf s \<noteq> []"

text \<open>Start, let the loop find the queue empty, ask it to stop, and let it end.\<close>

lemma start_then_stop:
  assumes "auto_start items C s" "C \<noteq> {#}" "autoStop (publisher s) = make_chan 1" "stopSenders s = 0"
  shows "wp (schedule E [EvStart, EvLoop 0, EvLoop 0, EvStop, EvLoop 0, EvLoop 0]) (\<lambda>_. stopped) s"
proof -
  have "cacheBuf s \<noteq> []" using assms(1,2) by (auto simp: auto_start_def)
  with assms show ?thesis
    by (simp add: auto_start_def wp_simps event_ok_def StartAutoPublishing_def upd_pub_def startAutoPublishingLoop_def
        deliverLetters_def set_loop_def stopAutoPublish_def upd_letters_def chan_send_def chan_close_def stopped_def cacheBuf_def
        wp_recvStop_one)
qed

text \<open>
  C16: a publisher cannot be started again. From a publisher that has just been made a stopped one is
  reached (start, stop); once the queue is closed it stays closed, whatever clients and goroutines do;
  and from every stopped state that is reached the program can crash: if auto publishing is started
  again, the new loop receives the zero value of the closed channel, a nil letter, and hands it to a
  goroutine, which dereferences it.
\<close>

theorem restart_crashes:
  assumes "auto_start items C s" "C \<noteq> {#}" "autoStop (publisher s) = make_chan 1" "stopSenders s = 0"
  shows "(\<exists>u. (auto_step E)\<^sup>*\<^sup>* s u \<and> stopped u) \<and>
    (\<forall>u v. (auto_step E)\<^sup>*\<^sup>* s u \<and> ch_closed (letters (publisher u)) \<and> (auto_step E)\<^sup>*\<^sup>* u v \<longrightarrow>
       ch_closed (letters (publisher v))) \<and>
    (\<forall>u. (auto_step E)\<^sup>*\<^sup>* s u \<and> stopped u \<longrightarrow> (\<exists>v. (auto_step E)\<^sup>*\<^sup>* u v \<and> crashed v))"
proof (intro conjI allI impI)
  show "\<exists>u. (auto_step E)\<^sup>*\<^sup>* s u \<and> stopped u"
    using schedule_steps [OF start_then_stop [OF assms]] by blast
next
  fix u v
  assume "(auto_step E)\<^sup>*\<^sup>* s u \<and> ch_closed (letters (publisher u)) \<and> (auto_step E)\<^sup>*\<^sup>* u v"
  then show "ch_closed (letters (publisher v))" using steps_grow [of E u v] by (simp add: grows_def)
next
  fix u
  assume u: "(auto_step E)\<^sup>*\<^sup>* s u \<and> stopped u"
  then have "grows 0 s u" by (blast intro: steps_grow)
  then have "\<not> ch_closed (autoStop (publisher u))" "\<forall>(k, wk) \<in> set (workers u). k < length (loops u)"
    using assms by (simp_all add: grows_def auto_start_def)
  with u show "\<exists>v. (auto_step E)\<^sup>*\<^sup>* u v \<and> crashed v"
    by (intro restart_from_stopped) (simp_all add: stopped_def)
qed

subsection \<open>Instances\<close>

definition auto0 :: "(broker, qitem list) auto_st" where
  "auto0 = pub_st.extend pub0 \<lparr>loops = [], workers = [], accepted = [], taken = [], crashed = False\<rparr>"

lemma auto0_start: "auto_start (\<lambda>q. q) {#0#} auto0"
  by (simp add: auto_start_def auto0_def pub_st.defs pub0_def ready_def pool_inv_def heap_ok_def conn_live_def cache_ready_def
      cacheBuf_def started1_def newPool_def chan_ok_def host0_def chan0_def openHost_def openChan_def make_chan_def
      managed_def newPublisher_def receipts_def receipts_ok_def slice_fits_def cfg1_def cfg2_def)

text \<open>Queue a letter, start the loop, let it hand the letter over, and let the goroutine publish it.\<close>

lemma auto0_run:
  "wp (schedule scripted [EvQueue 0, EvStart, EvLoop 0, EvLoop 0, EvLoop 0, EvWorker 0, EvWorker 0])
     (\<lambda>_ t. handed t = [Some 0] \<and> busy 0 t = 1 \<and> cacheBuf t = [] \<and> held t = {#0#}) auto0"
  by (simp add: wp_simps event_ok_def auto0_def pub_st.defs pub0_def QueueLetter_def upd_letters_def StartAutoPublishing_def
      upd_pub_def startAutoPublishingLoop_def deliverLetters_def set_loop_def newPublisher_def busy_def semaphoreCap_def
      finished_def worker_go_def GetChannelFromPool_def publishDeferredConfirm_def get_channels_def put_channels_def started1_def
      newPool_def chan0_def openChan_def scripted_def handed_def held_def cacheBuf_def cfg1_def cfg2_def)

theorem auto_publisher_order_witness:
  "\<exists>t held_back. (auto_step scripted)\<^sup>*\<^sup>* auto0 t \<and> handed t = [Some 0] \<and>
     accepted t = somes (handed t) @ somes held_back @ ch_buf (letters (publisher t))"
proof -
  obtain t where t: "(auto_step scripted)\<^sup>*\<^sup>* auto0 t" "handed t = [Some 0]"
    using schedule_steps [OF auto0_run] by blast
  from auto_publisher_order [OF scripted_channels scripted_confirm auto0_start t(1)] t show ?thesis by blast
qed

theorem auto_publisher_bounds_witness:
  "\<exists>t. (auto_step scripted)\<^sup>*\<^sup>* auto0 t \<and> busy 0 t = 1 \<and> held t = {#0#} \<and> usable t 0 \<and>
     busy 0 t \<le> unat (MaxCacheChannelCount (Config (pool t))) div 2 + 1"
proof -
  obtain t where t: "(auto_step scripted)\<^sup>*\<^sup>* auto0 t" "busy 0 t = 1" "held t = {#0#}"
    using schedule_steps [OF auto0_run] by blast
  from auto_publisher_bounds [OF scripted_channels scripted_confirm auto0_start t(1), of 0 0] t show ?thesis by auto
qed

text \<open>The same letter to the end: one receipt, for letter id 7, without an error.\<close>

lemma auto0_done:
  "wp (schedule scripted [EvQueue 0, EvStart, EvLoop 0, EvLoop 0, EvLoop 0, EvWorker 0, EvWorker 0, EvWorker 0, EvWorker 0])
     (\<lambda>_ t. workers t = [(0, WDone 0 None)] \<and> LetterID (letterHeap t ! 0) = 7) auto0"
  by (simp add: wp_simps event_ok_def auto0_def pub_st.defs pub0_def QueueLetter_def upd_letters_def StartAutoPublishing_def
      upd_pub_def startAutoPublishingLoop_def deliverLetters_def set_loop_def newPublisher_def busy_def semaphoreCap_def
      finished_def worker_go_def GetChannelFromPool_def publishDeferredConfirm_def get_channels_def put_channels_def started1_def
      newPool_def chan0_def openChan_def scripted_def cfg1_def cfg2_def ReturnChannel_def chan_send_def afterPublish_def
      waitPublishConfirmation_def publishReceipt_def calm_def Let_def)

theorem auto_publisher_receipts_witness:
  "\<exists>t. (auto_step scripted)\<^sup>*\<^sup>* auto0 t \<and>
     mset (map (\<lambda>r. (receipt_LetterID r, receipt_Error r)) (taken t @ receipts t)) = {#(7, None)#}"
proof -
  obtain t where t: "(auto_step scripted)\<^sup>*\<^sup>* auto0 t" "workers t = [(0, WDone 0 None)]" "LetterID (letterHeap t ! 0) = 7"
    using schedule_steps [OF auto0_done] by blast
  from auto_publisher_receipts [OF scripted_channels scripted_confirm auto0_start t(1)] t show ?thesis
    by (intro exI [of _ t]) simp
qed

text \<open>Start, stop, start again: the program crashes.\<close>

theorem restart_crashes_witness:
  "\<exists>u v. (auto_step scripted)\<^sup>*\<^sup>* auto0 u \<and> stopped u \<and> (auto_step scripted)\<^sup>*\<^sup>* u v \<and> crashed v \<and>
     ch_closed (letters (publisher v))"
proof -
  have "autoStop (publisher auto0) = make_chan 1" "stopSenders auto0 = 0"
    by (simp_all add: auto0_def pub_st.defs pub0_def newPublisher_def)
  note r = restart_crashes [OF auto0_start _ this, where E = scripted]
  from r obtain u where u: "(auto_step scripted)\<^sup>*\<^sup>* auto0 u" "stopped u" by auto
  with r obtain v where v: "(auto_step scripted)\<^sup>*\<^sup>* u v" "crashed v" by auto
  have "ch_closed (letters (publisher u))" using u(2) by (simp add: stopped_def)
  with r u v show ?thesis by auto
qed

end
