(* ===== verification/FR_Log.thy ===== *)
theory FR_Log
  imports FR_PoolFrame
begin

section \<open>What is said to the broker\<close>

text \<open>
  An observer of the synchronous methods (declarations, bindings, purges, acknowledgements): \<open>log\<close>
  reads off the world the methods called so far with their answers. \<open>log_law\<close> says that a call of
  such a method adds one entry and that no other operation of the library adds any. \<open>silent m\<close>: the
  code \<open>m\<close> adds nothing. All of the pool's operations are silent.
\<close>

type_synonym 'w log = "'w \<Rightarrow> (amqp_cmd \<times> int64 \<times> goerror option) list"

definition log_law :: "('w, 'e) env_scheme \<Rightarrow> 'w log \<Rightarrow> bool" where
  "log_law E log \<longleftrightarrow>
     (\<forall>a cmd w. log (snd (Chan_Call E a cmd w)) = log w @ [(cmd, fst (Chan_Call E a cmd w))]) \<and>
     (\<forall>u c w. log (snd (DialConfig E u c w)) = log w) \<and> (\<forall>p w. log (snd (Conn_IsClosed E p w)) = log w) \<and>
     (\<forall>p w. log (Conn_Close E p w) = log w) \<and> (\<forall>p w. log (Conn_NotifyClose E p w) = log w) \<and>
     (\<forall>p w. log (Conn_NotifyBlocked E p w) = log w) \<and> (\<forall>p c w. log (snd (feed_Errors E p c w)) = log w) \<and>
     (\<forall>p c w. log (snd (feed_Blockers E p c w)) = log w) \<and> (\<forall>p w. log (snd (Conn_Channel E p w)) = log w) \<and>
     (\<forall>a b w. log (snd (Chan_Confirm E a b w)) = log w) \<and> (\<forall>a w. log (Chan_NotifyClose E a w) = log w) \<and>
     (\<forall>a w. log (Chan_Close E a w) = log w) \<and> (\<forall>d w. log (time_Sleep E d w) = log w) \<and>
     (\<forall>f w. log (snd (os_ReadFile E f w)) = log w) \<and> (\<forall>a b w. log (snd (LoadX509KeyPair E a b w)) = log w)"

lemma log_lawD:
  assumes "log_law E log"
  shows "log (snd (Chan_Call E a cmd w)) = log w @ [(cmd, fst (Chan_Call E a cmd w))]"
    "log (snd (DialConfig E u c w)) = log w" "log (snd (Conn_IsClosed E p w)) = log w" "log (Conn_Close E p w) = log w"
    "log (Conn_NotifyClose E p w) = log w" "log (Conn_NotifyBlocked E p w) = log w" "log (snd (feed_Errors E p e w)) = log w"
    "log (snd (feed_Blockers E p b w)) = log w" "log (snd (Conn_Channel E p w)) = log w"
    "log (snd (Chan_Confirm E a f w)) = log w" "log (Chan_NotifyClose E a w) = log w" "log (Chan_Close E a w) = log w"
    "log (time_Sleep E d w) = log w" "log (snd (os_ReadFile E fn w)) = log w" "log (snd (LoadX509KeyPair E fn fm w)) = log w"
  using assms by (simp_all add: log_law_def)

text \<open>The handlers a pool is given are the application's code; they do not use the observed methods.\<close>

definition handlers_silent :: "'w log \<Rightarrow> ('w, 'q, 'x) pool_st_scheme \<Rightarrow> bool" where
  "handlers_silent log s \<longleftrightarrow> (\<forall>h e w. errorHandler (pool s) = Some h \<longrightarrow> log (h e w) = log w) \<and>
     (\<forall>h e w. unhealthyHandler (pool s) = Some h \<longrightarrow> log (h e w) = log w)"

definition silent :: "'w log \<Rightarrow> (('w, 'q, 'x) pool_st_scheme, 'a) go \<Rightarrow> bool" where
  "silent log m \<longleftrightarrow> (\<forall>s r t. handlers_silent log s \<longrightarrow> m s = Some (r, t) \<longrightarrow>
     log (world t) = log (world s) \<and> handlers_silent log t)"

named_theorems silent_rules \<open>composition of silent code\<close>

lemma silentD: "silent log m \<Longrightarrow> handlers_silent log s \<Longrightarrow> m s = Some (r, t) \<Longrightarrow> log (world t) = log (world s) \<and> handlers_silent log t"
  by (simp add: silent_def)

lemma silent_wlp:
  fixes m :: "(('w, 'q, 'x) pool_st_scheme, 'a) go"
  shows "silent log m \<longleftrightarrow> (\<forall>s. handlers_silent log s \<longrightarrow> wlp m (\<lambda>_ t. log (world t) = log (world s) \<and> handlers_silent log t)
    (\<lambda>_ t. log (world t) = log (world s) \<and> handlers_silent log t) s)"
proof -
  have "settles (\<lambda>_ t. P t) (\<lambda>_ t. P t) (r, t) = P t" for P :: "('w, 'q, 'x) pool_st_scheme \<Rightarrow> bool" and r :: "'a result" and t
    by (cases r) simp_all
  then show ?thesis by (auto simp: silent_def wlp_iff)
qed

lemma silent_bind [silent_rules]:
  fixes m :: "(('w, 'q, 'x) pool_st_scheme, 'a) go" and f :: "'a \<Rightarrow> (('w, 'q, 'x) pool_st_scheme, 'b) go"
  assumes "silent log m" "\<And>a. silent log (f a)"
  shows "silent log (bind_go m f)"
  unfolding silent_wlp
proof (intro allI impI)
  fix s :: "('w, 'q, 'x) pool_st_scheme"
  assume s: "handlers_silent log s"
  show "wlp (bind_go m f) (\<lambda>_ t. log (world t) = log (world s) \<and> handlers_silent log t)
      (\<lambda>_ t. log (world t) = log (world s) \<and> handlers_silent log t) s"
  proof (rule wlp_seq [OF assms(1) [unfolded silent_wlp, rule_format, OF s]], elim conjE)
    fix a and t :: "('w, 'q, 'x) pool_st_scheme"
    assume t: "log (world t) = log (world s)" "handlers_silent log t"
    from assms(2) [of a, unfolded silent_wlp, rule_format, OF t(2)] t(1)
    show "wlp (f a) (\<lambda>_ t. log (world t) = log (world s) \<and> handlers_silent log t)
      (\<lambda>_ t. log (world t) = log (world s) \<and> handlers_silent log t) t" by simp
  qed
qed

lemma silent_prims [silent_rules]:
  "silent log (ret a)" "silent log (gets_go f)" "silent log (panic_go p)" "silent log block_go"
  "silent log (host_at i)" "silent log (chan_at i)" "silent log (upd_host i u)" "silent log (upd_chan i v)"
  by (auto simp: silent_def go_prims host_at_def chan_at_def upd_host_def upd_chan_def handlers_silent_def split: if_splits)

lemma silent_call [silent_rules]: "(\<And>w. log (snd (g w)) = log w) \<Longrightarrow> silent log (env_call g)"
  by (auto simp: silent_def env_call_def handlers_silent_def)

lemma silent_do [silent_rules]: "(\<And>w. log (k w) = log w) \<Longrightarrow> silent log (env_do k)"
  by (auto simp: silent_def env_do_def handlers_silent_def)

lemma silent_upd_pool [silent_rules]:
  "(\<And>cp. errorHandler (h cp) = errorHandler cp \<and> unhealthyHandler (h cp) = unhealthyHandler cp) \<Longrightarrow> silent log (upd_pool h)"
  by (auto simp: silent_def upd_pool_def modify_go_def handlers_silent_def)

lemma silent_fields [silent_rules]:
  "silent log (recv_field get_channels put_channels)" "silent log (send_field get_channels put_channels c)"
  by (auto simp: silent_def recv_field_def send_field_def get_channels_def put_channels_def handlers_silent_def
      split: result.splits prod.splits)

lemma silent_alloc [silent_rules]:
  "silent log (modify_go (\<lambda>s. s\<lparr>connHosts := f s\<rparr>))" "silent log (modify_go (\<lambda>s. s\<lparr>chanHosts := g s\<rparr>))"
  by (simp_all add: silent_def modify_go_def handlers_silent_def)

lemma silent_if [silent_rules]: "silent log m \<Longrightarrow> silent log n \<Longrightarrow> silent log (if b then m else n)"
  by simp

lemma silent_cases [silent_rules]:
  "(\<And>a. silent log (f1 a)) \<Longrightarrow> (\<And>b. silent log (g1 b)) \<Longrightarrow> silent log (case x1 of Inl a \<Rightarrow> f1 a | Inr b \<Rightarrow> g1 b)"
  "silent log m \<Longrightarrow> (\<And>b. silent log (g2 b)) \<Longrightarrow> silent log (case x2 of None \<Rightarrow> m | Some b \<Rightarrow> g2 b)"
  "(\<And>a. silent log (f3 a)) \<Longrightarrow> silent log m \<Longrightarrow> silent log n \<Longrightarrow>
     silent log (case x3 of Received a \<Rightarrow> f3 a | ZeroValue \<Rightarrow> m | WouldBlock \<Rightarrow> n)"
  "(\<And>a. silent log (f4 a)) \<Longrightarrow> (\<And>p. silent log (g4 p)) \<Longrightarrow> silent log n \<Longrightarrow>
     silent log (case x4 of Return a \<Rightarrow> f4 a | Panicked p \<Rightarrow> g4 p | Blocked \<Rightarrow> n)"
  "(\<And>a b. silent log (f5 a b)) \<Longrightarrow> silent log (case x5 of (a, b) \<Rightarrow> f5 a b)"
  "silent log m \<Longrightarrow> (\<And>y ys. silent log (g6 y ys)) \<Longrightarrow> silent log (case x6 of [] \<Rightarrow> m | y # ys \<Rightarrow> g6 y ys)"
  "(\<And>h. silent log (f7 h)) \<Longrightarrow> silent log m \<Longrightarrow> silent log (case x7 of QConnHost h \<Rightarrow> f7 h | QOther \<Rightarrow> m)"
  by (simp_all split: sum.splits option.splits received.splits result.splits prod.splits list.splits qitem.splits)

lemma silent_recover [silent_rules]: "silent log m \<Longrightarrow> silent log (recover_go m)"
  unfolding silent_def recover_go_def by (fastforce split: option.splits result.splits)

lemma silent_forever [silent_rules]:
  fixes body :: "(('w, 'q, 'x) pool_st_scheme, 'a option) go"
  assumes "silent log body"
  shows "silent log (forever body)"
  unfolding silent_wlp
proof (intro allI impI)
  fix s :: "('w, 'q, 'x) pool_st_scheme"
  assume s: "handlers_silent log s"
  let ?R = "\<lambda>t. log (world t) = log (world s) \<and> handlers_silent log t"
  show "wlp (forever body) (\<lambda>_ t. ?R t) (\<lambda>_ t. ?R t) s"
  proof (rule wlp_forever [where I = ?R])
    fix t :: "('w, 'q, 'x) pool_st_scheme" assume t: "?R t"
    from assms [unfolded silent_wlp, rule_format, OF conjunct2 [OF t]] show "wlp body (\<lambda>c u. case c of None \<Rightarrow> ?R u | Some a \<Rightarrow> ?R u) (\<lambda>_ u. ?R u) t"
      by (rule wlp_mono) (use t in \<open>simp_all split: option.splits\<close>)
  qed (simp add: s)
qed

lemma silent_handlers [silent_rules]: "log_law E log \<Longrightarrow> silent log (handleError E err)"
  by (auto simp: silent_def handleError_def call_handler_def sleep_if_positive_def go_prims env_do_def
      handlers_silent_def log_lawD split: option.splits if_splits)

lemma silent_plain [silent_rules]:
  "silent log (reportUnhealthy r)" "silent log (host_conn h)" "silent log (chan_ptr c)" "silent log (unflagConnection i)"
  "silent log (flagConnection i)" "silent log (isConnectionFlagged i)" "silent log (getConnectionFromPool K)"
  "silent log (putConnection K h)"
  subgoal by (auto simp: silent_def reportUnhealthy_def call_handler_def go_prims env_do_def handlers_silent_def
      split: option.splits received.splits)
  unfolding host_conn_def chan_ptr_def unflagConnection_def flagConnection_def isConnectionFlagged_def
    getConnectionFromPool_def putConnection_def
  by (intro silent_rules; simp)+

lemma silent_leaves [silent_rules]:
  assumes "log_law E log"
  shows "silent log (poll_Errors E h)" "silent log (poll_Blockers E h)" "silent log (isConnected E h)" "silent log (hostTLS E ch)"
    "silent log (sleep_if_positive E d)" "silent log (confirmMode E c)"
  unfolding poll_Errors_def poll_Blockers_def isConnected_def hostTLS_def createTLSConfig_def sleep_if_positive_def
    confirmMode_def
  by (intro silent_rules assms; simp add: log_lawD [OF assms])+

lemma silent_handler:
  "(\<And>h e w. eh = Some h \<Longrightarrow> log (h e w) = log w) \<Longrightarrow> silent log (call_handler eh err)"
  by (cases eh) (auto simp: call_handler_def intro!: silent_rules)

lemma silent_connect:
  assumes "log_law E log" "\<And>h e w. eh = Some h \<Longrightarrow> log (h e w) = log w"
  shows "silent log (ConnectWithErrorHandler E eh h)"
  unfolding ConnectWithErrorHandler_def
  by (intro silent_rules silent_handler assms(1)) (auto simp: log_lawD [OF assms(1)] intro: assms(2))

lemma silent_hosts [silent_rules]:
  assumes "log_law E log"
  shows "silent log (PauseOnFlowControl E h)" "silent log (MakeChannel E c)" "silent log (ChannelHost_Close E c)"
  unfolding PauseOnFlowControl_def pauseRound_def MakeChannel_def ChannelHost_Close_def
  by (intro silent_rules assms; simp add: log_lawD [OF assms])+

lemma silent_gets:
  assumes "\<And>s. handlers_silent log s \<Longrightarrow> silent log (f (g s))"
  shows "silent log (bind_go (gets_go g) f)"
  unfolding silent_def
proof (intro allI impI)
  fix s r t
  assume h: "handlers_silent log s" and "bind_go (gets_go g) f s = Some (r, t)"
  then have "f (g s) s = Some (r, t)" by (simp add: bind_go_def gets_go_def)
  with silentD [OF assms [OF h] h] show "log (world t) = log (world s) \<and> handlers_silent log t" by blast
qed

lemma silent_recovery [silent_rules]:
  assumes "log_law E log"
  shows "silent log (triggerConnectionRecovery E h)"
proof -
  have "silent log (recoverRound E h)"
    unfolding recoverRound_def
    by (rule silent_gets, intro silent_rules silent_connect assms) (simp_all add: handlers_silent_def)
  moreover have "silent log (flushErrorsRound E h)"
    unfolding flushErrorsRound_def by (intro silent_rules assms)
  ultimately show ?thesis
    unfolding triggerConnectionRecovery_def by (intro silent_rules assms)
qed

lemma silent_pool [silent_rules]:
  assumes "log_law E log"
  shows "silent log (needsRecovery E h b)" "silent log (NewChannelHost E h i j a tr)"
  unfolding needsRecovery_def NewChannelHost_def
  by (intro silent_rules assms; simp add: log_lawD [OF assms])+

lemma silent_verify [silent_rules]: "log_law E log \<Longrightarrow> silent log (verifyHealthyConnection E h)"
  unfolding verifyHealthyConnection_def by (intro silent_rules)

lemma silent_channel:
  assumes "log_law E log"
  shows "silent log (GetTransientChannel E K b)"
proof -
  have "silent log (GetConnection E K)" "silent log (ReturnConnection K h fl)" for h fl
    unfolding GetConnection_def ReturnConnection_def by (intro silent_rules assms)+
  then have "silent log (createChannelRound E K i c)" for i c
    unfolding createChannelRound_def by (intro silent_rules assms)
  then show ?thesis
    unfolding GetTransientChannel_def createCacheChannel_def by (intro silent_rules)
qed

end
