(* ===== verification/FR_Topologer.thy ===== *)
theory FR_Topologer
  imports FR_Log FR_Publishing
begin

section \<open>The topologer (topologer.go)\<close>

text \<open>
  Every operation takes a transient channel from the pool, runs one synchronous method on it and
  closes the channel again (\<^verbatim>\<open>defer ch.Close()\<close>). Configuration elements are shared by pointer: an
  exchange or a binding is only read (\<open>None\<close> is the nil pointer), a queue is normalised in place, so
  queues live in the heap \<open>queueHeap\<close> and are named by their index.
\<close>

definition QueueTypeQuorum :: string where
  "QueueTypeQuorum = ''quorum''"

definition QueueTypeClassic :: string where
  "QueueTypeClassic = ''classic''"

record Exchange =
  ex_Name :: string
  ex_Type :: string
  ex_PassiveDeclare :: bool
  ex_Durable :: bool
  ex_AutoDelete :: bool
  InternalOnly :: bool
  ex_NoWait :: bool
  ex_Args :: "table option"

record Queue =
  q_Name :: string
  q_PassiveDeclare :: bool
  q_Durable :: bool
  q_AutoDelete :: bool
  q_Exclusive :: bool
  q_NoWait :: bool
  q_Type :: string
  q_Args :: "table option"

record QueueBinding =
  qb_QueueName :: string
  qb_ExchangeName :: string
  qb_RoutingKey :: string
  qb_NoWait :: bool
  qb_Args :: "table option"

record ExchangeBinding =
  eb_ExchangeName :: string
  ParentExchangeName :: string
  eb_RoutingKey :: string
  eb_NoWait :: bool
  eb_Args :: "table option"

record TopologyConfig =
  Exchanges :: "Exchange option list"
  Queues :: "nat list"
  QueueBindings :: "QueueBinding option list"
  ExchangeBindings :: "ExchangeBinding option list"

record ('w, 'q) topo_st = "('w, 'q) pool_st" +
  queueHeap :: "Queue list"

subsection \<open>One method on a transient channel\<close>

definition withTransient ::
  "('w, 'e) env_scheme \<Rightarrow> 'q queue_ops \<Rightarrow> (nat \<Rightarrow> (('w, 'q, 'x) pool_st_scheme, 'a) go) \<Rightarrow> (('w, 'q, 'x) pool_st_scheme, 'a) go" where
  "withTransient E K body =
     bind_go (GetTransientChannel E K False) (\<lambda>c. defer_go (ChannelHost_Close E c) (body c))"

definition callCounting :: "('w, 'e) env_scheme \<Rightarrow> amqp_cmd \<Rightarrow> nat \<Rightarrow> (('w, 'q, 'x) pool_st_scheme, int64 \<times> goerror option) go" where
  "callCounting E cmd c = bind_go (chan_ptr c) (\<lambda>a. env_call (Chan_Call E a cmd))"

definition call :: "('w, 'e) env_scheme \<Rightarrow> amqp_cmd \<Rightarrow> nat \<Rightarrow> (('w, 'q, 'x) pool_st_scheme, goerror option) go" where
  "call E cmd c = bind_go (callCounting E cmd c) (\<lambda>r. ret (snd r))"

text \<open>A nil pointer is dereferenced after the channel was opened; the deferred close still runs.\<close>

definition deref :: "'a option \<Rightarrow> ('a \<Rightarrow> ('s, 'b) go) \<Rightarrow> ('s, 'b) go" where
  "deref p f = (case p of None \<Rightarrow> panic_go NilDereference | Some x \<Rightarrow> f x)"

subsection \<open>Exchanges\<close>

definition exchangeCmd :: "Exchange \<Rightarrow> amqp_cmd" where
  "exchangeCmd x = (if ex_PassiveDeclare x
     then ExchangeDeclarePassive (ex_Name x) (ex_Type x) (ex_Durable x) (ex_AutoDelete x) (InternalOnly x) (ex_NoWait x) (ex_Args x)
     else ExchangeDeclare (ex_Name x) (ex_Type x) (ex_Durable x) (ex_AutoDelete x) (InternalOnly x) (ex_NoWait x) (ex_Args x))"

definition CreateExchange ::
  "('w, 'e) env_scheme \<Rightarrow> 'q queue_ops \<Rightarrow> string \<Rightarrow> string \<Rightarrow> bool \<Rightarrow> bool \<Rightarrow> bool \<Rightarrow> bool \<Rightarrow> bool \<Rightarrow> table option
     \<Rightarrow> (('w, 'q, 'x) pool_st_scheme, goerror option) go" where
  "CreateExchange E K exchangeName exchangeType passiveDeclare durable autoDelete internal noWait args =
     withTransient E K (\<lambda>c.
       if passiveDeclare then call E (ExchangeDeclarePassive exchangeName exchangeType durable autoDelete internal noWait args) c
       else call E (ExchangeDeclare exchangeName exchangeType durable autoDelete internal noWait args) c)"

definition CreateExchangeFromConfig ::
  "('w, 'e) env_scheme \<Rightarrow> 'q queue_ops \<Rightarrow> Exchange option \<Rightarrow> (('w, 'q, 'x) pool_st_scheme, goerror option) go" where
  "CreateExchangeFromConfig E K exchange =
     withTransient E K (\<lambda>c. deref exchange (\<lambda>x. call E (exchangeCmd x) c))"

definition exchangeBindCmd :: "ExchangeBinding \<Rightarrow> amqp_cmd" where
  "exchangeBindCmd b =
     ExchangeBindCmd (eb_ExchangeName b) (eb_RoutingKey b) (ParentExchangeName b) (eb_NoWait b) (eb_Args b)"

definition ExchangeBind ::
  "('w, 'e) env_scheme \<Rightarrow> 'q queue_ops \<Rightarrow> ExchangeBinding option \<Rightarrow> (('w, 'q, 'x) pool_st_scheme, goerror option) go" where
  "ExchangeBind E K exchangeBinding =
     withTransient E K (\<lambda>c. deref exchangeBinding (\<lambda>b. call E (exchangeBindCmd b) c))"

definition ExchangeDelete ::
  "('w, 'e) env_scheme \<Rightarrow> 'q queue_ops \<Rightarrow> string \<Rightarrow> bool \<Rightarrow> bool \<Rightarrow> (('w, 'q, 'x) pool_st_scheme, goerror option) go" where
  "ExchangeDelete E K exchangeName ifUnused noWait =
     withTransient E K (call E (ExchangeDeleteCmd exchangeName ifUnused noWait))"

definition ExchangeUnbind ::
  "('w, 'e) env_scheme \<Rightarrow> 'q queue_ops \<Rightarrow> string \<Rightarrow> string \<Rightarrow> string \<Rightarrow> bool \<Rightarrow> table option
     \<Rightarrow> (('w, 'q, 'x) pool_st_scheme, goerror option) go" where
  "ExchangeUnbind E K exchangeName routingKey parentExchangeName noWait args =
     withTransient E K (call E (ExchangeUnbindCmd exchangeName routingKey parentExchangeName noWait args))"

subsection \<open>Queues\<close>

definition CreateQueue ::
  "('w, 'e) env_scheme \<Rightarrow> 'q queue_ops \<Rightarrow> string \<Rightarrow> bool \<Rightarrow> bool \<Rightarrow> bool \<Rightarrow> bool \<Rightarrow> bool \<Rightarrow> table option
     \<Rightarrow> (('w, 'q, 'x) pool_st_scheme, goerror option) go" where
  "CreateQueue E K queueName passiveDeclare durable autoDelete exclusive noWait args =
     withTransient E K (\<lambda>c.
       if passiveDeclare then call E (QueueDeclarePassive queueName durable autoDelete exclusive noWait args) c
       else call E (QueueDeclare queueName durable autoDelete exclusive noWait args) c)"

text \<open>A quorum queue is made durable and shared; its type is passed on only if there are no other arguments.\<close>

definition normaliseQueue :: "Queue \<Rightarrow> Queue" where
  "normaliseQueue q = (if q_Type q = QueueTypeQuorum then
       q\<lparr>q_Exclusive := False, q_Durable := True, q_NoWait := False, q_AutoDelete := False,
         q_Args := (case q_Args q of None \<Rightarrow> Some [''x-queue-type'' \<mapsto> GString (q_Type q)] | Some m \<Rightarrow> Some m)\<rparr>
     else q)"

definition queueCmd :: "Queue \<Rightarrow> amqp_cmd" where
  "queueCmd q = (if q_PassiveDeclare q
     then QueueDeclarePassive (q_Name q) (q_Durable q) (q_AutoDelete q) (q_Exclusive q) (q_NoWait q) (q_Args q)
     else QueueDeclare (q_Name q) (q_Durable q) (q_AutoDelete q) (q_Exclusive q) (q_NoWait q) (q_Args q))"

definition CreateQueueFromConfig ::
  "('w, 'e) env_scheme \<Rightarrow> 'q queue_ops \<Rightarrow> nat \<Rightarrow> (('w, 'q, 'x) topo_st_scheme, goerror option) go" where
  "CreateQueueFromConfig E K queue =
     withTransient E K (\<lambda>c.
       bind_go (gets_go queueHeap) (\<lambda>hp.
         if queue < length hp then
           bind_go (modify_go (\<lambda>s. s\<lparr>queueHeap := hp[queue := normaliseQueue (hp ! queue)]\<rparr>)) (\<lambda>_.
           call E (queueCmd (normaliseQueue (hp ! queue))) c)
         else panic_go NilDereference))"

definition QueueDelete ::
  "('w, 'e) env_scheme \<Rightarrow> 'q queue_ops \<Rightarrow> string \<Rightarrow> bool \<Rightarrow> bool \<Rightarrow> bool \<Rightarrow> (('w, 'q, 'x) pool_st_scheme, int64 \<times> goerror option) go" where
  "QueueDelete E K nm ifUnused ifEmpty noWait =
     withTransient E K (callCounting E (QueueDeleteCmd nm ifUnused ifEmpty noWait))"

definition queueBindCmd :: "QueueBinding \<Rightarrow> amqp_cmd" where
  "queueBindCmd b = QueueBindCmd (qb_QueueName b) (qb_RoutingKey b) (qb_ExchangeName b) (qb_NoWait b) (qb_Args b)"

definition QueueBind ::
  "('w, 'e) env_scheme \<Rightarrow> 'q queue_ops \<Rightarrow> QueueBinding option \<Rightarrow> (('w, 'q, 'x) pool_st_scheme, goerror option) go" where
  "QueueBind E K queueBinding =
     withTransient E K (\<lambda>c. deref queueBinding (\<lambda>b. call E (queueBindCmd b) c))"

definition PurgeQueue ::
  "('w, 'e) env_scheme \<Rightarrow> 'q queue_ops \<Rightarrow> string \<Rightarrow> bool \<Rightarrow> (('w, 'q, 'x) pool_st_scheme, int64 \<times> goerror option) go" where
  "PurgeQueue E K queueName noWait = withTransient E K (callCounting E (QueuePurge queueName noWait))"

text \<open>The loop of \<^verbatim>\<open>PurgeQueues\<close> with the running total, an int that wraps.\<close>

fun purgeLoop ::
  "('w, 'e) env_scheme \<Rightarrow> 'q queue_ops \<Rightarrow> bool \<Rightarrow> int64 \<Rightarrow> string list \<Rightarrow> (('w, 'q, 'x) pool_st_scheme, int64 \<times> goerror option) go" where
  "purgeLoop E K noWait acc [] = ret (acc, None)"
| "purgeLoop E K noWait acc (q # qs) =
     bind_go (PurgeQueue E K q noWait) (\<lambda>(count, err).
       if err \<noteq> None then ret (acc, err) else purgeLoop E K noWait (acc + count) qs)"

definition PurgeQueues ::
  "('w, 'e) env_scheme \<Rightarrow> 'q queue_ops \<Rightarrow> string list \<Rightarrow> bool \<Rightarrow> (('w, 'q, 'x) pool_st_scheme, int64 \<times> goerror option) go" where
  "PurgeQueues E K queueNames noWait =
     (if queueNames = [] then ret (0, Some (ErrorString ''can't purge an empty array of queues''))
      else purgeLoop E K noWait 0 queueNames)"

definition UnbindQueue ::
  "('w, 'e) env_scheme \<Rightarrow> 'q queue_ops \<Rightarrow> string \<Rightarrow> string \<Rightarrow> string \<Rightarrow> table option \<Rightarrow> (('w, 'q, 'x) pool_st_scheme, goerror option) go" where
  "UnbindQueue E K queueName routingKey exchangeName args =
     withTransient E K (call E (QueueUnbind queueName routingKey exchangeName args))"

subsection \<open>Building\<close>

fun BuildExchanges ::
  "('w, 'e) env_scheme \<Rightarrow> 'q queue_ops \<Rightarrow> bool \<Rightarrow> Exchange option list \<Rightarrow> (('w, 'q, 'x) topo_st_scheme, goerror option) go" where
  "BuildExchanges E K ignoreErrors [] = ret None"
| "BuildExchanges E K ignoreErrors (exchange # exchanges) =
     bind_go (CreateExchangeFromConfig E K exchange) (\<lambda>err.
       if err \<noteq> None \<and> \<not> ignoreErrors then ret err else BuildExchanges E K ignoreErrors exchanges)"

fun BuildQueues ::
  "('w, 'e) env_scheme \<Rightarrow> 'q queue_ops \<Rightarrow> bool \<Rightarrow> nat list \<Rightarrow> (('w, 'q, 'x) topo_st_scheme, goerror option) go" where
  "BuildQueues E K ignoreErrors [] = ret None"
| "BuildQueues E K ignoreErrors (queue # queues) =
     bind_go (CreateQueueFromConfig E K queue) (\<lambda>err.
       if err \<noteq> None \<and> \<not> ignoreErrors then ret err else BuildQueues E K ignoreErrors queues)"

fun BindQueues ::
  "('w, 'e) env_scheme \<Rightarrow> 'q queue_ops \<Rightarrow> bool \<Rightarrow> QueueBinding option list \<Rightarrow> (('w, 'q, 'x) topo_st_scheme, goerror option) go" where
  "BindQueues E K ignoreErrors [] = ret None"
| "BindQueues E K ignoreErrors (queueBinding # bindings) =
     bind_go (QueueBind E K queueBinding) (\<lambda>err.
       if err \<noteq> None \<and> \<not> ignoreErrors then ret err else BindQueues E K ignoreErrors bindings)"

fun BindExchanges ::
  "('w, 'e) env_scheme \<Rightarrow> 'q queue_ops \<Rightarrow> bool \<Rightarrow> ExchangeBinding option list \<Rightarrow> (('w, 'q, 'x) topo_st_scheme, goerror option) go" where
  "BindExchanges E K ignoreErrors [] = ret None"
| "BindExchanges E K ignoreErrors (exchangeBinding # bindings) =
     bind_go (ExchangeBind E K exchangeBinding) (\<lambda>err.
       if err \<noteq> None \<and> \<not> ignoreErrors then ret err else BindExchanges E K ignoreErrors bindings)"

definition BuildTopology ::
  "('w, 'e) env_scheme \<Rightarrow> 'q queue_ops \<Rightarrow> TopologyConfig \<Rightarrow> bool \<Rightarrow> (('w, 'q, 'x) topo_st_scheme, goerror option) go" where
  "BuildTopology E K config ignoreErrors =
     bind_go (BuildExchanges E K ignoreErrors (Exchanges config)) (\<lambda>err.
       if err \<noteq> None \<and> \<not> ignoreErrors then ret err else
     bind_go (BuildQueues E K ignoreErrors (Queues config)) (\<lambda>err.
       if err \<noteq> None \<and> \<not> ignoreErrors then ret err else
     bind_go (BindQueues E K ignoreErrors (QueueBindings config)) (\<lambda>err.
       if err \<noteq> None \<and> \<not> ignoreErrors then ret err else
     bind_go (BindExchanges E K ignoreErrors (ExchangeBindings config)) (\<lambda>err.
       if err \<noteq> None \<and> \<not> ignoreErrors then ret err else ret None))))"

text \<open>
  Reading a topology from a file (json.go). \<^verbatim>\<open>json.Unmarshal\<close> is a parameter; it fills in the struct and
  allocates the queues the struct points to.
\<close>

definition emptyTopology :: TopologyConfig where
  "emptyTopology = \<lparr>Exchanges = [], Queues = [], QueueBindings = [], ExchangeBindings = []\<rparr>"

definition ConvertJSONFileToTopologyConfig ::
  "('w, 'e) env_scheme \<Rightarrow> (bytes \<Rightarrow> TopologyConfig \<times> Queue list \<Rightarrow> goerror option \<times> TopologyConfig \<times> Queue list) \<Rightarrow> string
     \<Rightarrow> (('w, 'q, 'x) topo_st_scheme, TopologyConfig \<times> goerror option) go" where
  "ConvertJSONFileToTopologyConfig E unmarshal fileNamePath =
     bind_go (gets_go queueHeap) (\<lambda>hp.
     bind_go (ConvertJsonToStruct E unmarshal fileNamePath (emptyTopology, hp)) (\<lambda>(err, config, hp').
     bind_go (modify_go (\<lambda>s. s\<lparr>queueHeap := hp'\<rparr>)) (\<lambda>_. ret (config, err))))"

subsection \<open>What one operation says to the broker\<close>

text \<open>What the operations rely on: the laws of queue and library, a sound pool, handlers that keep out.\<close>

definition topo_ok ::
  "('w, 'e) env_scheme \<Rightarrow> 'q queue_ops \<Rightarrow> ('q \<Rightarrow> qitem list) \<Rightarrow> 'w log \<Rightarrow> ('w, 'q, 'x) pool_st_scheme \<Rightarrow> bool" where
  "topo_ok E K items log s \<longleftrightarrow> fifo_queue K items \<and> channel_law E \<and> log_law E log \<and> pool_inv items s \<and> handlers_silent log s"

lemma topo_ok_world [simp]: "topo_ok E K items log (s\<lparr>world := w\<rparr>) = topo_ok E K items log s"
  by (simp add: topo_ok_def handlers_silent_def)

text \<open>\<open>said log s new t\<close>: from \<open>s\<close> to \<open>t\<close> the log grew by \<open>new\<close>.\<close>

definition said :: "'w log \<Rightarrow> ('w, 'x) base_st_scheme \<Rightarrow> (amqp_cmd \<times> int64 \<times> goerror option) list \<Rightarrow> ('w, 'x) base_st_scheme \<Rightarrow> bool" where
  "said log s new t \<longleftrightarrow> log (world t) = log (world s) @ new"

lemma withTransient_wlp:
  fixes s :: "('w, 'q, 'x) pool_st_scheme"
  assumes ok: "topo_ok E K items log s"
    and body: "\<And>c t. topo_ok E K items log t \<Longrightarrow> opened t c \<Longrightarrow> said log s [] t \<Longrightarrow> pool_st.more t = pool_st.more s \<Longrightarrow>
      wp (body c) (\<lambda>a u. opened u c \<and> (\<forall>w. log w = log (world u) \<longrightarrow> Q a (u\<lparr>world := w\<rparr>))) t"
    and blocked: "\<And>t. pool_inv items t \<Longrightarrow> said log s [] t \<Longrightarrow> X None t"
  shows "wlp (withTransient E K body) Q X s"
proof -
  have laws: "fifo_queue K items" "channel_law E" "log_law E log" "pool_inv items s" "handlers_silent log s"
    using ok by (simp_all add: topo_ok_def)
  have get: "wlp (GetTransientChannel E K False) (\<lambda>c t. pool_inv items t \<and> opened t c \<and> pool_st.more t = pool_st.more s \<and>
        log (world t) = log (world s) \<and> handlers_silent log t)
      (\<lambda>p t. p = None \<and> pool_inv items t \<and> log (world t) = log (world s)) s"
    using wlp_conj [OF transient_wlp [OF laws(1,2,4), of False]
        silent_channel [OF laws(3), unfolded silent_wlp, rule_format, OF laws(5), of K False]]
    by (rule wlp_mono) auto
  have get': "wlp (GetTransientChannel E K False) (\<lambda>c t. pool_inv items t \<and> opened t c \<and> pool_st.more t = pool_st.more s \<and>
        log (world t) = log (world s) \<and> handlers_silent log t) X s"
    by (rule wlp_mono [OF get]) (use blocked in \<open>auto simp: said_def\<close>)
  show ?thesis
    unfolding withTransient_def
  proof (rule wlp_seq [OF get'], elim conjE)
    fix c and t :: "('w, 'q, 'x) pool_st_scheme"
    assume t: "pool_inv items t" "opened t c" "pool_st.more t = pool_st.more s" "log (world t) = log (world s)" "handlers_silent log t"
    have "wp (body c) (\<lambda>a u. opened u c \<and> (\<forall>w. log w = log (world u) \<longrightarrow> Q a (u\<lparr>world := w\<rparr>))) t"
      by (rule body) (use t laws in \<open>simp_all add: topo_ok_def said_def\<close>)
    then have "wp (defer_go (ChannelHost_Close E c) (body c)) Q t"
      unfolding wp_defer
      by (rule wp_mono) (auto simp: ChannelHost_Close_def wp_simps opened_def log_lawD [OF laws(3)])
    then show "wlp (defer_go (ChannelHost_Close E c) (body c)) Q X t" by (rule wp_imp_wlp)
  qed
qed

lemma callCounting_wp:
  assumes "log_law E log" "opened t c"
  shows "wp (callCounting E cmd c) (\<lambda>r u. only_world t u \<and> log (world u) = log (world t) @ [(cmd, r)]) t"
  using assms by (auto simp: callCounting_def wp_simps opened_def log_lawD [OF assms(1)])

text \<open>The contract of an operation: parked with nothing said, or exactly one command, and its answer.\<close>

lemma counting_op:
  assumes "topo_ok E K items log s"
  shows "wlp (withTransient E K (callCounting E cmd)) (\<lambda>r t. topo_ok E K items log t \<and> said log s [(cmd, r)] t \<and>
      pool_st.more t = pool_st.more s) (\<lambda>p t. p = None \<and> said log s [] t) s"
proof (rule withTransient_wlp [OF assms])
  fix c t
  assume t: "topo_ok E K items log t" "opened t c" "said log s [] t" "pool_st.more t = pool_st.more s"
  have "log_law E log" using assms by (simp add: topo_ok_def)
  from callCounting_wp [OF this t(2)] show "wp (callCounting E cmd c) (\<lambda>r u. opened u c \<and> (\<forall>w. log w = log (world u) \<longrightarrow>
      topo_ok E K items log (u\<lparr>world := w\<rparr>) \<and> said log s [(cmd, r)] (u\<lparr>world := w\<rparr>) \<and>
      pool_st.more (u\<lparr>world := w\<rparr>) = pool_st.more s)) t"
    by (rule wp_mono) (use t in \<open>auto elim!: only_worldE simp: opened_def said_def\<close>)
qed simp

lemma calling_op:
  assumes "topo_ok E K items log s"
  shows "wlp (withTransient E K (call E cmd)) (\<lambda>e t. topo_ok E K items log t \<and> (\<exists>n. said log s [(cmd, n, e)] t) \<and>
      pool_st.more t = pool_st.more s) (\<lambda>p t. p = None \<and> said log s [] t) s"
proof (rule withTransient_wlp [OF assms])
  fix c t
  assume t: "topo_ok E K items log t" "opened t c" "said log s [] t" "pool_st.more t = pool_st.more s"
  have "log_law E log" using assms by (simp add: topo_ok_def)
  from callCounting_wp [OF this t(2)] show "wp (call E cmd c) (\<lambda>e u. opened u c \<and> (\<forall>w. log w = log (world u) \<longrightarrow>
      topo_ok E K items log (u\<lparr>world := w\<rparr>) \<and> (\<exists>n. said log s [(cmd, n, e)] (u\<lparr>world := w\<rparr>)) \<and>
      pool_st.more (u\<lparr>world := w\<rparr>) = pool_st.more s)) t"
    unfolding call_def wp_bind wp_ret
    by (rule wp_mono) (use t in \<open>auto elim!: only_worldE simp: opened_def said_def\<close>)
qed simp

text \<open>Queues are normalised where they are; normalising again changes nothing.\<close>

lemma normaliseQueue_idem [simp]: "normaliseQueue (normaliseQueue q) = normaliseQueue q"
  by (simp add: normaliseQueue_def split: option.splits)

definition same_queues :: "('w, 'q, 'x) topo_st_scheme \<Rightarrow> ('w, 'q, 'x) topo_st_scheme \<Rightarrow> bool" where
  "same_queues s t \<longleftrightarrow> map normaliseQueue (queueHeap t) = map normaliseQueue (queueHeap s) \<and> topo_st.more t = topo_st.more s"

lemma same_queues_more: "pool_st.more t = pool_st.more u \<Longrightarrow> same_queues s u \<Longrightarrow> same_queues s t"
  by (cases t; cases u) (simp add: same_queues_def)

lemma queue_op:
  assumes "topo_ok E K items log s" "same_queues s0 s" "q < length (queueHeap s0)"
  shows "wlp (CreateQueueFromConfig E K q) (\<lambda>e t. topo_ok E K items log t \<and> same_queues s0 t \<and>
      (\<exists>n. said log s [(queueCmd (normaliseQueue (queueHeap s0 ! q)), n, e)] t)) (\<lambda>p t. p = None \<and> said log s [] t) s"
  unfolding CreateQueueFromConfig_def
proof (rule withTransient_wlp [OF assms(1)])
  fix c t
  assume t: "topo_ok E K items log t" "opened t c" "said log s [] t" "pool_st.more t = pool_st.more s"
  let ?u = "t\<lparr>queueHeap := (queueHeap t)[q := normaliseQueue (queueHeap t ! q)]\<rparr>"
  have sq: "same_queues s0 t" using same_queues_more [OF t(4) assms(2)] .
  then have eq: "map normaliseQueue (queueHeap t) = map normaliseQueue (queueHeap s0)" by (simp add: same_queues_def)
  then have len: "length (queueHeap t) = length (queueHeap s0)" by (rule map_eq_imp_length_eq)
  have nth: "normaliseQueue (queueHeap t ! q) = normaliseQueue (queueHeap s0 ! q)"
    using arg_cong [OF eq, of "\<lambda>xs. xs ! q"] assms(3) len by simp
  have squ: "same_queues s0 ?u" 
    using sq nth assms(3) by (simp add: same_queues_def map_update list_update_same_conv)
  have law: "log_law E log" using assms by (simp add: topo_ok_def)
  have "topo_ok E K items log ?u" "opened ?u c"
    using t(1,2) by (simp_all add: topo_ok_def pool_inv_def heap_ok_def conn_live_def handlers_silent_def opened_def)
  note call = callCounting_wp [OF law this(2), of "queueCmd (normaliseQueue (queueHeap t ! q))"]
  have "wp (call E (queueCmd (normaliseQueue (queueHeap t ! q))) c) (\<lambda>e u. opened u c \<and> (\<forall>w. log w = log (world u) \<longrightarrow>
      topo_ok E K items log (u\<lparr>world := w\<rparr>) \<and> same_queues s0 (u\<lparr>world := w\<rparr>) \<and>
      (\<exists>n. said log s [(queueCmd (normaliseQueue (queueHeap s0 ! q)), n, e)] (u\<lparr>world := w\<rparr>)))) ?u"
    unfolding call_def wp_bind wp_ret
    by (rule wp_mono [OF call])
      (use t(3) \<open>topo_ok E K items log ?u\<close> \<open>opened ?u c\<close> squ nth in
        \<open>auto elim!: only_worldE simp: opened_def said_def same_queues_def\<close>)
  with assms(3) len show "wp (bind_go (gets_go queueHeap) (\<lambda>hp.
         if q < length hp then
           bind_go (modify_go (\<lambda>s. s\<lparr>queueHeap := hp[q := normaliseQueue (hp ! q)]\<rparr>)) (\<lambda>_.
           call E (queueCmd (normaliseQueue (hp ! q))) c)
         else panic_go NilDereference)) (\<lambda>e u. opened u c \<and> (\<forall>w. log w = log (world u) \<longrightarrow>
      topo_ok E K items log (u\<lparr>world := w\<rparr>) \<and> same_queues s0 (u\<lparr>world := w\<rparr>) \<and>
      (\<exists>n. said log s [(queueCmd (normaliseQueue (queueHeap s0 ! q)), n, e)] (u\<lparr>world := w\<rparr>)))) t"
    by (simp add: wp_simps)
qed simp

subsection \<open>Carrying out a list of commands\<close>

text \<open>
  What the building functions promise: \<open>new\<close> is what was said while carrying out \<open>cmds\<close>, \<open>e\<close> what was
  returned. Commands go out in order. Ignoring errors, all of them go out and no error is returned;
  otherwise the first error ends it and is returned, and without an error all of them went out.
\<close>

definition carried_out ::
  "bool \<Rightarrow> amqp_cmd list \<Rightarrow> (amqp_cmd \<times> int64 \<times> goerror option) list \<Rightarrow> goerror option \<Rightarrow> bool" where
  "carried_out ig cmds new e \<longleftrightarrow> map fst new = take (length new) cmds \<and>
     (if ig then e = None \<and> length new = length cmds
      else case e of
        None \<Rightarrow> length new = length cmds \<and> (\<forall>x \<in> set new. snd (snd x) = None)
      | Some err \<Rightarrow> \<exists>before last. new = before @ [last] \<and> snd (snd last) = Some err \<and> (\<forall>x \<in> set before. snd (snd x) = None))"

lemma carried_out_Nil: "carried_out ig [] [] None"
  by (simp add: carried_out_def)

lemma carried_out_one: "carried_out ig [cmd] [(cmd, n, e)] (if ig then None else e)"
  by (simp add: carried_out_def split: option.splits)

lemma carried_out_stop: "carried_out False c1 n1 (Some err) \<Longrightarrow> carried_out False (c1 @ c2) n1 (Some err)"
  by (auto simp: carried_out_def dest: arg_cong [where f = length])

lemma carried_out_append:
  assumes "carried_out ig c1 n1 None" "carried_out ig c2 n2 e"
  shows "carried_out ig (c1 @ c2) (n1 @ n2) e"
proof (cases e)
  case None
  with assms show ?thesis by (simp add: carried_out_def ball_Un split: if_splits)
next
  case (Some err)
  with assms obtain before lst where b: "\<not> ig" "n2 = before @ [lst]" "snd (snd lst) = Some err" "\<forall>x \<in> set before. snd (snd x) = None"
    by (auto simp: carried_out_def split: if_splits)
  have n1: "length n1 = length c1" "\<forall>x \<in> set n1. snd (snd x) = None" "map fst n1 = c1"
    using assms(1) b(1) by (auto simp: carried_out_def)
  have "map fst n2 = take (length n2) c2" using assms(2) by (simp add: carried_out_def)
  then have "map fst (n1 @ n2) = take (length (n1 @ n2)) (c1 @ c2)" using n1 by simp
  moreover have "\<exists>bs l. n1 @ n2 = bs @ [l] \<and> snd (snd l) = Some err \<and> (\<forall>x \<in> set bs. snd (snd x) = None)"
    using b n1(2) by (intro exI [of _ "n1 @ before"] exI [of _ lst]) auto
  ultimately show ?thesis using Some b(1) by (simp add: carried_out_def)
qed

text \<open>
  The contract of a loop that runs one operation per element and stops at the first error unless
  errors are ignored, where each operation says one command and keeps \<open>inv\<close>.
\<close>

locale build_loop =
  fixes log :: "'w log"
    and inv :: "('w, 'x) base_st_scheme \<Rightarrow> bool"
    and legal :: "'a \<Rightarrow> bool"
    and cmd :: "'a \<Rightarrow> amqp_cmd"
    and op :: "'a \<Rightarrow> (('w, 'x) base_st_scheme, goerror option) go"
    and build :: "bool \<Rightarrow> 'a list \<Rightarrow> (('w, 'x) base_st_scheme, goerror option) go"
  assumes op_said: "inv s \<Longrightarrow> legal x \<Longrightarrow> wlp (op x) (\<lambda>e t. inv t \<and> (\<exists>n. said log s [(cmd x, n, e)] t))
      (\<lambda>p t. p = None \<and> said log s [] t) s"
    and build_Nil: "build ig [] = ret None"
    and build_Cons: "build ig (x # xs) = bind_go (op x) (\<lambda>e. if e \<noteq> None \<and> \<not> ig then ret e else build ig xs)"
begin

lemma build_carried_out:
  assumes "inv s" "\<forall>x \<in> set xs. legal x"
  shows "wlp (build ig xs) (\<lambda>e t. inv t \<and> (\<exists>new. said log s new t \<and> carried_out ig (map cmd xs) new e))
    (\<lambda>p t. p = None \<and> (\<exists>new. said log s new t \<and> map fst new = take (length new) (map cmd xs))) s"
  using assms
proof (induction xs arbitrary: s)
  case Nil
  then show ?case by (auto simp: build_Nil wlp_ret said_def carried_out_Nil)
next
  case (Cons x xs)
  have x: "legal x" using Cons.prems by simp
  let ?Q = "\<lambda>e t. inv t \<and> (\<exists>new. said log s new t \<and> carried_out ig (map cmd (x # xs)) new e)"
  let ?X = "\<lambda>p t. p = None \<and> (\<exists>new. said log s new t \<and> map fst new = take (length new) (map cmd (x # xs)))"
  have op: "wlp (op x) (\<lambda>e t. inv t \<and> (\<exists>n. said log s [(cmd x, n, e)] t)) ?X s"
    by (rule wlp_mono [OF op_said [OF Cons.prems(1) x]]) (auto intro!: exI [of _ "[]"])
  show ?case
    unfolding build_Cons
  proof (rule wlp_seq [OF op], elim conjE exE, goal_cases)
    case (1 e t n)
    show ?case
    proof (cases "e \<noteq> None \<and> \<not> ig")
      case True
      with 1 carried_out_stop [of "[cmd x]" "[(cmd x, n, e)]" _ "map cmd xs"] carried_out_one [of ig "cmd x" n e]
      show ?thesis by (auto simp: wlp_ret)
    next
      case False
      then have one: "carried_out ig [cmd x] [(cmd x, n, e)] None" using carried_out_one [of ig "cmd x" n e] by auto
      have "wlp (build ig xs) ?Q ?X t"
      proof (rule wlp_mono [OF Cons.IH [OF 1(1)]])
        show "\<forall>x \<in> set xs. legal x" using Cons.prems by simp
        fix a u assume "inv u \<and> (\<exists>new. said log t new u \<and> carried_out ig (map cmd xs) new a)"
        then show "?Q a u"
          using 1(2) carried_out_append [OF one] by (fastforce simp: said_def)
      next
        fix p u assume "p = None \<and> (\<exists>new. said log t new u \<and> map fst new = take (length new) (map cmd xs))"
        then obtain new where "p = None" "said log t new u" "map fst new = take (length new) (map cmd xs)" by blast
        then show "?X p u"
          using 1(2) by (intro conjI exI [of _ "(cmd x, n, e) # new"]) (simp_all add: said_def)
      qed
      with False show ?thesis by auto
    qed
  qed
qed

end

text \<open>The four loops, from a state \<open>s0\<close> of the queues on; the pointers in the lists are not nil.\<close>

definition topo_run ::
  "('w, 'e) env_scheme \<Rightarrow> 'q queue_ops \<Rightarrow> ('q \<Rightarrow> qitem list) \<Rightarrow> 'w log \<Rightarrow> ('w, 'q, 'x) topo_st_scheme
     \<Rightarrow> ('w, 'q, 'x) topo_st_scheme \<Rightarrow> bool" where
  "topo_run E K items log s0 s \<longleftrightarrow> topo_ok E K items log s \<and> same_queues s0 s"

lemma pointer_op:
  assumes "topo_run E K items log s0 s"
  shows "wlp (withTransient E K (\<lambda>c. deref (Some x) (\<lambda>x. call E (f x) c)))
      (\<lambda>e t. topo_run E K items log s0 t \<and> (\<exists>n. said log s [(f x, n, e)] t)) (\<lambda>p t. p = None \<and> said log s [] t) s"
proof -
  have "topo_ok E K items log s" "same_queues s0 s" using assms by (simp_all add: topo_run_def)
  with wlp_mono [OF calling_op [OF this(1), of "f x"]] same_queues_more [of _ s s0] show ?thesis
    by (fastforce simp: deref_def topo_run_def)
qed

interpretation exchanges: build_loop log "topo_run E K items log s0" "\<lambda>x. x \<noteq> None" "\<lambda>x. exchangeCmd (the x)"
  "CreateExchangeFromConfig E K" "BuildExchanges E K" for log E K items s0
  by unfold_locales (auto simp: CreateExchangeFromConfig_def intro: pointer_op)

interpretation queueBindings: build_loop log "topo_run E K items log s0" "\<lambda>x. x \<noteq> None" "\<lambda>x. queueBindCmd (the x)"
  "QueueBind E K" "BindQueues E K" for log E K items s0
  by unfold_locales (auto simp: QueueBind_def intro: pointer_op)

interpretation exchangeBindings: build_loop log "topo_run E K items log s0" "\<lambda>x. x \<noteq> None" "\<lambda>x. exchangeBindCmd (the x)"
  "ExchangeBind E K" "BindExchanges E K" for log E K items s0
  by unfold_locales (auto simp: ExchangeBind_def intro: pointer_op)

lemma queue_run:
  assumes "topo_run E K items log s0 s" "q < length (queueHeap s0)"
  shows "wlp (CreateQueueFromConfig E K q)
      (\<lambda>e t. topo_run E K items log s0 t \<and> (\<exists>n. said log s [(queueCmd (normaliseQueue (queueHeap s0 ! q)), n, e)] t))
      (\<lambda>p t. p = None \<and> said log s [] t) s"
  by (rule wlp_mono [OF queue_op]) (use assms in \<open>auto simp: topo_run_def\<close>)

interpretation queues: build_loop log "topo_run E K items log s0" "\<lambda>q. q < length (queueHeap s0)"
  "\<lambda>q. queueCmd (normaliseQueue (queueHeap s0 ! q))" "CreateQueueFromConfig E K" "BuildQueues E K" for log E K items s0
  by unfold_locales (auto intro: queue_run)

subsection \<open>Building a topology\<close>

definition achieved :: "'w log \<Rightarrow> bool \<Rightarrow> amqp_cmd list \<Rightarrow> ('w, 'x) base_st_scheme \<Rightarrow> goerror option \<Rightarrow> ('w, 'x) base_st_scheme \<Rightarrow> bool" where
  "achieved log ig cmds s e t \<longleftrightarrow> (\<exists>new. said log s new t \<and> carried_out ig cmds new e)"

definition begun :: "'w log \<Rightarrow> amqp_cmd list \<Rightarrow> ('w, 'x) base_st_scheme \<Rightarrow> ('w, 'x) base_st_scheme \<Rightarrow> bool" where
  "begun log cmds s t \<longleftrightarrow> (\<exists>new. said log s new t \<and> map fst new = take (length new) cmds)"

lemma begun_more: "begun log c1 s t \<Longrightarrow> begun log (c1 @ c2) s t"
  unfolding begun_def by (metis append.right_neutral append_take_drop_id diff_is_0_eq' length_map length_take min.absorb_iff2
      nat_le_linear take0 take_append take_all_iff)

lemma stage_seq:
  assumes "wlp m (\<lambda>e t. I t \<and> achieved log ig c1 s e t) (\<lambda>p t. p = None \<and> begun log c1 s t) s"
    and "\<And>t. I t \<Longrightarrow> wlp k (\<lambda>e u. I u \<and> achieved log ig c2 t e u) (\<lambda>p u. p = None \<and> begun log c2 t u) t"
  shows "wlp (bind_go m (\<lambda>e. if e \<noteq> None \<and> \<not> ig then ret e else k)) (\<lambda>e u. I u \<and> achieved log ig (c1 @ c2) s e u)
    (\<lambda>p u. p = None \<and> begun log (c1 @ c2) s u) s"
proof -
  let ?X = "\<lambda>p u. p = None \<and> begun log (c1 @ c2) s u"
  have m: "wlp m (\<lambda>e t. I t \<and> achieved log ig c1 s e t) ?X s"
    by (rule wlp_mono [OF assms(1)]) (simp_all add: begun_more)
  show ?thesis
  proof (rule wlp_seq [OF m], elim conjE)
    fix e t assume t: "I t" "achieved log ig c1 s e t"
    show "wlp (if e \<noteq> None \<and> \<not> ig then ret e else k) (\<lambda>e u. I u \<and> achieved log ig (c1 @ c2) s e u) ?X t"
    proof (cases "e \<noteq> None \<and> \<not> ig")
      case True
      with t show ?thesis by (auto simp: wlp_ret achieved_def dest: carried_out_stop)
    next
      case False
      then obtain n1 where n1: "said log s n1 t" "carried_out ig c1 n1 None"
        using t(2) by (auto simp: achieved_def carried_out_def)
      then have full: "map fst n1 = c1" "length n1 = length c1" by (auto simp: carried_out_def split: if_splits)
      have "wlp k (\<lambda>e u. I u \<and> achieved log ig (c1 @ c2) s e u) ?X t"
      proof (rule wlp_mono [OF assms(2) [OF t(1)]])
        fix e u assume "I u \<and> achieved log ig c2 t e u"
        then show "I u \<and> achieved log ig (c1 @ c2) s e u"
          using n1 carried_out_append [OF n1(2)] unfolding achieved_def said_def by fastforce
      next
        fix p u assume "p = None \<and> begun log c2 t u"
        then obtain n2 where "p = None" "said log t n2 u" "map fst n2 = take (length n2) c2" by (auto simp: begun_def)
        then show "p = None \<and> begun log (c1 @ c2) s u"
          unfolding begun_def using n1(1) full by (intro conjI exI [of _ "n1 @ n2"]) (simp_all add: said_def)
      qed
      with False show ?thesis by auto
    qed
  qed
qed

text \<open>The commands of a configuration: exchanges, queues (normalised), bindings of queues, bindings of exchanges.\<close>

definition topologyCmds :: "Queue list \<Rightarrow> TopologyConfig \<Rightarrow> amqp_cmd list" where
  "topologyCmds qs config = map (\<lambda>x. exchangeCmd (the x)) (Exchanges config) @
     map (\<lambda>q. queueCmd (normaliseQueue (qs ! q))) (Queues config) @
     map (\<lambda>b. queueBindCmd (the b)) (QueueBindings config) @ map (\<lambda>b. exchangeBindCmd (the b)) (ExchangeBindings config)"

definition config_ok :: "Queue list \<Rightarrow> TopologyConfig \<Rightarrow> bool" where
  "config_ok qs config \<longleftrightarrow> None \<notin> set (Exchanges config) \<and> (\<forall>q \<in> set (Queues config). q < length qs) \<and>
     None \<notin> set (QueueBindings config) \<and> None \<notin> set (ExchangeBindings config)"

lemma BuildTopology_wlp:
  assumes ok: "topo_ok E K items log s" and cfg: "config_ok (queueHeap s) config"
  shows "wlp (BuildTopology E K config ig) (\<lambda>e t. topo_run E K items log s t \<and> achieved log ig (topologyCmds (queueHeap s) config) s e t)
    (\<lambda>p t. p = None \<and> begun log (topologyCmds (queueHeap s) config) s t) s"
proof -
  have run: "topo_run E K items log s s" using ok by (simp add: topo_run_def same_queues_def)
  have cmds: "topologyCmds (queueHeap s) config = map (\<lambda>x. exchangeCmd (the x)) (Exchanges config) @
     map (\<lambda>q. queueCmd (normaliseQueue (queueHeap s ! q))) (Queues config) @
     map (\<lambda>b. queueBindCmd (the b)) (QueueBindings config) @ map (\<lambda>b. exchangeBindCmd (the b)) (ExchangeBindings config) @ []"
    by (simp add: topologyCmds_def)
  note c = cfg [unfolded config_ok_def]
  have ex: "\<forall>x \<in> set (Exchanges config). x \<noteq> None" "\<forall>x \<in> set (QueueBindings config). x \<noteq> None"
    "\<forall>x \<in> set (ExchangeBindings config). x \<noteq> None" using c by metis+
  have qs: "\<forall>q \<in> set (Queues config). q < length (queueHeap s)" using c by simp
  have fin: "wlp (ret None) (\<lambda>e u. topo_run E K items log s u \<and> achieved log ig [] t e u) (\<lambda>p u. p = None \<and> begun log [] t u) t"
    if "topo_run E K items log s t" for t
    using that by (simp add: wlp_ret achieved_def said_def carried_out_Nil)
  note r1 = exchanges.build_carried_out [OF run ex(1), of ig] and r2 = queues.build_carried_out [OF _ qs, of E K items log _ ig]
    and r3 = queueBindings.build_carried_out [OF _ ex(2), of E K items log s _ ig]
    and r4 = exchangeBindings.build_carried_out [OF _ ex(3), of E K items log s _ ig]
  show ?thesis
    unfolding BuildTopology_def cmds
    by (rule stage_seq, (unfold achieved_def begun_def, rule r1)[1],
        rule stage_seq, (unfold achieved_def begun_def, erule r2)[1],
        rule stage_seq, (unfold achieved_def begun_def, erule r3)[1],
        rule stage_seq, (unfold achieved_def begun_def, erule r4)[1],
        (fold achieved_def begun_def)?, erule fin)
qed

text \<open>
  C28: what building a topology says to the broker, on any network. \<open>BuildTopology\<close> does not panic on a
  configuration without nil pointers. The commands go out in the order of the configuration:
  exchanges, queues, bindings of queues, bindings of exchanges. Unless errors are ignored, the first
  command the broker refuses is the last one sent and its error is returned, and nil means that all
  were accepted; ignoring errors all are sent and nil is returned. If the call parks, a prefix was sent.
\<close>

theorem BuildTopology_commands:
  assumes "fifo_queue K items" "channel_law E" "log_law E log" "pool_inv items s" "handlers_silent log s"
    and "config_ok (queueHeap s) config" "BuildTopology E K config ig s = Some (r, t)"
  shows "case r of
      Return e \<Rightarrow> pool_inv items t \<and>
        (\<exists>new. log (world t) = log (world s) @ new \<and> carried_out ig (topologyCmds (queueHeap s) config) new e)
    | Blocked \<Rightarrow> \<exists>new. log (world t) = log (world s) @ new \<and> map fst new = take (length new) (topologyCmds (queueHeap s) config)
    | Panicked p \<Rightarrow> False"
proof -
  have "topo_ok E K items log s" using assms(1-5) by (simp add: topo_ok_def)
  from BuildTopology_wlp [OF this assms(6), of ig] assms(7) show ?thesis
    by (cases r) (auto simp: wlp_iff achieved_def begun_def said_def topo_run_def topo_ok_def)
qed

subsection \<open>Purging\<close>

definition purged :: "(amqp_cmd \<times> int64 \<times> goerror option) list \<Rightarrow> int64" where
  "purged new = (\<Sum>x\<leftarrow>new. if snd (snd x) = None then fst (snd x) else 0)"

lemma purgeLoop_wlp:
  assumes "topo_ok E K items log s"
  shows "wlp (purgeLoop E K noWait acc qs) (\<lambda>r t. \<exists>new. said log s new t \<and>
      carried_out False (map (\<lambda>q. QueuePurge q noWait) qs) new (snd r) \<and> fst r = acc + purged new)
    (\<lambda>p t. p = None) s"
  using assms
proof (induction qs arbitrary: s acc)
  case Nil
  then show ?case by (auto simp: wlp_ret said_def purged_def intro: carried_out_Nil)
next
  case (Cons q qs)
  let ?Q = "\<lambda>r t. \<exists>new. said log s new t \<and>
      carried_out False (map (\<lambda>q. QueuePurge q noWait) (q # qs)) new (snd r) \<and> fst r = acc + purged new"
  have op: "wlp (PurgeQueue E K q noWait) (\<lambda>r t. topo_ok E K items log t \<and> said log s [(QueuePurge q noWait, r)] t) (\<lambda>p t. p = None) s"
    unfolding PurgeQueue_def by (rule wlp_mono [OF counting_op [OF Cons.prems]]) auto
  show ?case
    unfolding purgeLoop.simps
  proof (rule wlp_seq [OF op], elim conjE, goal_cases)
    case (1 r t)
    obtain n e where r: "r = (n, e)" by (cases r)
    have one: "carried_out False [QueuePurge q noWait] [(QueuePurge q noWait, n, e)] e"
      using carried_out_one [of False "QueuePurge q noWait" n e] by simp
    show ?case
    proof (cases e)
      case (Some err)
      from one have "carried_out False ([QueuePurge q noWait] @ map (\<lambda>q. QueuePurge q noWait) qs) [(QueuePurge q noWait, n, e)] e"
        unfolding Some by (rule carried_out_stop)
      with Some r 1(2) show ?thesis
        by (auto simp: wlp_ret purged_def intro!: exI [of _ "[(QueuePurge q noWait, n, Some err)]"])
    next
      case None
      have "wlp (purgeLoop E K noWait (acc + n) qs) ?Q (\<lambda>p t. p = None) t"
      proof (rule wlp_mono [OF Cons.IH [OF 1(1), of "acc + n"]])
        fix r' u
        assume "\<exists>new. said log t new u \<and> carried_out False (map (\<lambda>q. QueuePurge q noWait) qs) new (snd r') \<and>
            fst r' = acc + n + purged new"
        then obtain new where new: "said log t new u" "carried_out False (map (\<lambda>q. QueuePurge q noWait) qs) new (snd r')"
          "fst r' = acc + n + purged new" by blast
        from carried_out_append [OF one [unfolded None] new(2)] show "?Q r' u"
          using new 1(2) r None by (intro exI [of _ "(QueuePurge q noWait, n, None) # new"]) (simp add: said_def purged_def)
      qed simp
      with None r show ?thesis by simp
    qed
  qed
qed

text \<open>
  C29: \<open>PurgeQueues\<close> on any network. An empty list is an error and nothing is sent. Otherwise the queues
  are purged in order up to the first error, which is returned; the total returned, in 64-bit
  arithmetic, is the sum of the counts of the queues that were purged, also when a later one fails.
\<close>

theorem PurgeQueues_total:
  assumes "fifo_queue K items" "channel_law E" "log_law E log" "pool_inv items s" "handlers_silent log s"
    and "PurgeQueues E K qs noWait s = Some (Return (n, e), t)"
  shows "\<exists>new. log (world t) = log (world s) @ new \<and> n = purged new \<and>
    (if qs = [] then e = Some (ErrorString ''can't purge an empty array of queues'') \<and> new = []
     else carried_out False (map (\<lambda>q. QueuePurge q noWait) qs) new e)"
proof -
  have "topo_ok E K items log s" using assms(1-5) by (simp add: topo_ok_def)
  from purgeLoop_wlp [OF this, of noWait 0 qs] assms(6) show ?thesis
    by (auto simp: PurgeQueues_def wlp_iff said_def ret_def purged_def split: if_splits)
qed

text \<open>
  C30: quorum queues. \<open>CreateQueueFromConfig\<close> makes a queue of type quorum durable, shared, permanent and
  waited for, once and for all; but it passes the type on to the broker only when the queue has no
  other arguments: with any argument given, the declaration carries no \<open>x-queue-type\<close> of its own and
  names what an ordinary durable queue with these arguments would.
\<close>

theorem quorum_type_dropped:
  assumes "q_Type q = QueueTypeQuorum"
  shows "q_Durable (normaliseQueue q) \<and> \<not> q_Exclusive (normaliseQueue q) \<and> \<not> q_AutoDelete (normaliseQueue q) \<and>
    \<not> q_NoWait (normaliseQueue q) \<and> normaliseQueue (normaliseQueue q) = normaliseQueue q \<and>
    (case q_Args q of
       None \<Rightarrow> q_Args (normaliseQueue q) = Some [''x-queue-type'' \<mapsto> GString ''quorum'']
     | Some m \<Rightarrow> queueCmd (normaliseQueue q) =
         queueCmd (normaliseQueue (q\<lparr>q_Type := QueueTypeClassic, q_Durable := True, q_Exclusive := False, q_AutoDelete := False,
           q_NoWait := False\<rparr>)))"
  using assms by (simp add: normaliseQueue_def queueCmd_def QueueTypeQuorum_def QueueTypeClassic_def split: option.splits)

subsection \<open>Instances\<close>

definition ex0 :: Exchange where
  "ex0 = \<lparr>ex_Name = ''ex'', ex_Type = ''direct'', ex_PassiveDeclare = False, ex_Durable = True, ex_AutoDelete = False,
     InternalOnly = False, ex_NoWait = False, ex_Args = None\<rparr>"

definition q0 :: Queue where
  "q0 = \<lparr>q_Name = ''q'', q_PassiveDeclare = False, q_Durable = False, q_AutoDelete = False, q_Exclusive = False,
     q_NoWait = False, q_Type = ''quorum'', q_Args = None\<rparr>"

definition topo0 :: "(broker, qitem list) topo_st" where
  "topo0 = \<lparr>world = calm\<lparr>calls := [(0, None), (0, Some refused)]\<rparr>, connHosts = [host0], chanHosts = [], pool = pool started1,
     queueHeap = [q0]\<rparr>"

definition conf0 :: TopologyConfig where
  "conf0 = \<lparr>Exchanges = [Some ex0], Queues = [0, 0], QueueBindings = [], ExchangeBindings = []\<rparr>"

lemma scripted_log: "log_law scripted called"
  by (simp add: log_law_def scripted_def)

lemma topo0_ok: "pool_inv (\<lambda>q. q) topo0" "handlers_silent called topo0" "config_ok (queueHeap topo0) conf0"
  by (simp_all add: topo0_def started1_def pool_inv_def heap_ok_def conn_live_def host0_def openHost_def newPool_def chan_ok_def
      handlers_silent_def config_ok_def conf0_def slice_fits_def cfg1_def cfg2_def)
text \<open>A pool at rest with the one connection \<open>host0\<close>; operations on it return and leave it at rest.\<close>

definition resting :: "(int64 \<times> goerror option) list \<Rightarrow> (broker, qitem list, 'x) pool_st_scheme \<Rightarrow> bool" where
  "resting cs s \<longleftrightarrow> obliging (world s) \<and> calls (world s) = cs \<and> connHosts s = [host0] \<and>
     connections (pool s) = [QConnHost 0] \<and> flaggedConnections (pool s) = Map.empty"

lemma resting_transient:
  assumes "resting cs s"
    and "\<And>t. resting cs t \<Longrightarrow> opened t (length (chanHosts s)) \<Longrightarrow> pool_st.more t = pool_st.more s \<Longrightarrow>
      wp (body (length (chanHosts s))) (\<lambda>r u. opened u (length (chanHosts s)) \<and> Q r u) t"
  shows "wp (withTransient scripted list_queue body) Q s"
  unfolding withTransient_def wp_bind
proof (rule quiet_transient [where H = "\<lambda>w. obliging w \<and> calls w = cs" and h = 0 and xs = "[]", OF _ list_queue_fifo])
  show "healthy scripted (\<lambda>w. obliging w \<and> calls w = cs)"
    by (simp add: healthy_def scripted_def obliging_def)
  fix w a and q :: "qitem list"
  let ?t = "s\<lparr>world := w, chanHosts := chanHosts s @ [openChan 0 (ConnectionID (connHosts s ! 0)) False 0 a],
      pool := (pool s)\<lparr>connections := q\<rparr>\<rparr>"
  assume "obliging w \<and> calls w = cs" "q = [] @ [QConnHost 0]"
  then have "resting cs ?t" "opened ?t (length (chanHosts s))"
    using assms(1) by (simp_all add: resting_def opened_def openChan_def)
  from assms(2) [OF this] show "wp (defer_go (ChannelHost_Close scripted (length (chanHosts s))) (body (length (chanHosts s)))) Q ?t"
    unfolding wp_defer by (auto elim!: wp_mono simp: ChannelHost_Close_def wp_simps opened_def scripted_def)
qed (use assms(1) in \<open>simp_all add: resting_def unflagged_def host0_def\<close>)

lemma resting_call:
  assumes "resting cs s"
  shows "wp (withTransient scripted list_queue (callCounting scripted cmd)) (\<lambda>r t. r = next_of (0, None) cs \<and> resting (tl cs) t \<and>
    pool_st.more t = pool_st.more s) s"
    "wp (withTransient scripted list_queue (call scripted cmd)) (\<lambda>e t. e = snd (next_of (0, None) cs) \<and> resting (tl cs) t \<and>
    pool_st.more t = pool_st.more s) s"
  by (rule resting_transient [OF assms]; auto simp: callCounting_def call_def wp_simps opened_def resting_def scripted_def obliging_def)+

lemma topo0_run: "wp (BuildTopology scripted list_queue conf0 False) (\<lambda>e t. e = Some refused) topo0"
proof -
  have 0: "resting [(0, None), (0, Some refused)] topo0"
    by (simp add: resting_def topo0_def obliging_def calm_def started1_def newPool_def)
  have ex: "wp (CreateExchangeFromConfig scripted list_queue (Some ex0))
      (\<lambda>e t. e = None \<and> resting [(0, Some refused)] t \<and> pool_st.more t = pool_st.more topo0) topo0"
    using resting_call(2) [OF 0, of "exchangeCmd ex0"] by (simp add: CreateExchangeFromConfig_def deref_def)
  have qu: "wp (CreateQueueFromConfig scripted list_queue 0) (\<lambda>e u. e = Some refused) t"
    if t: "resting [(0, Some refused)] t" "pool_st.more t = pool_st.more topo0" for t :: "(broker, qitem list) topo_st"
    unfolding CreateQueueFromConfig_def
  proof (rule resting_transient [OF t(1)])
    fix u assume u: "resting [(0, Some refused)] u" "opened u (length (chanHosts t))" "pool_st.more u = pool_st.more t"
    have "queueHeap u = [q0]" using u(3) t(2) by (cases u; cases t) (simp add: topo0_def)
    with u show "wp (bind_go (gets_go queueHeap) (\<lambda>hp. if 0 < length hp
         then bind_go (modify_go (\<lambda>s. s\<lparr>queueHeap := hp[0 := normaliseQueue (hp ! 0)]\<rparr>)) (\<lambda>_.
           call scripted (queueCmd (normaliseQueue (hp ! 0))) (length (chanHosts t)))
         else panic_go NilDereference)) (\<lambda>r u. opened u (length (chanHosts t)) \<and> r = Some refused) u"
      by (simp add: call_def callCounting_def wp_simps opened_def resting_def scripted_def)
  qed
  have "wp (BuildExchanges scripted list_queue False [Some ex0])
      (\<lambda>e t. e = None \<and> resting [(0, Some refused)] t \<and> pool_st.more t = pool_st.more topo0) topo0"
    unfolding BuildExchanges.simps wp_bind by (rule wp_mono [OF ex]) (simp add: wp_ret)
  then show ?thesis
    unfolding BuildTopology_def conf0_def TopologyConfig.select_convs wp_bind
    by (rule wp_mono) (auto simp: wp_bind wp_ret intro!: wp_mono [OF qu])
qed

theorem BuildTopology_commands_witness:
  "\<exists>t new. BuildTopology scripted list_queue conf0 False topo0 = Some (Return (Some refused), t) \<and>
     called (world t) = new \<and> carried_out False (topologyCmds [q0] conf0) new (Some refused)"
proof -
  from topo0_run obtain t where t: "BuildTopology scripted list_queue conf0 False topo0 = Some (Return (Some refused), t)"
    by (auto simp: wp_iff)
  have empty: "called (world topo0) = []" "queueHeap topo0 = [q0]" by (simp_all add: topo0_def calm_def)
  from BuildTopology_commands [OF list_queue_fifo scripted_channels scripted_log topo0_ok t] t show ?thesis
    unfolding empty by simp
qed

definition purge0 :: "(broker, qitem list) topo_st" where
  "purge0 = topo0\<lparr>world := calm\<lparr>calls := [(4, None), (6, None)]\<rparr>\<rparr>"

lemma purge0_run: "wp (PurgeQueues scripted list_queue [''a'', ''b''] False) (\<lambda>r _. r = (10, None)) purge0"
proof -
  have 0: "resting [(4, None), (6, None)] purge0"
    by (simp add: resting_def purge0_def topo0_def obliging_def calm_def started1_def newPool_def)
  show ?thesis
    unfolding PurgeQueues_def PurgeQueue_def purgeLoop.simps
    by (simp add: wp_bind PurgeQueue_def wp_ret)
      (auto intro!: wp_mono [OF resting_call(1) [OF 0]] wp_mono [OF resting_call(1)] simp: wp_bind wp_ret)
qed

theorem PurgeQueues_total_witness:
  "\<exists>t new. PurgeQueues scripted list_queue [''a'', ''b''] False purge0 = Some (Return (10, None), t) \<and>
     called (world t) = new \<and> purged new = 10"
proof -
  from purge0_run obtain t where t: "PurgeQueues scripted list_queue [''a'', ''b''] False purge0 = Some (Return (10, None), t)"
    by (auto simp: wp_iff)
  have p: "pool_inv (\<lambda>q. q) purge0" "handlers_silent called purge0" "called (world purge0) = []"
    using topo0_ok by (simp_all add: purge0_def handlers_silent_def calm_def)
  from PurgeQueues_total [OF list_queue_fifo scripted_channels scripted_log p(1,2) t] t p(3) show ?thesis by auto
qed

theorem quorum_type_dropped_witness:
  "q_Args (normaliseQueue q0) = Some [''x-queue-type'' \<mapsto> GString ''quorum''] \<and>
   q_Args (normaliseQueue (q0\<lparr>q_Args := Some Map.empty\<rparr>)) = Some Map.empty"
  using quorum_type_dropped [of q0]
  by (simp add: q0_def QueueTypeQuorum_def normaliseQueue_def)

end
