(* ===== verification/FR_Consumer.thy ===== *)
theory FR_Consumer
  imports FR_Topologer
begin

section \<open>The consumer (consumer.go)\<close>

text \<open>
  \<^verbatim>\<open>StartConsuming\<close> starts a loop goroutine that takes a cached channel, subscribes, and hands each
  delivery to an action or puts it into a buffer. As with the auto publisher, goroutines are program
  counters and a step of the machine is a client's call, one step of one loop, or the broker pushing
  a delivery. The lock is held across steps only by a \<^verbatim>\<open>StopConsuming\<close> that has found the stop channel
  full: it waits for room (\<open>stopWaiting\<close>, with its flush flag) until a receive takes its signal into the
  channel, and then goes on (\<open>stopSent\<close>); everything else that locks does so within a step. The flushes
  are exported and take no lock: a client may run each of them at any time, round by round. A
  loop keeps the channel of its current subscription and, as history, what the broker pushed there
  (\<open>lp_sent\<close>), what was taken from it (\<open>lp_taken\<close>, \<open>None\<close> for the zero value of a closed channel) and what
  was handed on (\<open>lp_out\<close>).
\<close>

record Consumer =
  con_Config :: ConsumerConfig
  QueueName :: string
  ConsumerName :: string
  con_errors :: "goerror gochan"
  con_sleepOnErrorInterval :: duration
  receivedMessages :: "ReceivedMessage gochan"
  consumeStop :: "bool gochan"
  started :: bool
  autoAck :: bool
  exclusive :: bool
  noWait :: bool
  con_args :: "table option"
  qosCountOverride :: int

definition newConsumer :: "ConsumerConfig \<Rightarrow> Consumer" where
  "newConsumer config =
     \<lparr>con_Config = config, QueueName = cc_QueueName config, ConsumerName = cc_ConsumerName config,
      con_errors = make_chan 1000, con_sleepOnErrorInterval = Duration (cc_SleepOnErrorInterval config) Millisecond,
      receivedMessages = make_chan 1000, consumeStop = make_chan 1, started = False, autoAck = cc_AutoAck config,
      exclusive = cc_Exclusive config, noWait = cc_NoWait config, con_args = cc_Args config,
      qosCountOverride = cc_QosCountOverride config\<rparr>"

text \<open>A nil configuration is dereferenced.\<close>

definition NewConsumer :: "ConsumerConfig option \<Rightarrow> Consumer result" where
  "NewConsumer config = (case config of None \<Rightarrow> Panicked NilDereference | Some c \<Rightarrow> Return (newConsumer c))"

text \<open>\<^verbatim>\<open>Get\<close> asks the broker to acknowledge automatically.\<close>

definition Get ::
  "('w, 'e) env_scheme \<Rightarrow> 'q queue_ops \<Rightarrow> string \<Rightarrow> (('w, 'q, 'x) pool_st_scheme, amqp_Delivery option \<times> goerror option) go" where
  "Get E K queueName =
     withTransient E K (\<lambda>c.
       bind_go (chan_ptr c) (\<lambda>a.
       bind_go (env_call (Chan_Get E a queueName True)) (\<lambda>(delivery, ok, getErr).
         if getErr \<noteq> None then ret (None, getErr)
         else if ok then ret (Some delivery, None) else ret (None, None))))"

subsection \<open>The loops\<close>

type_synonym 'w action = "ReceivedMessage \<Rightarrow> 'w \<Rightarrow> 'w"

datatype cons_pc =
    CSelect
  | CGetChannel
  | CQos nat
  | CConsume nat
  | CFail nat
  | CErrors nat
  | CReport goerror
  | CRead nat
  | CHand nat ReceivedMessage
  | CStopSelect nat
  | CExit
  | CEnded

record 'w cons_loop =
  lp_pc :: cons_pc
  lp_action :: "'w action option"
  lp_deliveries :: "amqp_Delivery gochan"
  lp_sent :: "amqp_Delivery list"
  lp_taken :: "amqp_Delivery option list"
  lp_out :: "ReceivedMessage list"

record ('w, 'q) cons_st = "('w, 'q) pool_st" +
  consumer :: Consumer
  cloops :: "'w cons_loop list"
  stopWaiting :: "bool option"
  stopSent :: "bool option"

definition upd_con :: "(Consumer \<Rightarrow> Consumer) \<Rightarrow> (('w, 'q, 'x) cons_st_scheme, unit) go" where
  "upd_con f = modify_go (\<lambda>s. s\<lparr>consumer := f (consumer s)\<rparr>)"

definition upd_loop :: "nat \<Rightarrow> ('w cons_loop \<Rightarrow> 'w cons_loop) \<Rightarrow> (('w, 'q, 'x) cons_st_scheme, unit) go" where
  "upd_loop j f = modify_go (\<lambda>s. s\<lparr>cloops := (cloops s)[j := f (cloops s ! j)]\<rparr>)"

definition goto :: "nat \<Rightarrow> cons_pc \<Rightarrow> (('w, 'q, 'x) cons_st_scheme, unit) go" where
  "goto j pc = upd_loop j (\<lambda>lp. lp\<lparr>lp_pc := pc\<rparr>)"

text \<open>The channels of the struct, as fields of the state.\<close>

definition get_stop :: "('w, 'q, 'x) cons_st_scheme \<Rightarrow> bool gochan" where
  "get_stop s = consumeStop (consumer s)"
definition put_stop :: "bool gochan \<Rightarrow> ('w, 'q, 'x) cons_st_scheme \<Rightarrow> ('w, 'q, 'x) cons_st_scheme" where
  "put_stop c s = s\<lparr>consumer := (consumer s)\<lparr>consumeStop := c\<rparr>\<rparr>"
definition get_errors :: "('w, 'q, 'x) cons_st_scheme \<Rightarrow> goerror gochan" where
  "get_errors s = con_errors (consumer s)"
definition put_errors :: "goerror gochan \<Rightarrow> ('w, 'q, 'x) cons_st_scheme \<Rightarrow> ('w, 'q, 'x) cons_st_scheme" where
  "put_errors c s = s\<lparr>consumer := (consumer s)\<lparr>con_errors := c\<rparr>\<rparr>"
definition get_messages :: "('w, 'q, 'x) cons_st_scheme \<Rightarrow> ReceivedMessage gochan" where
  "get_messages s = receivedMessages (consumer s)"
definition put_messages :: "ReceivedMessage gochan \<Rightarrow> ('w, 'q, 'x) cons_st_scheme \<Rightarrow> ('w, 'q, 'x) cons_st_scheme" where
  "put_messages c s = s\<lparr>consumer := (consumer s)\<lparr>receivedMessages := c\<rparr>\<rparr>"

text \<open>
  A receive from the stop channel that does not wait. A \<^verbatim>\<open>StopConsuming\<close> that waits for room has its
  signal moved into the channel by the receive and can go on.
\<close>

definition recv_stop :: "(('w, 'q, 'x) cons_st_scheme, bool received) go" where
  "recv_stop = (\<lambda>s. case chan_recv (get_stop s) of
       (Received b, c) \<Rightarrow> (case stopWaiting s of
           None \<Rightarrow> Some (Return (Received b), put_stop c s)
         | Some flushMessages \<Rightarrow> Some (Return (Received b),
             (put_stop (c\<lparr>ch_buf := ch_buf c @ [True]\<rparr>) s)\<lparr>stopWaiting := None, stopSent := Some flushMessages\<rparr>))
     | (v, c) \<Rightarrow> Some (Return v, s))"

definition FlushStop :: "(('w, 'q, 'x) cons_st_scheme, unit) go" where
  "FlushStop = forever (bind_go recv_stop (\<lambda>r.
     case r of WouldBlock \<Rightarrow> ret (Some ()) | Received x \<Rightarrow> ret None | ZeroValue \<Rightarrow> ret None))"

definition FlushErrors :: "(('w, 'q, 'x) cons_st_scheme, unit) go" where
  "FlushErrors = flush_field get_errors put_errors"

definition FlushMessages :: "(('w, 'q, 'x) cons_st_scheme, unit) go" where
  "FlushMessages = flush_field get_messages put_messages"

definition ReceivedMessages :: "Consumer \<Rightarrow> ReceivedMessage gochan" where
  "ReceivedMessages con = receivedMessages con"

definition con_Errors :: "Consumer \<Rightarrow> goerror gochan" where
  "con_Errors con = con_errors con"

text \<open>Methods that lock park while another call holds the lock.\<close>

definition withLock :: "(('w, 'q, 'x) cons_st_scheme, 'a) go \<Rightarrow> (('w, 'q, 'x) cons_st_scheme, 'a) go" where
  "withLock m = bind_go (gets_go (\<lambda>s. stopWaiting s = None \<and> stopSent s = None)) (\<lambda>free. if free then m else block_go)"

definition Started :: "(('w, 'q, 'x) cons_st_scheme, bool) go" where
  "Started = withLock (gets_go (\<lambda>s. started (consumer s)))"

definition newLoop :: "'w action option \<Rightarrow> 'w cons_loop" where
  "newLoop action = \<lparr>lp_pc = CSelect, lp_action = action, lp_deliveries = make_chan 0, lp_sent = [], lp_taken = [], lp_out = []\<rparr>"

definition StartConsuming :: "'w action option \<Rightarrow> (('w, 'q, 'x) cons_st_scheme, unit) go" where
  "StartConsuming action = withLock
     (bind_go FlushErrors (\<lambda>_.
      bind_go FlushStop (\<lambda>_.
      bind_go (modify_go (\<lambda>s. s\<lparr>cloops := cloops s @ [newLoop action]\<rparr>)) (\<lambda>_.
      upd_con (\<lambda>con. con\<lparr>started := True\<rparr>)))))"

text \<open>The send parks with the lock held when the stop channel is full; \<open>finishStop\<close> is what follows it.\<close>

definition finishStop :: "bool \<Rightarrow> (('w, 'q, 'x) cons_st_scheme, unit) go" where
  "finishStop flushMessages =
     bind_go (if flushMessages then FlushMessages else ret ()) (\<lambda>_.
     modify_go (\<lambda>s. s\<lparr>stopSent := None\<rparr>))"

definition StopConsuming :: "bool \<Rightarrow> (('w, 'q, 'x) cons_st_scheme, unit) go" where
  "StopConsuming flushMessages = withLock
     (bind_go (gets_go consumer) (\<lambda>con.
       if \<not> started con then ret ()
       else bind_go (gets_go (\<lambda>s. chan_send True (get_stop s) = Blocked)) (\<lambda>full.
         if full then modify_go (\<lambda>s. s\<lparr>stopWaiting := Some flushMessages\<rparr>)
         else bind_go (send_field get_stop put_stop True) (\<lambda>_. finishStop flushMessages))))"

text \<open>The zero value of a delivery, which a receive from a closed channel yields.\<close>

definition zeroDelivery :: amqp_Delivery where
  "zeroDelivery = \<lparr>d_Acknowledger = None, d_DeliveryTag = 0, d_MessageId = '''', d_AppId = '''',
     d_Timestamp = \<lparr>unix_sec = -62135596800, zone_offset = 0\<rparr>, d_Body = []\<rparr>"

definition channelClosed :: "amqp_error \<Rightarrow> goerror" where
  "channelClosed e = ErrorString (''consumer's current channel closed'' @ [CHR 0x0D, CHR 0x0A] @ ''[reason: '' @ Reason e @ '']'' @
     [CHR 0x0D, CHR 0x0A] @ ''[code: '' @ append_int (Code e) 0 @ '']'')"

text \<open>A message to hand on: to the action, or into the buffer, which may be full.\<close>

definition handOn :: "nat \<Rightarrow> nat \<Rightarrow> 'w cons_loop \<Rightarrow> amqp_Delivery \<Rightarrow> (('w, 'q, 'x) cons_st_scheme, unit) go" where
  "handOn j c lp delivery =
     bind_go (gets_go (\<lambda>s. NewReceivedMessage (\<not> autoAck (consumer s)) delivery)) (\<lambda>msg. case lp_action lp of
       Some action \<Rightarrow>
         bind_go (env_do (action msg)) (\<lambda>_. upd_loop j (\<lambda>lp. lp\<lparr>lp_pc := CStopSelect c, lp_out := lp_out lp @ [msg]\<rparr>))
     | None \<Rightarrow> goto j (CHand c msg))"

text \<open>One step of \<^verbatim>\<open>processDeliveries\<close> on the channel \<open>c\<close>.\<close>

definition processDeliveries ::
  "('w, 'e) env_scheme \<Rightarrow> nat \<Rightarrow> 'w cons_loop \<Rightarrow> (('w, 'q, 'x) cons_st_scheme, unit) go" where
  "processDeliveries E j lp = (case lp_pc lp of
       CErrors c \<Rightarrow>
         bind_go (poll_ChanErrors E c) (\<lambda>r. case r of
           Received e \<Rightarrow> bind_go (ReturnChannel E c True) (\<lambda>_. goto j (CReport (channelClosed e)))
         | ZeroValue \<Rightarrow> goto j (CRead c)
         | WouldBlock \<Rightarrow> goto j (CRead c))
     | CReport err \<Rightarrow>
         bind_go (send_field get_errors put_errors err) (\<lambda>_.
         bind_go (gets_go consumer) (\<lambda>con.
         bind_go (sleep_if_positive E (con_sleepOnErrorInterval con)) (\<lambda>_. goto j CSelect)))
     | CRead c \<Rightarrow> (case chan_recv (lp_deliveries lp) of
           (Received d, ch) \<Rightarrow>
             bind_go (upd_loop j (\<lambda>lp. lp\<lparr>lp_deliveries := ch, lp_taken := lp_taken lp @ [Some d]\<rparr>)) (\<lambda>_. handOn j c lp d)
         | (ZeroValue, ch) \<Rightarrow>
             bind_go (upd_loop j (\<lambda>lp. lp\<lparr>lp_taken := lp_taken lp @ [None]\<rparr>)) (\<lambda>_. handOn j c lp zeroDelivery)
         | (WouldBlock, ch) \<Rightarrow> goto j (CStopSelect c))
     | CHand c msg \<Rightarrow>
         bind_go (send_field get_messages put_messages msg) (\<lambda>_.
         upd_loop j (\<lambda>lp. lp\<lparr>lp_pc := CStopSelect c, lp_out := lp_out lp @ [msg]\<rparr>))
     | CStopSelect c \<Rightarrow>
         bind_go recv_stop (\<lambda>r.
           if r = Received True then bind_go (ReturnChannel E c False) (\<lambda>_. goto j CExit) else goto j (CErrors c))
     | _ \<Rightarrow> block_go)"

definition startConsumeLoop ::
  "('w, 'e) env_scheme \<Rightarrow> nat \<Rightarrow> 'w cons_loop \<Rightarrow> (('w, 'q, 'x) cons_st_scheme, unit) go" where
  "startConsumeLoop E j lp = (case lp_pc lp of
       CSelect \<Rightarrow>
         bind_go recv_stop (\<lambda>r. if r = Received True then goto j CExit else goto j CGetChannel)
     | CGetChannel \<Rightarrow> bind_go GetChannelFromPool (\<lambda>c. goto j (CQos c))
     | CQos c \<Rightarrow>
         bind_go (gets_go consumer) (\<lambda>con.
           if 0 < qosCountOverride con then
             bind_go (chan_ptr c) (\<lambda>a.
             bind_go (env_call (Chan_Call E a (QosCmd (qosCountOverride con) 0 False))) (\<lambda>r.
               if snd r \<noteq> None then goto j (CFail c) else goto j (CConsume c)))
           else goto j (CConsume c))
     | CConsume c \<Rightarrow>
         bind_go (gets_go consumer) (\<lambda>con.
         bind_go (chan_ptr c) (\<lambda>a.
         bind_go (env_call (Chan_Consume E a (QueueName con) (ConsumerName con) (autoAck con) (exclusive con) False (noWait con))) (\<lambda>err.
           if err \<noteq> None then goto j (CFail c)
           else upd_loop j (\<lambda>lp. lp\<lparr>lp_pc := CErrors c, lp_deliveries := make_chan 0, lp_sent := [], lp_taken := [], lp_out := []\<rparr>))))
     | CFail c \<Rightarrow>
         bind_go (ReturnChannel E c True) (\<lambda>_.
         bind_go (gets_go consumer) (\<lambda>con.
         bind_go (sleep_if_positive E (con_sleepOnErrorInterval con)) (\<lambda>_. goto j CSelect)))
     | CExit \<Rightarrow> withLock (bind_go (upd_con (\<lambda>con. con\<lparr>started := False\<rparr>)) (\<lambda>_. goto j CEnded))
     | CEnded \<Rightarrow> block_go
     | _ \<Rightarrow> processDeliveries E j lp)"

subsection \<open>The machine\<close>

text \<open>
  A client may read messages and errors (\<open>CvTake\<close>, \<open>CvTakeError\<close>) and run the exported flushes, one event
  for each round of their loops.
\<close>

datatype 'w cons_event =
    CvStart "'w action option"
  | CvStop bool
  | CvFinishStop
  | CvTake
  | CvTakeError
  | CvFlushStop
  | CvFlushErrors
  | CvFlushMessages
  | CvLoop nat
  | CvDeliver nat amqp_Delivery
  | CvClose nat

fun run_cons :: "('w, 'e) env_scheme \<Rightarrow> 'w cons_event \<Rightarrow> (('w, 'q, 'x) cons_st_scheme, unit) go" where
  "run_cons E (CvStart action) = StartConsuming action"
| "run_cons E (CvStop flushMessages) = StopConsuming flushMessages"
| "run_cons E CvFinishStop =
     bind_go (gets_go stopSent) (\<lambda>w. case w of None \<Rightarrow> block_go | Some flushMessages \<Rightarrow> finishStop flushMessages)"
| "run_cons E CvTake = bind_go (recv_field get_messages put_messages) (\<lambda>_. ret ())"
| "run_cons E CvTakeError = bind_go (recv_field get_errors put_errors) (\<lambda>_. ret ())"
| "run_cons E CvFlushStop = bind_go recv_stop (\<lambda>_. ret ())"
| "run_cons E CvFlushErrors = bind_go (recv_field get_errors put_errors) (\<lambda>_. ret ())"
| "run_cons E CvFlushMessages = bind_go (recv_field get_messages put_messages) (\<lambda>_. ret ())"
| "run_cons E (CvLoop j) =
     bind_go (gets_go cloops) (\<lambda>ls. if j < length ls then startConsumeLoop E j (ls ! j) else block_go)"
| "run_cons E (CvDeliver j d) =
     bind_go (gets_go cloops) (\<lambda>ls. if j < length ls \<and> \<not> ch_closed (lp_deliveries (ls ! j)) then
       upd_loop j (\<lambda>lp. lp\<lparr>lp_deliveries := (lp_deliveries lp)\<lparr>ch_buf := ch_buf (lp_deliveries lp) @ [d]\<rparr>,
         lp_sent := lp_sent lp @ [d]\<rparr>) else block_go)"
| "run_cons E (CvClose j) =
     bind_go (gets_go cloops) (\<lambda>ls. if j < length ls then
       upd_loop j (\<lambda>lp. lp\<lparr>lp_deliveries := (lp_deliveries lp)\<lparr>ch_closed := True\<rparr>\<rparr>) else block_go)"

text \<open>A step is an event that runs to its end; a parked call has no step, a panic ends the program.\<close>

inductive cons_step ::
  "('w, 'e) env_scheme \<Rightarrow> ('w, 'q, 'x) cons_st_scheme \<Rightarrow> ('w, 'q, 'x) cons_st_scheme \<Rightarrow> bool"
  for E where
  cons_run: "run_cons E ev s = Some (Return (), t) \<Longrightarrow> cons_step E s t"

inductive_cases cons_stepE: "cons_step E s t"

lemmas cons_field_defs = get_stop_def get_errors_def get_messages_def put_stop_def put_errors_def put_messages_def

interpretation stopField: chan_field get_stop put_stop
  by unfold_locales (simp_all add: get_stop_def put_stop_def)

interpretation errorsField: chan_field get_errors put_errors
  by unfold_locales (simp_all add: get_errors_def put_errors_def)

interpretation messagesField: chan_field get_messages put_messages
  by unfold_locales (simp_all add: get_messages_def put_messages_def)

subsection \<open>What a loop hands on\<close>

fun pendingMessage :: "cons_pc \<Rightarrow> ReceivedMessage list" where
  "pendingMessage (CHand c msg) = [msg]"
| "pendingMessage _ = []"

definition message_for :: "bool \<Rightarrow> amqp_Delivery option \<Rightarrow> ReceivedMessage" where
  "message_for ack o' = NewReceivedMessage (\<not> ack) (case o' of None \<Rightarrow> zeroDelivery | Some d \<Rightarrow> d)"

text \<open>Zero values are taken only after all deliveries.\<close>

definition zeros_last :: "'a option list \<Rightarrow> bool" where
  "zeros_last os \<longleftrightarrow> (\<exists>k. os = map Some (somes os) @ replicate k None)"

lemma somes_all: "None \<notin> set os \<Longrightarrow> map Some (somes os) = os"
  by (induction os) (auto simp: somes_def split: option.split intro: option.exhaust_sel)

lemma zeros_last_simps [simp]:
  "zeros_last []" "None \<notin> set os \<Longrightarrow> zeros_last (os @ [Some x])" "zeros_last os \<Longrightarrow> zeros_last (os @ [None])"
proof -
  show "zeros_last []" by (simp add: zeros_last_def)
  show "zeros_last (os @ [Some x])" if "None \<notin> set os"
    unfolding zeros_last_def by (rule exI [of _ 0]) (simp add: somes_all [OF that])
  assume "zeros_last os"
  then obtain k where k: "os = map Some (somes os) @ replicate k None" by (auto simp: zeros_last_def)
  have "os @ [None] = map Some (somes os) @ replicate k None @ [None]" by (subst (1) k) simp
  also have "\<dots> = map Some (somes (os @ [None])) @ replicate (Suc k) None" by (simp add: replicate_append_same)
  finally show "zeros_last (os @ [None])" unfolding zeros_last_def by (rule exI)
qed

definition loop_ok :: "bool \<Rightarrow> 'w cons_loop \<Rightarrow> bool" where
  "loop_ok ack lp \<longleftrightarrow> lp_sent lp = somes (lp_taken lp) @ ch_buf (lp_deliveries lp) \<and>
     zeros_last (lp_taken lp) \<and>
     (None \<in> set (lp_taken lp) \<longrightarrow> ch_closed (lp_deliveries lp) \<and> ch_buf (lp_deliveries lp) = []) \<and>
     map (message_for ack) (lp_taken lp) = lp_out lp @ pendingMessage (lp_pc lp)"

definition cons_inv :: "bool \<Rightarrow> ('w, 'q, 'x) cons_st_scheme \<Rightarrow> bool" where
  "cons_inv ack s \<longleftrightarrow> autoAck (consumer s) = ack \<and> (\<forall>lp \<in> set (cloops s). loop_ok ack lp) \<and>
     \<not> ch_closed (get_stop s) \<and> \<not> ch_closed (get_errors s) \<and> \<not> ch_closed (get_messages s)"

lemma cons_fields:
  assumes "pool_st.more t = pool_st.more (s :: ('w, 'q, 'x) cons_st_scheme)"
  shows "consumer t = consumer s" "cloops t = cloops s" "stopWaiting t = stopWaiting s" "stopSent t = stopSent s" "cons_inv ack t = cons_inv ack s"
  using assms by (cases s; cases t; simp add: cons_inv_def get_stop_def get_errors_def get_messages_def)+

lemma keeps_poll_ChanErrors [keeps_rules]: "keeps (poll_ChanErrors E c)"
  unfolding poll_ChanErrors_def by (intro keeps_rules)

text \<open>
  Loop \<open>j\<close> runs with the state \<open>lp\<close> it read: what precedes its own update (pool code, channel operations)
  leaves the invariant and the loop alone.
\<close>

definition inv_at :: "bool \<Rightarrow> nat \<Rightarrow> 'w cons_loop \<Rightarrow> ('w, 'q, 'x) cons_st_scheme \<Rightarrow> bool" where
  "inv_at ack j lp s \<longleftrightarrow> cons_inv ack s \<and> j < length (cloops s) \<and> cloops s ! j = lp"

named_theorems loop_rules \<open>code that leaves the loop's own state alone\<close>

lemma keeps_wlp_seq:
  fixes s :: "('w, 'q, 'x) pool_st_scheme"
  assumes "keeps m" "\<And>a t. pool_st.more t = pool_st.more s \<Longrightarrow> wlp (f a) Q X t" "\<And>p t. X p t"
  shows "wlp (bind_go m f) Q X s"
proof (rule wlp_seq)
  show "wlp m (\<lambda>_ t. pool_st.more t = pool_st.more s) X s"
    by (rule wlp_mono [OF keeps_wlp [THEN iffD1, rule_format, OF assms(1)]]) (use assms(3) in auto)
qed (rule assms(2))

lemma after_pool:
  fixes s :: "('w, 'q, 'x) cons_st_scheme"
  assumes "keeps m" "inv_at ack j lp s" "\<And>a t. inv_at ack j lp t \<Longrightarrow> wlp (f a) Q (\<lambda>_ _. True) t"
  shows "wlp (bind_go m f) Q (\<lambda>_ _. True) s"
proof (rule keeps_wlp_seq [OF assms(1)])
  fix a and t :: "('w, 'q, 'x) cons_st_scheme"
  assume "pool_st.more t = pool_st.more s"
  from assms(2) cons_fields [OF this] have "inv_at ack j lp t" by (simp add: inv_at_def)
  then show "wlp (f a) Q (\<lambda>_ _. True) t" by (rule assms(3))
qed simp

lemma after_gets:
  assumes "inv_at ack j lp s" "wlp (f (g s)) Q X s"
  shows "wlp (bind_go (gets_go g) f) Q X s"
  using assms by (simp add: wp_simps)

lemma field_inv:
  assumes "inv_at ack j lp s"
  shows "\<not> ch_closed c \<Longrightarrow> inv_at ack j lp (put_stop c s)" "\<not> ch_closed d \<Longrightarrow> inv_at ack j lp (put_errors d s)"
    "\<not> ch_closed e \<Longrightarrow> inv_at ack j lp (put_messages e s)"
  using assms by (simp_all add: inv_at_def cons_inv_def put_stop_def put_errors_def put_messages_def get_stop_def get_errors_def
      get_messages_def)

lemma wlp_recv_stop [wp_simps]:
  "wlp recv_stop Q X s = (case ch_buf (get_stop s) of
     [] \<Rightarrow> Q (if ch_closed (get_stop s) then ZeroValue else WouldBlock) s
   | b # bs \<Rightarrow> (case stopWaiting s of
       None \<Rightarrow> Q (Received b) (put_stop ((get_stop s)\<lparr>ch_buf := bs\<rparr>) s)
     | Some f \<Rightarrow> Q (Received b) ((put_stop ((get_stop s)\<lparr>ch_buf := bs @ [True]\<rparr>) s)\<lparr>stopWaiting := None, stopSent := Some f\<rparr>)))"
  by (simp add: wlp_def recv_stop_def chan_recv_def split: list.splits option.splits)

lemma recv_open: "ch_closed (snd (chan_recv c)) = ch_closed c"
  by (rule chan_recv_cases [of c]) simp_all

lemma inv_at_open:
  assumes "inv_at ack j lp s"
  shows "\<not> ch_closed (get_stop s)" "\<not> ch_closed (get_errors s)" "\<not> ch_closed (get_messages s)"
  using assms by (simp_all add: inv_at_def cons_inv_def)

lemma after_stop:
  assumes "inv_at ack j lp s" "\<And>r t. inv_at ack j lp t \<Longrightarrow> wlp (f r) Q X t"
  shows "wlp (bind_go recv_stop f) Q X s"
  using assms(1)
  by (auto simp: wlp_bind wlp_recv_stop inv_at_def cons_inv_def cons_field_defs intro!: assms(2) split: list.split option.split)

lemma after_send:
  assumes "inv_at ack j lp s" "\<And>r t. inv_at ack j lp t \<Longrightarrow> wlp (f r) Q (\<lambda>_ _. True) t"
  shows "wlp (bind_go (send_field get_errors put_errors e) f) Q (\<lambda>_ _. True) s"
    "wlp (bind_go (send_field get_messages put_messages msg) f) Q (\<lambda>_ _. True) s"
  using assms(1) inv_at_open [OF assms(1)]
  by (auto simp: wp_simps chan_send_def intro!: assms(2) field_inv split: result.splits)

lemma loop_set:
  assumes "inv_at ack j lp s" "loop_ok ack lp \<Longrightarrow> loop_ok ack (g lp)"
  shows "wlp (upd_loop j g) (\<lambda>_ t. inv_at ack j (g lp) t) X s"
proof -
  have "loop_ok ack lp" using assms(1) by (auto simp: inv_at_def cons_inv_def)
  then have "loop_ok ack (g lp)" by (rule assms(2))
  with assms(1) show ?thesis
    by (auto simp: upd_loop_def wp_simps inv_at_def cons_inv_def get_stop_def get_errors_def get_messages_def
        dest!: set_update_subset_insert [THEN subsetD])
qed

lemma loop_end:
  assumes "inv_at ack j lp s" "loop_ok ack lp \<Longrightarrow> loop_ok ack (g lp)"
  shows "wlp (upd_loop j g) (\<lambda>_ t. cons_inv ack t) X s"
  by (rule wlp_mono [OF loop_set [where g = g, OF assms]]) (auto simp: inv_at_def)

lemma goto_wlp:
  assumes "inv_at ack j lp s" "pendingMessage pc = pendingMessage (lp_pc lp)"
  shows "wlp (goto j pc) (\<lambda>_ t. cons_inv ack t) X s"
  unfolding goto_def by (rule loop_end [OF assms(1)]) (simp add: loop_ok_def assms(2))

lemma set_loop:
  assumes "inv_at ack j lp s" "loop_ok ack lp'" "consumer t = consumer s" "cloops t = (cloops s)[j := lp']"
  shows "cons_inv ack t"
  using assms by (auto simp: inv_at_def cons_inv_def get_stop_def get_errors_def get_messages_def
      dest!: set_update_subset_insert [THEN subsetD])

lemma read_inv:
  assumes "inv_at ack j lp s" "pendingMessage (lp_pc lp) = []" "loop_ok ack lp \<Longrightarrow> lp_sent (g lp) = somes (lp_taken (g lp)) @ ch_buf (lp_deliveries (g lp))"
    "loop_ok ack lp \<Longrightarrow> None \<in> set (lp_taken (g lp)) \<Longrightarrow> ch_closed (lp_deliveries (g lp)) \<and> ch_buf (lp_deliveries (g lp)) = []"
    "loop_ok ack lp \<Longrightarrow> zeros_last (lp_taken (g lp))"
    "lp_taken (g lp) = lp_taken lp @ [x]" "lp_out (g lp) = lp_out lp" "d = (case x of None \<Rightarrow> zeroDelivery | Some d \<Rightarrow> d)"
  shows "wlp (bind_go (upd_loop j g) (\<lambda>_. handOn j c lp d)) (\<lambda>_ t. cons_inv ack t) (\<lambda>_ _. True) s"
proof -
  have ok: "loop_ok ack lp" and j: "j < length (cloops s)" "cloops s ! j = lp" and ack: "autoAck (consumer s) = ack"
    using assms(1) by (auto simp: inv_at_def cons_inv_def)
  let ?msg = "message_for ack x"
  have act: "loop_ok ack ((g lp)\<lparr>lp_pc := CStopSelect c, lp_out := lp_out lp @ [?msg]\<rparr>)"
    and buf: "loop_ok ack ((g lp)\<lparr>lp_pc := CHand c ?msg\<rparr>)"
    using assms(2-7) ok by (simp_all add: loop_ok_def)
  have msg: "NewReceivedMessage (\<not> autoAck (consumer s)) d = ?msg" by (simp add: message_for_def ack assms(8))
  show ?thesis
    by (auto simp: handOn_def goto_def upd_loop_def wp_simps msg j assms(7) split: option.split
        intro: set_loop [OF assms(1) act] set_loop [OF assms(1) buf])
qed

lemma processDeliveries_inv:
  assumes "inv_at ack j lp s"
  shows "wlp (processDeliveries E j lp) (\<lambda>_ t. cons_inv ack t) (\<lambda>_ _. True) s"
proof (cases "lp_pc lp")
  case (CErrors c)
  show ?thesis unfolding processDeliveries_def CErrors cons_pc.case
    by (rule after_pool [OF _ assms]; (rule keeps_rules)?)
      (auto simp: CErrors split: received.split intro!: goto_wlp [where lp = lp] after_pool keeps_rules)
next
  case (CReport err)
  show ?thesis unfolding processDeliveries_def CReport cons_pc.case
    by (intro after_send(1) [OF assms] after_gets after_pool goto_wlp [where lp = lp] keeps_rules; (assumption | simp add: CReport)?)
next
  case (CRead c)
  show ?thesis
  proof (rule chan_recv_cases [of "lp_deliveries lp"])
    fix d ds assume b: "ch_buf (lp_deliveries lp) = d # ds" "chan_recv (lp_deliveries lp) = (Received d, (lp_deliveries lp)\<lparr>ch_buf := ds\<rparr>)"
    show ?thesis unfolding processDeliveries_def CRead cons_pc.case b(2) prod.case received.case
      by (rule read_inv [OF assms, where x = "Some d"]) (auto simp: CRead b(1) loop_ok_def)
  next
    assume b: "ch_buf (lp_deliveries lp) = []" "ch_closed (lp_deliveries lp)" "chan_recv (lp_deliveries lp) = (ZeroValue, lp_deliveries lp)"
    show ?thesis unfolding processDeliveries_def CRead cons_pc.case b(3) prod.case received.case
      by (rule read_inv [OF assms, where x = None]) (auto simp: CRead b(1,2) loop_ok_def)
  next
    assume b: "chan_recv (lp_deliveries lp) = (WouldBlock, lp_deliveries lp)"
    show ?thesis unfolding processDeliveries_def CRead cons_pc.case b prod.case received.case
      by (rule goto_wlp [OF assms]) (simp add: CRead)
  qed
next
  case (CHand c msg)
  show ?thesis unfolding processDeliveries_def CHand cons_pc.case
    by (intro after_send(2) [OF assms] loop_end [where lp = lp]; (assumption | simp add: CHand loop_ok_def)?)
next
  case (CStopSelect c)
  show ?thesis unfolding processDeliveries_def CStopSelect cons_pc.case
    by (rule after_stop [OF assms]) (auto simp: CStopSelect intro!: goto_wlp [where lp = lp] after_pool keeps_rules)
qed (simp_all add: processDeliveries_def wp_simps)

lemma startConsumeLoop_inv:
  assumes "inv_at ack j lp s"
  shows "wlp (startConsumeLoop E j lp) (\<lambda>_ t. cons_inv ack t) (\<lambda>_ _. True) s"
proof (cases "lp_pc lp")
  case CSelect
  show ?thesis unfolding startConsumeLoop_def CSelect cons_pc.case
    by (rule after_stop [OF assms]) (auto simp: CSelect intro!: goto_wlp [where lp = lp])
next
  case CGetChannel
  show ?thesis unfolding startConsumeLoop_def CGetChannel cons_pc.case
    by (intro after_pool [OF _ assms] goto_wlp [where lp = lp] keeps_rules; (assumption | simp add: CGetChannel)?)
next
  case (CQos c)
  show ?thesis unfolding startConsumeLoop_def CQos cons_pc.case
    using assms by (auto simp: CQos intro!: after_gets after_pool goto_wlp [where lp = lp] keeps_rules)
next
  case (CConsume c)
  show ?thesis unfolding startConsumeLoop_def CConsume cons_pc.case
    by (intro after_gets [OF assms] after_pool [OF _ assms] after_pool keeps_rules; (assumption | simp only: )?)
      (auto simp: CConsume loop_ok_def intro!: goto_wlp [where lp = lp] loop_end [where lp = lp])
next
  case (CFail c)
  show ?thesis unfolding startConsumeLoop_def CFail cons_pc.case
    by (intro after_pool [OF _ assms] after_gets after_pool goto_wlp [where lp = lp] keeps_rules; (assumption | simp add: CFail)?)
next
  case CExit
  have "inv_at ack j lp (s\<lparr>consumer := (consumer s)\<lparr>started := False\<rparr>\<rparr>)"
    using assms by (simp add: inv_at_def cons_inv_def get_stop_def get_errors_def get_messages_def)
  then show ?thesis
    by (auto simp: startConsumeLoop_def CExit withLock_def upd_con_def wp_simps intro!: goto_wlp [where lp = lp])
qed (simp_all add: startConsumeLoop_def wp_simps processDeliveries_inv [OF assms])

text \<open>While no stop waits, the flush is the plain one.\<close>

lemma FlushStop_unlocked:
  assumes "\<not> ch_closed (get_stop s)" "stopWaiting s = None"
  shows "FlushStop s = Some (Return (), put_stop ((get_stop s)\<lparr>ch_buf := []\<rparr>) s)"
  using assms
proof (induction "ch_buf (get_stop s)" arbitrary: s)
  case Nil
  then show ?case
    unfolding FlushStop_def
    by (subst forever_break [where a = "()" and t = s]) (simp_all add: recv_stop_def chan_recv_def go_prims stopField.put_empty_self)
next
  case (Cons x xs)
  let ?s = "put_stop ((get_stop s)\<lparr>ch_buf := xs\<rparr>) s"
  have w: "stopWaiting ?s = None" using Cons.prems by (simp add: put_stop_def)
  have "FlushStop s = FlushStop ?s"
    unfolding FlushStop_def using Cons.hyps(2) [symmetric] Cons.prems
    by (subst forever_continue [where t = ?s]) (simp_all add: recv_stop_def chan_recv_def go_prims)
  also have "\<dots> = Some (Return (), put_stop ((get_stop ?s)\<lparr>ch_buf := []\<rparr>) ?s)"
    by (rule Cons.hyps(1)) (use Cons.prems w in simp_all)
  finally show ?case by simp
qed

lemma flush_fields [wp_simps]:
  "\<not> ch_closed (get_stop s) \<Longrightarrow> stopWaiting s = None \<Longrightarrow> wlp FlushStop Q X s = Q () (put_stop ((get_stop s)\<lparr>ch_buf := []\<rparr>) s)"
  "\<not> ch_closed (get_errors s) \<Longrightarrow> wlp FlushErrors Q X s = Q () (put_errors ((get_errors s)\<lparr>ch_buf := []\<rparr>) s)"
  "\<not> ch_closed (get_messages s) \<Longrightarrow> wlp FlushMessages Q X s = Q () (put_messages ((get_messages s)\<lparr>ch_buf := []\<rparr>) s)"
  "\<not> ch_closed (get_stop s) \<Longrightarrow> stopWaiting s = None \<Longrightarrow> wp FlushStop R s = R () (put_stop ((get_stop s)\<lparr>ch_buf := []\<rparr>) s)"
  "\<not> ch_closed (get_errors s) \<Longrightarrow> wp FlushErrors R s = R () (put_errors ((get_errors s)\<lparr>ch_buf := []\<rparr>) s)"
  "\<not> ch_closed (get_messages s) \<Longrightarrow> wp FlushMessages R s = R () (put_messages ((get_messages s)\<lparr>ch_buf := []\<rparr>) s)"
  by (simp_all add: FlushStop_unlocked FlushErrors_def FlushMessages_def wlp_def wp_def errorsField.flush_open
      messagesField.flush_open)

lemma newLoop_ok: "loop_ok ack (newLoop action)"
  by (simp add: loop_ok_def newLoop_def)

lemma finishStop_inv:
  assumes "cons_inv ack s"
  shows "wlp (finishStop flushMessages) (\<lambda>_ t. cons_inv ack t) (\<lambda>_ _. True) s"
  using assms
  by (cases flushMessages)
    (auto simp: finishStop_def cons_inv_def wp_simps chan_send_def cons_field_defs)

lemma event_inv:
  assumes "cons_inv ack s"
  shows "wlp (run_cons E ev) (\<lambda>_ t. cons_inv ack t) (\<lambda>_ _. True) s"
proof (cases ev)
  case (CvStart action)
  with assms newLoop_ok [of ack action] show ?thesis
    by (auto simp: StartConsuming_def withLock_def upd_con_def cons_inv_def wp_simps cons_field_defs)
next
  case (CvStop b)
  have "wlp (finishStop b) (\<lambda>_ t. cons_inv ack t) (\<lambda>_ _. True) (put_stop c s)" if "\<not> ch_closed c" for c
    by (rule finishStop_inv) (use assms that in \<open>simp add: cons_inv_def cons_field_defs\<close>)
  with assms CvStop show ?thesis
    by (auto simp: StopConsuming_def withLock_def cons_inv_def wp_simps cons_field_defs chan_send_def)
next
  case CvFinishStop
  with finishStop_inv [OF assms] show ?thesis by (auto simp: wp_simps split: option.split)
next
  case CvFlushStop
  with assms show ?thesis
    by (auto simp: cons_inv_def wlp_bind wlp_recv_stop wlp_ret cons_field_defs split: list.split option.split)
next
  case (CvLoop j)
  with assms show ?thesis
    by (auto simp: wp_simps intro!: startConsumeLoop_inv simp: inv_at_def)
next
  case (CvDeliver j d)
  show ?thesis
  proof (cases "j < length (cloops s) \<and> \<not> ch_closed (lp_deliveries (cloops s ! j))")
    case True
    with assms have "inv_at ack j (cloops s ! j) s" by (simp add: inv_at_def)
    from loop_end [OF this] True show ?thesis by (auto simp: CvDeliver wp_simps loop_ok_def)
  qed (auto simp: CvDeliver wp_simps)
next
  case (CvClose j)
  show ?thesis
  proof (cases "j < length (cloops s)")
    case True
    with assms have "inv_at ack j (cloops s ! j) s" by (simp add: inv_at_def)
    from loop_end [OF this] True show ?thesis by (auto simp: CvClose wp_simps loop_ok_def)
  qed (simp add: CvClose wp_simps)
qed (use assms in \<open>auto simp: cons_inv_def wp_simps cons_field_defs recv_open\<close>)

definition cons_start :: "ConsumerConfig \<Rightarrow> ('w, 'q, 'x) cons_st_scheme \<Rightarrow> bool" where
  "cons_start config s \<longleftrightarrow> consumer s = newConsumer config \<and> cloops s = [] \<and> stopWaiting s = None \<and> stopSent s = None"

interpretation consuming: invariant_system "cons_start config" "cons_step E" "cons_inv (cc_AutoAck config)"
  for config E
proof
  show "cons_start config s \<Longrightarrow> cons_inv (cc_AutoAck config) s" for s :: "('a, 'b, 'c) cons_st_scheme"
    by (simp add: cons_start_def cons_inv_def newConsumer_def get_stop_def get_errors_def get_messages_def)
next
  fix s t :: "('a, 'b, 'c) cons_st_scheme"
  assume inv: "cons_inv (cc_AutoAck config) s" and "cons_step E s t"
  then obtain ev where "run_cons E ev s = Some (Return (), t)" by (auto elim: cons_stepE)
  with event_inv [OF inv, of E ev] show "cons_inv (cc_AutoAck config) t" by (simp add: wlp_def)
qed

subsection \<open>Properties\<close>

lemma pending_one: "length (pendingMessage pc) \<le> 1"
  by (cases pc) simp_all

text \<open>
  C17: a consumer loses, repeats and reorders nothing that the broker pushed. After any interleaving of
  starts, stops, flushes, loop steps, deliveries, cancellations and reads, the messages a loop has handed on
  in its current subscription, with at most one that waits for room in the buffer, are the first deliveries
  pushed, in order and converted by \<open>NewReceivedMessage\<close>; the rest is still in the delivery channel.
  They are followed by messages made from the zero delivery only if the broker has closed the delivery
  channel and all of its deliveries have been handed on.
\<close>

theorem consumer_hands_on_in_order:
  assumes "cons_start config s" "(cons_step E)\<^sup>*\<^sup>* s t" "lp \<in> set (cloops t)"
  shows "\<exists>n k waiting. map (NewReceivedMessage (\<not> cc_AutoAck config)) (take n (lp_sent lp) @ replicate k zeroDelivery) =
      lp_out lp @ waiting \<and> length waiting \<le> 1 \<and> n \<le> length (lp_sent lp) \<and>
    ch_buf (lp_deliveries lp) = drop n (lp_sent lp) \<and>
    (0 < k \<longrightarrow> ch_closed (lp_deliveries lp) \<and> n = length (lp_sent lp))"
proof -
  let ?ack = "cc_AutoAck config" and ?os = "somes (lp_taken lp)"
  have ok: "loop_ok ?ack lp" using consuming.reachable_inv [OF assms(1,2)] assms(3) by (simp add: cons_inv_def)
  then have sent: "lp_sent lp = ?os @ ch_buf (lp_deliveries lp)"
    and out: "map (message_for ?ack) (lp_taken lp) = lp_out lp @ pendingMessage (lp_pc lp)"
    and none: "None \<in> set (lp_taken lp) \<Longrightarrow> ch_closed (lp_deliveries lp) \<and> ch_buf (lp_deliveries lp) = []"
    by (simp_all add: loop_ok_def)
  from ok obtain k where k: "lp_taken lp = map Some ?os @ replicate k None" by (auto simp: loop_ok_def zeros_last_def)
  have "map (message_for ?ack) (map Some ?os @ replicate k None) = map (NewReceivedMessage (\<not> ?ack)) (?os @ replicate k zeroDelivery)"
    by (simp add: message_for_def)
  with out k have "map (NewReceivedMessage (\<not> ?ack)) (take (length ?os) (lp_sent lp) @ replicate k zeroDelivery) =
      lp_out lp @ pendingMessage (lp_pc lp)" by (simp add: sent)
  moreover have "ch_closed (lp_deliveries lp) \<and> length ?os = length (lp_sent lp)" if "0 < k"
  proof -
    have "None \<in> set (lp_taken lp)" using that by (subst k) simp
    with none sent show ?thesis by simp
  qed
  moreover have "length ?os \<le> length (lp_sent lp)" "ch_buf (lp_deliveries lp) = drop (length ?os) (lp_sent lp)"
    by (simp_all add: sent)
  ultimately show ?thesis using pending_one by blast
qed

text \<open>
  No way on: a stop that waits with the lock held, a full stop channel, and every loop on its way out,
  waiting for that lock. The only event that leads out of such a state is a client's \<open>FlushStop\<close>.
\<close>

definition deadlocked :: "('w, 'q, 'x) cons_st_scheme \<Rightarrow> bool" where
  "deadlocked s \<longleftrightarrow> stopWaiting s \<noteq> None \<and> stopSent s = None \<and> \<not> ch_closed (get_stop s) \<and> \<not> ch_closed (get_messages s) \<and>
     ch_buf (get_stop s) \<noteq> [] \<and> (\<forall>lp \<in> set (cloops s). lp_pc lp = CExit \<or> lp_pc lp = CEnded)"

lemma deadlocked_event:
  assumes "deadlocked s" "ev \<noteq> CvFlushStop"
  shows "wlp (run_cons E ev) (\<lambda>_ t. deadlocked t) (\<lambda>_ _. True) s"
proof (cases ev)
  case (CvLoop j)
  have "wlp (startConsumeLoop E j lp) (\<lambda>_ t. deadlocked t) (\<lambda>_ _. True) s" if "lp_pc lp = CExit \<or> lp_pc lp = CEnded" for lp
    using that assms by (auto simp: wp_simps startConsumeLoop_def withLock_def deadlocked_def)
  with assms show ?thesis by (simp add: CvLoop wp_simps deadlocked_def)
next
  case (CvDeliver j d)
  with assms show ?thesis
    by (auto simp: deadlocked_def wp_simps upd_loop_def cons_field_defs dest!: set_update_subset_insert [THEN subsetD])
next
  case (CvClose j)
  with assms show ?thesis
    by (auto simp: deadlocked_def wp_simps upd_loop_def cons_field_defs dest!: set_update_subset_insert [THEN subsetD])
qed (use assms in \<open>auto simp: deadlocked_def wp_simps StartConsuming_def StopConsuming_def withLock_def cons_field_defs recv_open\<close>)

text \<open>A step that is not a round of a client's \<open>FlushStop\<close>.\<close>

definition unflushed_step ::
  "('w, 'e) env_scheme \<Rightarrow> ('w, 'q, 'x) cons_st_scheme \<Rightarrow> ('w, 'q, 'x) cons_st_scheme \<Rightarrow> bool" where
  "unflushed_step E s t \<longleftrightarrow> (\<exists>ev. ev \<noteq> CvFlushStop \<and> run_cons E ev s = Some (Return (), t))"

interpretation deadlock: invariant_system deadlocked "unflushed_step E" deadlocked for E
proof
  fix s t :: "('a, 'b, 'c) cons_st_scheme"
  assume inv: "deadlocked s" and "unflushed_step E s t"
  then obtain ev where "ev \<noteq> CvFlushStop" "run_cons E ev s = Some (Return (), t)" by (auto simp: unflushed_step_def)
  with deadlocked_event [OF inv, of ev E] show "deadlocked t" by (simp add: wlp_def)
qed

lemma withLock_held: "\<exists>f. stopWaiting s = Some f \<Longrightarrow> withLock m s = Some (Blocked, s)"
  by (auto simp: withLock_def go_prims)

lemma wp_recv_stop [wp_simps]:
  "wp recv_stop Q s = (case ch_buf (get_stop s) of
     [] \<Rightarrow> Q (if ch_closed (get_stop s) then ZeroValue else WouldBlock) s
   | b # bs \<Rightarrow> (case stopWaiting s of
       None \<Rightarrow> Q (Received b) (put_stop ((get_stop s)\<lparr>ch_buf := bs\<rparr>) s)
     | Some f \<Rightarrow> Q (Received b) ((put_stop ((get_stop s)\<lparr>ch_buf := bs @ [True]\<rparr>) s)\<lparr>stopWaiting := None, stopSent := Some f\<rparr>)))"
  by (simp add: wp_def recv_stop_def chan_recv_def split: list.splits option.splits)

fun run_events :: "('w, 'e) env_scheme \<Rightarrow> 'w cons_event list \<Rightarrow> (('w, 'q, 'x) cons_st_scheme, unit) go" where
  "run_events E [] = ret ()"
| "run_events E (ev # evs) = bind_go (run_cons E ev) (\<lambda>_. run_events E evs)"

lemma run_events_steps: "wp (run_events E evs) Q s \<Longrightarrow> \<exists>t. (cons_step E)\<^sup>*\<^sup>* s t \<and> Q () t"
proof (induction evs arbitrary: s)
  case Nil
  then show ?case by (auto simp: wp_simps)
next
  case (Cons ev evs)
  then obtain u where u: "run_cons E ev s = Some (Return (), u)" "wp (run_events E evs) Q u"
    by (auto simp: wp_simps wp_iff)
  from Cons.IH [OF u(2)] cons_run [OF u(1)] show ?case by (meson converse_rtranclp_into_rtranclp)
qed

lemma run_events_unflushed:
  "wp (run_events E evs) Q s \<Longrightarrow> CvFlushStop \<notin> set evs \<Longrightarrow> \<exists>t. (unflushed_step E)\<^sup>*\<^sup>* s t \<and> Q () t"
proof (induction evs arbitrary: s)
  case Nil
  then show ?case by (auto simp: wp_simps)
next
  case (Cons ev evs)
  then obtain u where u: "run_cons E ev s = Some (Return (), u)" "wp (run_events E evs) Q u"
    by (auto simp: wp_simps wp_iff)
  have "unflushed_step E s u" unfolding unflushed_step_def using u(1) Cons.prems(2) by (intro exI [of _ ev]) auto
  with Cons.IH [OF u(2)] Cons.prems(2) show ?case by (auto intro: converse_rtranclp_into_rtranclp)
qed

text \<open>One round of \<open>FlushStop\<close> makes room for the waiting stop, which then releases the lock.\<close>

lemma flush_releases:
  assumes "deadlocked s"
  shows "wp (run_events E [CvFlushStop, CvFinishStop]) (\<lambda>_ t. stopWaiting t = None \<and> stopSent t = None) s"
proof -
  from assms obtain f b bs where "stopWaiting s = Some f" "ch_buf (get_stop s) = b # bs" "\<not> ch_closed (get_messages s)"
    by (auto simp: deadlocked_def neq_Nil_conv)
  then show ?thesis
    by (cases f) (simp_all add: wp_simps wp_recv_stop finishStop_def cons_field_defs)
qed

text \<open>
  C18: \<open>StopConsuming\<close> can lock the consumer up. The stop signal is sent with the lock held, into a channel with
  room for one, and the loop that took a signal needs the lock to finish. From every fresh consumer, one start
  and three stops reach a state after which the lock is never released by the consumer itself: whatever else
  happens (loop steps, deliveries, reads, the other flushes), starting, stopping and \<open>Started\<close> park. The one way
  out is a client that calls the exported \<open>FlushStop\<close>, which takes no lock: then the waiting stop
  completes and the lock is free again.
\<close>

theorem StopConsuming_deadlock:
  assumes "cons_start config s"
  shows "\<exists>t. (unflushed_step E)\<^sup>*\<^sup>* s t \<and> (\<forall>u. (unflushed_step E)\<^sup>*\<^sup>* t u \<longrightarrow>
    Started u = Some (Blocked, u) \<and> StartConsuming action u = Some (Blocked, u) \<and> StopConsuming flushMessages u = Some (Blocked, u) \<and>
    (\<exists>v b. (cons_step E)\<^sup>*\<^sup>* u v \<and> Started v = Some (Return b, v)))"
proof -
  have "wp (run_events E [CvStart None, CvStop False, CvLoop 0, CvStop False, CvStop False]) (\<lambda>_ t. deadlocked t) s"
    using assms
    by (simp add: cons_start_def newConsumer_def wp_simps wp_recv_stop StartConsuming_def StopConsuming_def withLock_def upd_con_def
        finishStop_def cons_field_defs chan_send_def startConsumeLoop_def newLoop_def goto_def upd_loop_def deadlocked_def ex_bool_eq)
  then obtain t where t: "(unflushed_step E)\<^sup>*\<^sup>* s t" "deadlocked t" using run_events_unflushed by fastforce
  have "Started u = Some (Blocked, u) \<and> StartConsuming action u = Some (Blocked, u) \<and> StopConsuming flushMessages u = Some (Blocked, u) \<and>
      (\<exists>v b. (cons_step E)\<^sup>*\<^sup>* u v \<and> Started v = Some (Return b, v))"
    if "(unflushed_step E)\<^sup>*\<^sup>* t u" for u
  proof -
    have dead: "deadlocked u" by (rule deadlock.reachable_inv [OF t(2) that])
    from run_events_steps [OF flush_releases [OF dead]] obtain v where
      "(cons_step E)\<^sup>*\<^sup>* u v" "stopWaiting v = None" "stopSent v = None" by blast
    then have "\<exists>v b. (cons_step E)\<^sup>*\<^sup>* u v \<and> Started v = Some (Return b, v)"
      by (auto simp: Started_def withLock_def go_prims)
    with dead show ?thesis
      by (simp add: deadlocked_def Started_def StartConsuming_def StopConsuming_def withLock_held)
  qed
  with t(1) show ?thesis by blast
qed

text \<open>A loop on a delivery channel that is closed and drained while its AMQP channel stays open.\<close>

definition cancelled :: "('w, 'e) env_scheme \<Rightarrow> nat \<Rightarrow> nat \<Rightarrow> 'w action \<Rightarrow> ('w, 'q, 'x) cons_st_scheme \<Rightarrow> bool" where
  "cancelled E j c action s \<longleftrightarrow> j < length (cloops s) \<and> lp_pc (cloops s ! j) = CErrors c \<and> lp_action (cloops s ! j) = Some action \<and>
     ch_buf (lp_deliveries (cloops s ! j)) = [] \<and> ch_closed (lp_deliveries (cloops s ! j)) \<and>
     ch_buf (get_stop s) = [] \<and> \<not> ch_closed (get_stop s) \<and> c < length (chanHosts s) \<and> ch_buf (chan_Errors (chanHosts s ! c)) = [] \<and>
     (\<forall>p q w. Channel (chanHosts s ! c) = Some p \<longrightarrow> feed_ChanErrors E p q w = (q, w))"

lemma cancelled_round:
  assumes "cancelled E j c action s"
  shows "wp (run_events E [CvLoop j, CvLoop j, CvLoop j])
    (\<lambda>_ t. cancelled E j c action t \<and> consumer t = consumer s \<and>
      lp_out (cloops t ! j) = lp_out (cloops s ! j) @ [NewReceivedMessage (\<not> autoAck (consumer s)) zeroDelivery] \<and>
      world t = action (NewReceivedMessage (\<not> autoAck (consumer s)) zeroDelivery) (world s)) s"
  using assms
  by (cases "Channel (chanHosts s ! c)")
    (simp_all add: cancelled_def wp_simps startConsumeLoop_def processDeliveries_def poll_ChanErrors_def handOn_def goto_def
      upd_loop_def cons_field_defs)

text \<open>
  C19: a consumer that the broker cancels spins on empty messages. When the delivery channel is closed (the
  library closes it on a cancel, for instance when the queue is deleted) while the AMQP channel stays
  open, the receive yields the zero delivery without end: for every \<open>n\<close> the loop runs the action on \<open>n\<close>
  messages made from it, and is back where it was.
\<close>

theorem cancelled_consumer_spins:
  assumes "cancelled E j c action s"
  shows "\<exists>t. (cons_step E)\<^sup>*\<^sup>* s t \<and> cancelled E j c action t \<and> consumer t = consumer s \<and>
    world t = (action (NewReceivedMessage (\<not> autoAck (consumer s)) zeroDelivery) ^^ n) (world s)"
proof (induction n)
  case 0
  show ?case using assms by (intro exI [of _ s]) simp
next
  case (Suc n)
  then obtain t where t: "(cons_step E)\<^sup>*\<^sup>* s t" "cancelled E j c action t" "consumer t = consumer s"
    "world t = (action (NewReceivedMessage (\<not> autoAck (consumer s)) zeroDelivery) ^^ n) (world s)" by blast
  from run_events_steps [OF cancelled_round [OF t(2)]] t show ?case by (auto intro: rtranclp_trans)
qed

subsection \<open>Witnesses\<close>

definition consConf :: ConsumerConfig where
  "consConf = \<lparr>cc_QueueName = ''q'', cc_ConsumerName = ''c'', cc_AutoAck = False, cc_Exclusive = False,
     cc_NoWait = False, cc_Args = None, cc_QosCountOverride = 5, cc_SleepOnErrorInterval = 10\<rparr>"

definition cons0 :: "(broker, qitem list) cons_st" where
  "cons0 = \<lparr>world = calm, connHosts = [host0], chanHosts = [chan0],
     pool = (pool started1)\<lparr>channels := (make_chan 1)\<lparr>ch_buf := [0]\<rparr>\<rparr>,
     consumer = newConsumer consConf, cloops = [], stopWaiting = None, stopSent = None\<rparr>"

lemma cons0_start: "cons_start consConf cons0"
  by (simp add: cons_start_def cons0_def)

definition delivery1 :: amqp_Delivery where
  "delivery1 = \<lparr>d_Acknowledger = Some 1, d_DeliveryTag = 9, d_MessageId = ''m'', d_AppId = ''a'',
     d_Timestamp = \<lparr>unix_sec = 5, zone_offset = 0\<rparr>, d_Body = [1, 2]\<rparr>"

lemmas cons_ops = StartConsuming_def StopConsuming_def withLock_def upd_con_def finishStop_def cons_field_defs chan_send_def
  startConsumeLoop_def processDeliveries_def newLoop_def goto_def upd_loop_def handOn_def poll_ChanErrors_def

text \<open>A started consumer that has subscribed and taken one of two deliveries.\<close>

lemma cons0_run:
  "wp (run_events scripted [CvStart None, CvLoop 0, CvLoop 0, CvLoop 0, CvLoop 0, CvDeliver 0 delivery1, CvDeliver 0 zeroDelivery,
      CvLoop 0, CvLoop 0, CvLoop 0])
    (\<lambda>_ t. \<exists>lp. cloops t = [lp] \<and> \<not> ch_closed (lp_deliveries lp) \<and> lp_sent lp = [delivery1, zeroDelivery] \<and> length (lp_out lp) = 1) cons0"
  by (simp add: wp_simps cons_ops cons0_def newConsumer_def consConf_def GetChannelFromPool_def get_channels_def put_channels_def
      started1_def newPool_def chan0_def openChan_def scripted_def calm_def)

theorem consumer_hands_on_in_order_witness:
  "\<exists>t lp n k waiting. (cons_step scripted)\<^sup>*\<^sup>* cons0 t \<and> cloops t = [lp] \<and> lp_sent lp = [delivery1, zeroDelivery] \<and> length (lp_out lp) = 1 \<and>
     map (NewReceivedMessage True) (take n (lp_sent lp) @ replicate k zeroDelivery) = lp_out lp @ waiting \<and> k = 0"
proof -
  obtain t lp where t: "(cons_step scripted)\<^sup>*\<^sup>* cons0 t" "cloops t = [lp]" "\<not> ch_closed (lp_deliveries lp)"
    "lp_sent lp = [delivery1, zeroDelivery]" "length (lp_out lp) = 1"
    using run_events_steps [OF cons0_run] by blast
  have ack: "(\<not> cc_AutoAck consConf) = True" by (simp add: consConf_def)
  have "lp \<in> set (cloops t)" using t(2) by simp
  from consumer_hands_on_in_order [OF cons0_start t(1) this, unfolded ack]
  obtain n k waiting where o: "map (NewReceivedMessage True) (take n (lp_sent lp) @ replicate k zeroDelivery) = lp_out lp @ waiting"
    "0 < k \<longrightarrow> ch_closed (lp_deliveries lp) \<and> n = length (lp_sent lp)" by blast
  with t(3) have "k = 0" by simp
  with o(1) t show ?thesis by blast
qed

theorem StopConsuming_deadlock_witness:
  "\<exists>t. (unflushed_step scripted)\<^sup>*\<^sup>* cons0 t \<and> Started t = Some (Blocked, t) \<and>
     (\<exists>v b. (cons_step scripted)\<^sup>*\<^sup>* t v \<and> Started v = Some (Return b, v))"
  using StopConsuming_deadlock [OF cons0_start] by blast

text \<open>An action that counts its calls; the broker cancels the subscription.\<close>

definition tally :: "broker action" where
  "tally m w = w\<lparr>next_handle := Suc (next_handle w)\<rparr>"

definition cancelled0 :: "(broker, qitem list) cons_st" where
  "cancelled0 = cons0\<lparr>cloops := [(newLoop (Some tally))\<lparr>lp_pc := CErrors 0, lp_deliveries := (make_chan 0)\<lparr>ch_closed := True\<rparr>\<rparr>]\<rparr>"

lemma tally_many: "next_handle ((tally m ^^ n) w) = n + next_handle w"
  by (induction n) (simp_all add: tally_def)

theorem cancelled_consumer_spins_witness:
  "\<exists>t. (cons_step scripted)\<^sup>*\<^sup>* cancelled0 t \<and> next_handle (world t) = 1000"
proof -
  have "cancelled scripted 0 0 tally cancelled0"
    by (simp add: cancelled_def cancelled0_def cons0_def newLoop_def newConsumer_def cons_field_defs chan0_def openChan_def
        scripted_def)
  from cancelled_consumer_spins [OF this, of 1000] show ?thesis
    by (auto simp: tally_many cancelled0_def cons0_def calm_def)
qed

end
