(* ===== verification/FR_Service.thy ===== *)
theory FR_Service
  imports FR_AutoPublish FR_Consumer "HOL-Library.AList"
begin

section \<open>The service (rabbitservice.go)\<close>

text \<open>
  The service ties a pool, a publisher, a topologer and the configured consumers together and runs four
  goroutines of its own. Its state extends the auto publisher's. Consumers are shared by pointer: \<open>conCells\<close>
  is their heap, a cell holds the struct with its loops, and the map of the service (an association
  list in the order in which the runtime visits it) holds indices. An operation of consumer.go runs on a
  cell through \<open>on_consumer\<close>: it sees the pool and its own cell. The goroutines are given as the
  programs they run; \<open>monitors\<close> lists those that were started. While a goroutine sleeps others run: the
  parameter \<open>others\<close> of \<open>Service_Shutdown\<close>.
\<close>

record 'w cons_cell =
  cell_con :: Consumer
  cell_loops :: "'w cons_loop list"
  cell_wait :: "bool option"
  cell_sent :: "bool option"

datatype 'w monitor =
    CollectConsumerErrors
  | MonitorForShutdown
  | InvokeProcessPublishReceipts "PublishReceipt option \<Rightarrow> 'w \<Rightarrow> 'w"
  | ProcessPublishReceipts
  | InvokeProcessError "goerror option \<Rightarrow> 'w \<Rightarrow> 'w"
  | ProcessErrors

record RabbitService =
  svc_Config :: nat
  encryptionConfigured :: bool
  centralErr :: "goerror gochan"
  consumers :: "(string \<times> nat) list"
  shutdownSignal :: "bool gochan"
  svc_shutdown :: bool
  monitorSleepInterval :: duration

record ('w, 'q) svc_st = "('w, 'q) auto_st" +
  service :: RabbitService
  conCells :: "'w cons_cell list"
  monitors :: "'w monitor list"

definition upd_svc :: "(RabbitService \<Rightarrow> RabbitService) \<Rightarrow> (('w, 'q, 'x) svc_st_scheme, unit) go" where
  "upd_svc f = modify_go (\<lambda>s. s\<lparr>service := f (service s)\<rparr>)"

definition get_central :: "('w, 'q, 'x) svc_st_scheme \<Rightarrow> goerror gochan" where
  "get_central s = centralErr (service s)"
definition put_central :: "goerror gochan \<Rightarrow> ('w, 'q, 'x) svc_st_scheme \<Rightarrow> ('w, 'q, 'x) svc_st_scheme" where
  "put_central c s = s\<lparr>service := (service s)\<lparr>centralErr := c\<rparr>\<rparr>"
definition get_signal :: "('w, 'q, 'x) svc_st_scheme \<Rightarrow> bool gochan" where
  "get_signal s = shutdownSignal (service s)"
definition put_signal :: "bool gochan \<Rightarrow> ('w, 'q, 'x) svc_st_scheme \<Rightarrow> ('w, 'q, 'x) svc_st_scheme" where
  "put_signal c s = s\<lparr>service := (service s)\<lparr>shutdownSignal := c\<rparr>\<rparr>"

text \<open>Consumer code on one cell.\<close>

definition to_cons :: "'w cons_cell \<Rightarrow> ('w, 'q, 'x) svc_st_scheme \<Rightarrow> ('w, 'q) cons_st" where
  "to_cons c s = \<lparr>world = world s, connHosts = connHosts s, chanHosts = chanHosts s, pool = pool s,
     consumer = cell_con c, cloops = cell_loops c, stopWaiting = cell_wait c, stopSent = cell_sent c\<rparr>"

definition from_cons :: "nat \<Rightarrow> ('w, 'q) cons_st \<Rightarrow> ('w, 'q, 'x) svc_st_scheme \<Rightarrow> ('w, 'q, 'x) svc_st_scheme" where
  "from_cons i t s = s\<lparr>world := world t, connHosts := connHosts t, chanHosts := chanHosts t, pool := pool t,
     conCells := (conCells s)[i := \<lparr>cell_con = consumer t, cell_loops = cloops t, cell_wait = stopWaiting t, cell_sent = stopSent t\<rparr>]\<rparr>"

definition on_consumer :: "nat \<Rightarrow> (('w, 'q) cons_st, 'a) go \<Rightarrow> (('w, 'q, 'x) svc_st_scheme, 'a) go" where
  "on_consumer i m = (\<lambda>s. if i < length (conCells s) then
       (case m (to_cons (conCells s ! i) s) of None \<Rightarrow> None | Some (r, t) \<Rightarrow> Some (r, from_cons i t s))
     else Some (Panicked NilDereference, s))"

subsection \<open>Construction\<close>

definition newService :: "nat \<Rightarrow> RabbitService" where
  "newService c = \<lparr>svc_Config = c, encryptionConfigured = False, centralErr = make_chan 1000, consumers = [],
     shutdownSignal = make_chan 1, svc_shutdown = False, monitorSleepInterval = 200 * Millisecond\<rparr>"

text \<open>The map holds pointers: a nil configuration is dereferenced by \<^verbatim>\<open>NewConsumer\<close>.\<close>

fun createConsumers ::
  "('w, 'e) env_scheme \<Rightarrow> (string \<times> ConsumerConfig option) list \<Rightarrow> (('w, 'q, 'x) svc_st_scheme, goerror option) go" where
  "createConsumers E [] = ret None"
| "createConsumers E ((consumerName, consumerConfig) # rest) = (case NewConsumer consumerConfig of
       Panicked p \<Rightarrow> panic_go p
     | Blocked \<Rightarrow> block_go
     | Return con \<Rightarrow>
         bind_go (env_call (os_Hostname E)) (\<lambda>hostName.
         bind_go (modify_go (\<lambda>s.
           s\<lparr>service := (service s)\<lparr>consumers := AList.update consumerName (length (conCells s)) (consumers (service s))\<rparr>,
             conCells := conCells s @ [\<lparr>cell_con = (case hostName of
                 Inl err \<Rightarrow> con | Inr h \<Rightarrow> con\<lparr>ConsumerName := h @ ''-'' @ ConsumerName con\<rparr>),
               cell_loops = [], cell_wait = None, cell_sent = None\<rparr>]\<rparr>)) (\<lambda>_.
         createConsumers E rest)))"

text \<open>The key is derived and stored in the shared configuration.\<close>

definition configureEncryption ::
  "crypto_lib \<Rightarrow> nat \<Rightarrow> string \<Rightarrow> string \<Rightarrow> (('w, 'q, 'x) svc_st_scheme, unit) go" where
  "configureEncryption L c passphrase salt =
     bind_go (conf_at c) (\<lambda>conf. case rs_EncryptionConfig conf of
       None \<Rightarrow> panic_go NilDereference
     | Some ec \<Rightarrow>
         if enc_Enabled ec \<and> 0 < length passphrase \<and> 0 < length salt then
           (case GetHashWithArgon L passphrase salt (TimeConsideration ec) (MemoryMultiplier ec) (Threads ec) 32 of
              Panicked p \<Rightarrow> panic_go p
            | Blocked \<Rightarrow> block_go
            | Return k \<Rightarrow>
                bind_go (modify_go (\<lambda>s. s\<lparr>confHeap := (confHeap s)[c := conf\<lparr>rs_EncryptionConfig :=
                  Some (ec\<lparr>Hashkey := (case k of None \<Rightarrow> [] | Some b \<Rightarrow> b)\<rparr>)\<rparr>]\<rparr>)) (\<lambda>_.
                upd_svc (\<lambda>rs. rs\<lparr>encryptionConfigured := True\<rparr>)))
         else ret ())"

definition NewRabbitServiceWithPublisher ::
  "('w, 'e) env_scheme \<Rightarrow> crypto_lib \<Rightarrow> nat \<Rightarrow> string \<Rightarrow> string \<Rightarrow> (PublishReceipt option \<Rightarrow> 'w \<Rightarrow> 'w) option
     \<Rightarrow> (goerror option \<Rightarrow> 'w \<Rightarrow> 'w) option \<Rightarrow> (('w, 'q, 'x) svc_st_scheme, goerror option) go" where
  "NewRabbitServiceWithPublisher E L c passphrase salt processPublishReceipts processError =
     bind_go (upd_svc (\<lambda>_. newService c)) (\<lambda>_.
     bind_go (conf_at c) (\<lambda>conf.
     bind_go (createConsumers E (rs_ConsumerConfigs conf)) (\<lambda>err.
       if err \<noteq> None then ret err
       else
         bind_go (configureEncryption L c passphrase salt) (\<lambda>_.
         bind_go (modify_go (\<lambda>s. s\<lparr>monitors := monitors s @ [CollectConsumerErrors, MonitorForShutdown,
             (case processPublishReceipts of Some f \<Rightarrow> InvokeProcessPublishReceipts f | None \<Rightarrow> ProcessPublishReceipts),
             (case processError of Some f \<Rightarrow> InvokeProcessError f | None \<Rightarrow> ProcessErrors)]\<rparr>)) (\<lambda>_.
         bind_go StartAutoPublishing (\<lambda>_. ret None))))))"

definition NewRabbitServiceWithConnectionPool ::
  "('w, 'e) env_scheme \<Rightarrow> crypto_lib \<Rightarrow> nat \<Rightarrow> string \<Rightarrow> string \<Rightarrow> (PublishReceipt option \<Rightarrow> 'w \<Rightarrow> 'w) option
     \<Rightarrow> (goerror option \<Rightarrow> 'w \<Rightarrow> 'w) option \<Rightarrow> (('w, 'q, 'x) svc_st_scheme, goerror option) go" where
  "NewRabbitServiceWithConnectionPool E L c passphrase salt processPublishReceipts processError =
     bind_go (NewPublisher c) (\<lambda>_.
     NewRabbitServiceWithPublisher E L c passphrase salt processPublishReceipts processError)"

definition NewRabbitService ::
  "('w, 'e) env_scheme \<Rightarrow> 'q queue_ops \<Rightarrow> crypto_lib \<Rightarrow> nat \<Rightarrow> string \<Rightarrow> string \<Rightarrow> (PublishReceipt option \<Rightarrow> 'w \<Rightarrow> 'w) option
     \<Rightarrow> (goerror option \<Rightarrow> 'w \<Rightarrow> 'w) option \<Rightarrow> (('w, 'q, 'x) svc_st_scheme, goerror option) go" where
  "NewRabbitService E K L c passphrase salt processPublishReceipts processError =
     bind_go (conf_at c) (\<lambda>conf. case rs_PoolConfig conf of
       None \<Rightarrow> panic_go NilDereference
     | Some cfg \<Rightarrow>
         bind_go (NewConnectionPool E K cfg None None) (\<lambda>err.
           if err \<noteq> None then ret err
           else NewRabbitServiceWithConnectionPool E L c passphrase salt processPublishReceipts processError))"

subsection \<open>Publishing\<close>

text \<open>
  The option both \<^verbatim>\<open>Publish\<close> and \<^verbatim>\<open>PublishWithConfirmation\<close> pass to \<open>NewLetter\<close>: context and configurations. Their
  arguments \<^verbatim>\<open>metadata\<close> and \<^verbatim>\<open>headers\<close> are not used.
\<close>

definition serviceOpts :: "nat \<Rightarrow> RabbitSeasoning \<Rightarrow> LetterOptsFun" where
  "serviceOpts ctx conf = (\<lambda>lo. Return (lo\<lparr>Ctx := ctx, EConf := rs_EncryptionConfig conf, CConf := rs_CompressionConfig conf\<rparr>))"

definition dataOpts :: "nat \<Rightarrow> table option \<Rightarrow> RabbitSeasoning \<Rightarrow> LetterOptsFun" where
  "dataOpts ctx headers conf =
     (\<lambda>lo. Return (lo\<lparr>Headers := headers, Ctx := ctx, EConf := rs_EncryptionConfig conf, CConf := rs_CompressionConfig conf\<rparr>))"

definition publishShutdown :: goerror where
  "publishShutdown = ErrorString ''unable to publish as service shutdown triggered''"

definition Service_PublishWithConfirmation ::
  "('w, 'e) env_scheme \<Rightarrow> 'q queue_ops \<Rightarrow> 'v payload_lib \<Rightarrow> ('w \<Rightarrow> random_reader \<times> 'w) \<Rightarrow> nat \<Rightarrow> 'v input \<Rightarrow> string \<Rightarrow> string
     \<Rightarrow> string \<Rightarrow> table option \<Rightarrow> (('w, 'q, 'x) svc_st_scheme, goerror option) go" where
  "Service_PublishWithConfirmation E K L rand ctx inp exchangeName routingKey metadata headers =
     bind_go (gets_go service) (\<lambda>rs.
       if svc_shutdown rs then ret (Some publishShutdown)
       else if inp = NilInput \<or> (exchangeName = [] \<and> routingKey = []) then
         ret (Some (ErrorString ''can't have a nil body or an empty exchangename with empty routing key''))
       else
         bind_go (conf_at (svc_Config rs)) (\<lambda>conf.
         bind_go (NewLetter E L rand exchangeName routingKey inp [serviceOpts ctx conf]) (\<lambda>r. case r of
           Inl err \<Rightarrow> ret (Some err)
         | Inr l \<Rightarrow> PublishWithConfirmationTransient E K l (300 * Millisecond))))"

definition Service_Publish ::
  "('w, 'e) env_scheme \<Rightarrow> 'v payload_lib \<Rightarrow> ('w \<Rightarrow> random_reader \<times> 'w) \<Rightarrow> nat \<Rightarrow> 'v input \<Rightarrow> string \<Rightarrow> string
     \<Rightarrow> string \<Rightarrow> table option \<Rightarrow> (('w, 'q, 'x) svc_st_scheme, goerror option) go" where
  "Service_Publish E L rand ctx inp exchangeName routingKey metadata headers =
     bind_go (gets_go service) (\<lambda>rs.
       if svc_shutdown rs then ret (Some publishShutdown)
       else if inp = NilInput \<or> (exchangeName = [] \<and> routingKey = []) then
         ret (Some (ErrorString ''can't have a nil input or an empty exchangename with empty routing key''))
       else
         bind_go (conf_at (svc_Config rs)) (\<lambda>conf.
         bind_go (NewLetter E L rand exchangeName routingKey inp [serviceOpts ctx conf]) (\<lambda>r. case r of
           Inl err \<Rightarrow> ret (Some err)
         | Inr l \<Rightarrow> Publish E l True)))"

text \<open>\<open>None\<close> is the nil slice.\<close>

definition PublishData ::
  "('w, 'e) env_scheme \<Rightarrow> 'v payload_lib \<Rightarrow> ('w \<Rightarrow> random_reader \<times> 'w) \<Rightarrow> nat \<Rightarrow> bytes option \<Rightarrow> string \<Rightarrow> string
     \<Rightarrow> table option \<Rightarrow> (('w, 'q, 'x) svc_st_scheme, goerror option) go" where
  "PublishData E L rand ctx data exchangeName routingKey headers =
     bind_go (gets_go service) (\<lambda>rs.
       if svc_shutdown rs then ret (Some publishShutdown)
       else if data = None \<or> (exchangeName = [] \<and> routingKey = []) then
         ret (Some (ErrorString ''can't have a nil input or an empty exchangename with empty routing key''))
       else
         bind_go (conf_at (svc_Config rs)) (\<lambda>conf.
         bind_go (NewLetter E L rand exchangeName routingKey (BytesInput (the data)) [dataOpts ctx headers conf]) (\<lambda>r. case r of
           Inl err \<Rightarrow> ret (Some err)
         | Inr l \<Rightarrow> Publish E l True)))"

text \<open>The id of a letter is replaced when its text is empty.\<close>

definition ensureID :: "('w, 'e) env_scheme \<Rightarrow> nat \<Rightarrow> (('w, 'q, 'x) svc_st_scheme, unit) go" where
  "ensureID E l =
     bind_go (letter_at l) (\<lambda>letter.
       if uuid_String E (LetterID letter) = [] then
         bind_go (env_call (uuid_New E)) (\<lambda>lid. modify_go (\<lambda>s. s\<lparr>letterHeap := (letterHeap s)[l := letter\<lparr>LetterID := lid\<rparr>]\<rparr>))
       else ret ())"

definition PublishLetter :: "('w, 'e) env_scheme \<Rightarrow> nat \<Rightarrow> (('w, 'q, 'x) svc_st_scheme, goerror option) go" where
  "PublishLetter E l =
     bind_go (gets_go service) (\<lambda>rs.
       if svc_shutdown rs then ret (Some publishShutdown)
       else bind_go (ensureID E l) (\<lambda>_. Publish E l True))"

definition Service_QueueLetter :: "('w, 'e) env_scheme \<Rightarrow> nat \<Rightarrow> (('w, 'q, 'x) svc_st_scheme, goerror option) go" where
  "Service_QueueLetter E l =
     bind_go (gets_go service) (\<lambda>rs.
       if svc_shutdown rs then ret (Some (ErrorString ''unable to queue letter as service shutdown triggered''))
       else
         bind_go (ensureID E l) (\<lambda>_.
         bind_go (QueueLetter l) (\<lambda>ok.
           if \<not> ok then ret (Some (ErrorString ''unable to queue letter... most likely cause is autopublisher chan was shut''))
           else ret None)))"

subsection \<open>Consumers by name\<close>

text \<open>
  \<^verbatim>\<open>%q\<close>: double quotes, with escapes for the quote, the backslash and the control characters. Bytes above
  127 are kept (\<^verbatim>\<open>%q\<close> does so for printable UTF-8 text).
\<close>

definition hexDigit :: "nat \<Rightarrow> char" where
  "hexDigit n = char_of (if n < 10 then 48 + n else 87 + n)"

definition quoteChar :: "char \<Rightarrow> string" where
  "quoteChar ch =
     (if ch = CHR 0x22 \<or> ch = CHR 0x5C then [CHR 0x5C, ch]
      else if ch = CHR 0x07 then [CHR 0x5C, CHR ''a''] else if ch = CHR 0x08 then [CHR 0x5C, CHR ''b'']
      else if ch = CHR 0x0C then [CHR 0x5C, CHR ''f''] else if ch = CHR 0x0A then [CHR 0x5C, CHR ''n'']
      else if ch = CHR 0x0D then [CHR 0x5C, CHR ''r''] else if ch = CHR 0x09 then [CHR 0x5C, CHR ''t'']
      else if ch = CHR 0x0B then [CHR 0x5C, CHR ''v'']
      else if (of_char ch :: nat) < 32 \<or> ch = CHR 0x7F then
        [CHR 0x5C, CHR ''x'', hexDigit (of_char ch div 16), hexDigit (of_char ch mod 16)]
      else [ch])"

definition quoted :: "string \<Rightarrow> string" where
  "quoted t = CHR 0x22 # concat (map quoteChar t) @ [CHR 0x22]"

definition GetConsumer :: "RabbitService \<Rightarrow> string \<Rightarrow> goerror + nat" where
  "GetConsumer rs consumerName = (case map_of (consumers rs) consumerName of
       Some i \<Rightarrow> Inr i | None \<Rightarrow> Inl (ErrorString (''consumer '' @ quoted consumerName @ '' was not found'')))"

definition GetConsumerConfig :: "string \<Rightarrow> (('w, 'q, 'x) svc_st_scheme, goerror + ConsumerConfig) go" where
  "GetConsumerConfig consumerName =
     bind_go (gets_go service) (\<lambda>rs. case map_of (consumers rs) consumerName of
       Some i \<Rightarrow> bind_go (gets_go conCells) (\<lambda>cells.
         if i < length cells then ret (Inr (con_Config (cell_con (cells ! i)))) else panic_go NilDereference)
     | None \<Rightarrow> ret (Inl (ErrorString (''consumer '' @ quoted consumerName @ '' was not found''))))"

definition CentralErr :: "RabbitService \<Rightarrow> goerror gochan" where
  "CentralErr rs = centralErr rs"

subsection \<open>Shutdown\<close>

text \<open>A stop that parks (its signal finds no room) parks the caller.\<close>

fun stopConsumersLoop :: "nat list \<Rightarrow> (('w, 'q, 'x) svc_st_scheme, unit) go" where
  "stopConsumersLoop [] = ret ()"
| "stopConsumersLoop (i # rest) =
     bind_go (on_consumer i (StopConsuming True)) (\<lambda>_.
     bind_go (gets_go (\<lambda>s. cell_wait (conCells s ! i))) (\<lambda>w. if w = None then stopConsumersLoop rest else block_go))"

definition Service_Shutdown ::
  "('w, 'e) env_scheme \<Rightarrow> 'q queue_ops \<Rightarrow> (('w, 'q, 'x) svc_st_scheme, unit) go \<Rightarrow> bool \<Rightarrow> (('w, 'q, 'x) svc_st_scheme, unit) go" where
  "Service_Shutdown E K others stopConsumers =
     bind_go (Publisher_Shutdown E K False) (\<lambda>_.
     bind_go (env_do (time_Sleep E Second)) (\<lambda>_. bind_go others (\<lambda>_.
     bind_go (send_field get_signal put_signal True) (\<lambda>_.
     bind_go (env_do (time_Sleep E Second)) (\<lambda>_. bind_go others (\<lambda>_.
     bind_go (gets_go (\<lambda>s. map snd (consumers (service s)))) (\<lambda>is.
     bind_go (if stopConsumers then stopConsumersLoop is else ret ()) (\<lambda>_.
     ConnectionPool_Shutdown E K False))))))))"

subsection \<open>The goroutines\<close>

text \<open>What an idle round does; the check each round of three of the goroutines starts with.\<close>

definition monitorSleep :: "('w, 'e) env_scheme \<Rightarrow> (('w, 'q, 'x) svc_st_scheme, 'a option) go" where
  "monitorSleep E =
     bind_go (gets_go service) (\<lambda>rs. bind_go (env_do (time_Sleep E (monitorSleepInterval rs))) (\<lambda>_. ret None))"

definition unlessShutdown ::
  "(('w, 'q, 'x) svc_st_scheme, unit option) go \<Rightarrow> (('w, 'q, 'x) svc_st_scheme, unit option) go" where
  "unlessShutdown m = bind_go (gets_go service) (\<lambda>rs. if svc_shutdown rs then ret (Some ()) else m)"

definition sendCentral :: "string \<Rightarrow> (('w, 'q, 'x) svc_st_scheme, unit) go" where
  "sendCentral text = send_field get_central put_central (ErrorString text)"

definition shutdownRound :: "('w, 'e) env_scheme \<Rightarrow> (('w, 'q, 'x) svc_st_scheme, unit option) go" where
  "shutdownRound E =
     bind_go (recv_field get_signal put_signal) (\<lambda>r. case r of
       WouldBlock \<Rightarrow> monitorSleep E
     | _ \<Rightarrow> bind_go (upd_svc (\<lambda>rs. rs\<lparr>svc_shutdown := True\<rparr>)) (\<lambda>_. ret (Some ())))"

definition monitorForShutdown :: "('w, 'e) env_scheme \<Rightarrow> (('w, 'q, 'x) svc_st_scheme, unit) go" where
  "monitorForShutdown E = forever (shutdownRound E)"

text \<open>
  One consumer: \<open>Some True\<close> leaves all loops, \<open>Some False\<close> goes on to the next consumer. The errors channel of
  a consumer is never closed.
\<close>

definition collectOne :: "nat \<Rightarrow> (('w, 'q, 'x) svc_st_scheme, bool option) go" where
  "collectOne i =
     bind_go (gets_go service) (\<lambda>rs.
       if svc_shutdown rs then ret (Some True)
       else
         bind_go (on_consumer i (recv_field get_errors put_errors)) (\<lambda>r. case r of
           Received err \<Rightarrow> bind_go (send_field get_central put_central err) (\<lambda>_. ret None)
         | ZeroValue \<Rightarrow> ret None
         | WouldBlock \<Rightarrow> ret (Some False)))"

fun collectAll :: "nat list \<Rightarrow> (('w, 'q, 'x) svc_st_scheme, bool) go" where
  "collectAll [] = ret False"
| "collectAll (i # rest) = bind_go (forever (collectOne i)) (\<lambda>stop. if stop then ret True else collectAll rest)"

definition collectRound :: "('w, 'e) env_scheme \<Rightarrow> (('w, 'q, 'x) svc_st_scheme, unit option) go" where
  "collectRound E =
     bind_go (gets_go (\<lambda>s. map snd (consumers (service s)))) (\<lambda>is.
     bind_go (collectAll is) (\<lambda>stop. if stop then ret (Some ()) else monitorSleep E))"

definition collectConsumerErrors :: "('w, 'e) env_scheme \<Rightarrow> (('w, 'q, 'x) svc_st_scheme, unit) go" where
  "collectConsumerErrors E = forever (collectRound E)"

definition invokeReceiptsRound ::
  "('w, 'e) env_scheme \<Rightarrow> (PublishReceipt option \<Rightarrow> 'w \<Rightarrow> 'w) \<Rightarrow> (('w, 'q, 'x) svc_st_scheme, unit option) go" where
  "invokeReceiptsRound E processReceipts = unlessShutdown
     (bind_go recvReceipt (\<lambda>r. case r of
        Received receipt \<Rightarrow> bind_go (env_do (processReceipts (Some receipt))) (\<lambda>_. ret None)
      | ZeroValue \<Rightarrow> bind_go (env_do (processReceipts None)) (\<lambda>_. ret None)
      | WouldBlock \<Rightarrow> monitorSleep E))"

definition invokeProcessPublishReceipts ::
  "('w, 'e) env_scheme \<Rightarrow> (PublishReceipt option \<Rightarrow> 'w \<Rightarrow> 'w) \<Rightarrow> (('w, 'q, 'x) svc_st_scheme, unit) go" where
  "invokeProcessPublishReceipts E processReceipts = forever (invokeReceiptsRound E processReceipts)"

text \<open>What becomes of one receipt.\<close>

definition handleReceipt :: "('w, 'e) env_scheme \<Rightarrow> PublishReceipt \<Rightarrow> (('w, 'q, 'x) svc_st_scheme, unit) go" where
  "handleReceipt E receipt =
     (let lid = uuid_String E (receipt_LetterID receipt) in
      if Success receipt then ret ()
      else (case FailedLetter receipt of
        None \<Rightarrow> sendCentral (''failed to publish a LetterID '' @ lid @ '' and unable to retry as a copy of the letter was not received'')
      | Some l \<Rightarrow>
          bind_go (letter_at l) (\<lambda>letter.
          bind_go (gets_go service) (\<lambda>rs.
          bind_go (conf_at (svc_Config rs)) (\<lambda>conf. case rs_PublisherConfig conf of
            None \<Rightarrow> panic_go NilDereference
          | Some pc \<Rightarrow>
              if RetryCount (opts letter) \<le> MaxRetryCount pc then
                bind_go (sendCentral (''failed to publish LetterID '' @ lid @ ''... retrying (count: '' @
                  append_int (uint (RetryCount (opts letter))) 0 @ '')'')) (\<lambda>_.
                bind_go (QueueLetter l) (\<lambda>ok.
                  if \<not> ok then sendCentral (''failed to publish a LetterID '' @ lid @ '' and autopublisher has been shutdown'')
                  else ret ()))
              else sendCentral (''failed to retry publish a LetterID '' @ lid @ '', it has exhausted all of it's retries''))))))"

definition receiptsRound :: "('w, 'e) env_scheme \<Rightarrow> (('w, 'q, 'x) svc_st_scheme, unit option) go" where
  "receiptsRound E = unlessShutdown
     (bind_go recvReceipt (\<lambda>r. case r of
        Received receipt \<Rightarrow> bind_go (handleReceipt E receipt) (\<lambda>_. ret None)
      | ZeroValue \<Rightarrow> panic_go NilDereference
      | WouldBlock \<Rightarrow> monitorSleep E))"

definition processPublishReceipts :: "('w, 'e) env_scheme \<Rightarrow> (('w, 'q, 'x) svc_st_scheme, unit) go" where
  "processPublishReceipts E = forever (receiptsRound E)"

definition invokeErrorRound ::
  "('w, 'e) env_scheme \<Rightarrow> (goerror option \<Rightarrow> 'w \<Rightarrow> 'w) \<Rightarrow> (('w, 'q, 'x) svc_st_scheme, unit option) go" where
  "invokeErrorRound E processError = unlessShutdown
     (bind_go (recv_field get_central put_central) (\<lambda>r. case r of
        Received err \<Rightarrow> bind_go (env_do (processError (Some err))) (\<lambda>_. ret None)
      | ZeroValue \<Rightarrow> bind_go (env_do (processError None)) (\<lambda>_. ret None)
      | WouldBlock \<Rightarrow> monitorSleep E))"

definition invokeProcessError ::
  "('w, 'e) env_scheme \<Rightarrow> (goerror option \<Rightarrow> 'w \<Rightarrow> 'w) \<Rightarrow> (('w, 'q, 'x) svc_st_scheme, unit) go" where
  "invokeProcessError E processError = forever (invokeErrorRound E processError)"

text \<open>The default handler prints the error; the output is not part of the state.\<close>

definition errorsRound :: "('w, 'e) env_scheme \<Rightarrow> (('w, 'q, 'x) svc_st_scheme, unit option) go" where
  "errorsRound E = unlessShutdown
     (bind_go (recv_field get_central put_central) (\<lambda>r. case r of WouldBlock \<Rightarrow> monitorSleep E | _ \<Rightarrow> ret None))"

definition processErrors :: "('w, 'e) env_scheme \<Rightarrow> (('w, 'q, 'x) svc_st_scheme, unit) go" where
  "processErrors E = forever (errorsRound E)"

fun run_monitor :: "('w, 'e) env_scheme \<Rightarrow> 'w monitor \<Rightarrow> (('w, 'q, 'x) svc_st_scheme, unit) go" where
  "run_monitor E CollectConsumerErrors = collectConsumerErrors E"
| "run_monitor E MonitorForShutdown = monitorForShutdown E"
| "run_monitor E (InvokeProcessPublishReceipts f) = invokeProcessPublishReceipts E f"
| "run_monitor E ProcessPublishReceipts = processPublishReceipts E"
| "run_monitor E (InvokeProcessError f) = invokeProcessError E f"
| "run_monitor E ProcessErrors = processErrors E"

interpretation centralField: chan_field get_central put_central
  by unfold_locales (simp_all add: get_central_def put_central_def)

interpretation signalField: chan_field get_signal put_signal
  by unfold_locales (simp_all add: get_signal_def put_signal_def)

subsection \<open>After a shutdown\<close>

lemma forever_at_once: "body s = Some (Return (Some a), t) \<Longrightarrow> forever body s = Some (Return a, t)"
  by (subst forever.simps) simp

lemma round_after_shutdown: "svc_shutdown (service s) \<Longrightarrow> unlessShutdown m s = Some (Return (Some ()), s)"
  by (simp add: unlessShutdown_def go_prims)

lemma collector_leaks: "consumers (service s) = [] \<Longrightarrow> collectConsumerErrors E s = None"
  unfolding collectConsumerErrors_def
  by (rule forever_diverges [where D = "\<lambda>s. consumers (service s) = []"])
    (simp_all add: collectRound_def monitorSleep_def env_do_def go_prims)

lemma collector_ends:
  assumes "svc_shutdown (service s)" "consumers (service s) \<noteq> []"
  shows "collectConsumerErrors E s = Some (Return (), s)"
proof -
  obtain k i rest where c: "consumers (service s) = (k, i) # rest" using assms(2) by (cases "consumers (service s)") auto
  have "collectOne i s = Some (Return (Some True), s)"
    using assms(1) by (simp add: collectOne_def bind_go_def gets_go_def ret_def)
  from forever_at_once [where body = "collectOne i", OF this] have "collectAll (i # js) s = Some (Return True, s)" for js
    by (simp add: bind_go_def ret_def)
  then show ?thesis
    unfolding collectConsumerErrors_def by (intro forever_at_once) (simp add: collectRound_def bind_go_def gets_go_def ret_def c)
qed

text \<open>
  C23: once the shutdown flag is set, every goroutine of the service ends at its next round, with one
  exception: the goroutine that collects the errors of the consumers looks at the flag only inside its
  loop over the consumers, so in a service without consumers it runs for ever.
\<close>

theorem service_goroutines_after_shutdown:
  assumes "svc_shutdown (service s)" "mon \<noteq> MonitorForShutdown"
  shows "run_monitor E mon s =
    (if mon = CollectConsumerErrors \<and> consumers (service s) = [] then None else Some (Return (), s))"
  using assms
  by (cases mon)
    (auto simp: collector_leaks collector_ends invokeProcessPublishReceipts_def processPublishReceipts_def invokeProcessError_def
      processErrors_def invokeReceiptsRound_def receiptsRound_def invokeErrorRound_def errorsRound_def round_after_shutdown
      intro!: forever_at_once)

subsection \<open>Retries\<close>

text \<open>
  A letter whose publishing fails time and again: the publisher reports the failure, the service handles
  the receipt, an error handler reads the error, and the auto publisher takes the letter if it was
  queued again. The result is the number of retries within \<open>n\<close> failures.
\<close>

fun failures :: "('w, 'e) env_scheme \<Rightarrow> nat \<Rightarrow> goerror \<Rightarrow> nat \<Rightarrow> (('w, 'q, 'x) svc_st_scheme, nat) go" where
  "failures E l err 0 = ret 0"
| "failures E l err (Suc n) =
     bind_go (publishReceipt l (Some err)) (\<lambda>_.
     bind_go (receiptsRound E) (\<lambda>_.
     bind_go (errorsRound E) (\<lambda>_.
     bind_go (recv_field (\<lambda>s. letters (publisher s)) upd_letters) (\<lambda>r. case r of
       Received l' \<Rightarrow> bind_go (failures E l err n) (\<lambda>k. ret (Suc k))
     | _ \<Rightarrow> ret 0))))"

definition empty_chan :: "'a gochan \<Rightarrow> bool" where
  "empty_chan c \<longleftrightarrow> ch_buf c = [] \<and> 0 < ch_cap c \<and> \<not> ch_closed c"

definition retry_ready :: "nat \<Rightarrow> uint16 \<Rightarrow> uint16 \<Rightarrow> ('w, 'q, 'x) svc_st_scheme \<Rightarrow> bool" where
  "retry_ready l m r s \<longleftrightarrow> \<not> svc_shutdown (service s) \<and> l < length (letterHeap s) \<and> RetryCount (opts (letterHeap s ! l)) = r \<and>
     receiptSenders s = [] \<and> empty_chan (publishReceipts (publisher s)) \<and> empty_chan (letters (publisher s)) \<and>
     empty_chan (get_central s) \<and> svc_Config (service s) < length (confHeap s) \<and>
     (\<exists>pc. rs_PublisherConfig (confHeap s ! svc_Config (service s)) = Some pc \<and> MaxRetryCount pc = m)"

lemma wp_recvReceipt [wp_simps]:
  "wp recvReceipt Q s = (case ch_buf (publishReceipts (publisher s)) of
     [] \<Rightarrow> Q (if ch_closed (publishReceipts (publisher s)) then ZeroValue else WouldBlock) s
   | r # rs \<Rightarrow> Q (Received r) (case receiptSenders s of
        [] \<Rightarrow> s\<lparr>publisher := (publisher s)\<lparr>publishReceipts := (publishReceipts (publisher s))\<lparr>ch_buf := rs\<rparr>\<rparr>\<rparr>
      | q # qs \<Rightarrow> s\<lparr>publisher := (publisher s)\<lparr>publishReceipts := (publishReceipts (publisher s))\<lparr>ch_buf := rs @ [q]\<rparr>\<rparr>,
          receiptSenders := qs\<rparr>))"
  by (auto simp: wp_def recvReceipt_def chan_recv_def split: list.splits)

lemma wp_conf_at [wp_simps]: "wp (conf_at c) Q s = (c < length (confHeap s) \<and> Q (confHeap s ! c) s)"
  by (simp add: wp_def conf_at_def)

lemma wlp_conf_at [wp_simps]:
  "wlp (conf_at c) Q X s = (if c < length (confHeap s) then Q (confHeap s ! c) s else X (Some NilDereference) s)"
  by (simp add: wlp_def conf_at_def)

lemma failure_step:
  assumes "retry_ready l m r s"
  shows "wp (bind_go (publishReceipt l (Some err)) (\<lambda>_. bind_go (receiptsRound E) (\<lambda>_. bind_go (errorsRound E) (\<lambda>_.
      recv_field (\<lambda>s. letters (publisher s)) upd_letters))))
    (\<lambda>x t. if r + 1 \<le> m then x = Received l \<and> retry_ready l m (r + 1) t else x = WouldBlock) s"
  using assms
  by (auto simp: retry_ready_def empty_chan_def wp_simps publishReceipt_def receiptsRound_def unlessShutdown_def handleReceipt_def
      sendCentral_def QueueLetter_def errorsRound_def chan_send_def Let_def get_central_def put_central_def upd_letters_def)


lemma failures_step:
  assumes "retry_ready l m r s" "\<And>t. \<not> r + 1 \<le> m \<Longrightarrow> Q 0 t"
    "\<And>t. r + 1 \<le> m \<Longrightarrow> retry_ready l m (r + 1) t \<Longrightarrow> wp (failures E l err n) (\<lambda>k. Q (Suc k)) t"
  shows "wp (failures E l err (Suc n)) Q s"
proof -
  have "wp (bind_go (bind_go (publishReceipt l (Some err)) (\<lambda>_. bind_go (receiptsRound E) (\<lambda>_. bind_go (errorsRound E) (\<lambda>_.
      recv_field (\<lambda>s. letters (publisher s)) upd_letters)))) (\<lambda>r. case r of
        Received l' \<Rightarrow> bind_go (failures E l err n) (\<lambda>k. ret (Suc k)) | _ \<Rightarrow> ret 0)) Q s"
    by (rule wp_seq [OF failure_step [OF assms(1)]]) (use assms(2,3) in \<open>auto simp: wp_simps split: if_splits\<close>)
  then show ?thesis by (simp add: bind_assoc)
qed

lemma uint16_max: "(x :: uint16) \<le> 65535"
  using uint_lt2p [of x] by (simp add: word_le_def)

lemma failures_unbounded:
  "retry_ready l 65535 r s \<Longrightarrow> wp (failures E l err n) (\<lambda>k _. k = n) s"
proof (induction n arbitrary: r s)
  case (Suc n)
  have "r + 1 \<le> 65535" by (rule uint16_max)
  then show ?case by (intro failures_step [OF Suc.prems]) (auto intro: Suc.IH)
qed (simp add: wp_simps)

lemma failures_bounded:
  fixes s :: "('w, 'q, 'x) svc_st_scheme"
  assumes "m < 65535"
  shows "retry_ready l m r s \<Longrightarrow> r < 65535 \<Longrightarrow> wp (failures E l err n) (\<lambda>k _. k = min n (unat m - unat r)) s"
proof (induction n arbitrary: r s)
  case (Suc n)
  have r1: "unat (r + 1) = Suc (unat r)" using Suc.prems(2) by (simp add: unat_word_ariths word_less_nat_alt)
  have le: "r + 1 \<le> m \<longleftrightarrow> Suc (unat r) \<le> unat m" by (simp add: word_le_nat_alt r1)
  show ?case
  proof (rule failures_step [OF Suc.prems(1)])
    show "0 = min (Suc n) (unat m - unat r)" if "\<not> r + 1 \<le> m" using that le by simp
    fix t :: "('w, 'q, 'x) svc_st_scheme"
    assume t: "r + 1 \<le> m" "retry_ready l m (r + 1) t"
    then have "r + 1 < 65535" using assms by simp
    from Suc.IH [OF t(2) this] show "wp (failures E l err n) (\<lambda>k _. Suc k = min (Suc n) (unat m - unat r)) t"
      by (rule wp_mono) (use t(1) le r1 in simp)
  qed
qed (simp add: wp_simps)

text \<open>
  C20: how often the service retries a letter. A new letter starts with retry count 3, a failure is
  counted before the comparison, so \<open>MaxRetryCount\<close> allows that many retries less 3 and with 3 or less
  nothing is ever retried; with 65535, the largest value, the count wraps around and a letter that
  keeps failing is retried without end.
\<close>

theorem retry_budget:
  assumes "retry_ready l m 3 s"
  shows "wp (failures E l err n) (\<lambda>retries _. retries = (if m = 65535 then n else min n (unat m - 3))) s"
proof (cases "m = 65535")
  case True
  with assms failures_unbounded [of l 3 s E err n] show ?thesis by simp
next
  case False
  have "m \<le> 65535" by (rule uint16_max)
  with False have "m < 65535" by simp
  from failures_bounded [OF this assms, of E err n] False show ?thesis by simp
qed

subsection \<open>Publishing through the service\<close>

lemma NewLetter_wlp:
  assumes "applyOpts fs (defaultOpts x k) = Return o'"
  shows "wlp (NewLetter E L rand x k inp fs) (\<lambda>r t. case ToPayload L (fst (rand (world s))) inp (CConf o') (EConf o') of
      Inl err \<Rightarrow> r = Inl err \<and> only_world s t
    | Inr body \<Rightarrow> r = Inr (length (letterHeap s)) \<and>
        (\<exists>w lid. t = s\<lparr>world := w, letterHeap := letterHeap s @ [\<lparr>LetterID = lid, Body = body, opts = o'\<rparr>]\<rparr>)) X s"
  using assms by (auto simp: NewLetter_def wp_simps only_world_def split: sum.split)

lemma letterHeap_frame [simp]:
  "ready items (s\<lparr>letterHeap := h\<rparr>) = ready items s" "cacheBuf (s\<lparr>letterHeap := h\<rparr>) = cacheBuf s"
  "same_cache (s\<lparr>letterHeap := h\<rparr>) t = same_cache s t" "same_cache (s\<lparr>world := w\<rparr>) t = same_cache s t"
  "receipts_ok (s\<lparr>letterHeap := h\<rparr>) = receipts_ok s" "receipts (s\<lparr>letterHeap := h\<rparr>) = receipts s"
  by (simp_all add: ready_def cache_ready_def cacheBuf_def same_cache_def receipts_ok_def receipts_def pool_inv_def heap_ok_def
      conn_live_def)

text \<open>One letter with the body and the options given was made and published: its outcome, and its receipt.\<close>

definition sent_letter ::
  "('w, 'q, 'x) pub_st_scheme \<Rightarrow> ('w, 'q, 'x) pub_st_scheme \<Rightarrow> bytes \<Rightarrow> LetterOpts \<Rightarrow> goerror option \<Rightarrow> bool" where
  "sent_letter s t body o' err \<longleftrightarrow> (\<exists>letter. Body letter = body \<and> opts letter = o' \<and>
     letterHeap t = letterHeap s @ [counted letter err] \<and>
     receipts t = receipts s @ [receipt_for letter (length (letterHeap s)) err]) \<and>
   confHeap t = confHeap s \<and> publisher t = (publisher s)\<lparr>publishReceipts := publishReceipts (publisher t)\<rparr>"

lemma make_and_publish:
  assumes "channel_law E" "ready items s" "cacheBuf s \<noteq> []" "receipts_ok s" "applyOpts fs (defaultOpts x k) = Return o'"
  shows "wlp (bind_go (NewLetter E L rand x k inp fs) (\<lambda>r. case r of Inl err \<Rightarrow> ret (Some err) | Inr l \<Rightarrow> Publish E l True))
    (\<lambda>err t. ready items t \<and> same_cache s t \<and> (case ToPayload L (fst (rand (world s))) inp (CConf o') (EConf o') of
        Inl e \<Rightarrow> err = Some e \<and> only_world s t | Inr body \<Rightarrow> sent_letter s t body o' err)) (\<lambda>_ _. False) s"
proof (rule wlp_seq [OF NewLetter_wlp [OF assms(5)]], goal_cases)
  case (1 r t)
  show ?case
  proof (cases "ToPayload L (fst (rand (world s))) inp (CConf o') (EConf o')")
    case (Inl err)
    with 1 obtain w where "t = s\<lparr>world := w\<rparr>" "r = Inl err" by (auto elim: only_worldE)
    with assms(2) Inl show ?thesis by (simp add: wp_simps same_cache_def cacheBuf_def)
  next
    case (Inr body)
    with 1 obtain w lid where l: "r = Inr (length (letterHeap s))"
      and t: "t = s\<lparr>world := w, letterHeap := letterHeap s @ [\<lparr>LetterID = lid, Body = body, opts = o'\<rparr>]\<rparr>" by auto
    let ?letter = "\<lparr>LetterID = lid, Body = body, opts = o'\<rparr>" and ?l = "length (letterHeap s)"
    have "ready items t" "cacheBuf t \<noteq> []" "?l < length (letterHeap t)" "receipts_ok t"
      using assms(2-4) by (simp_all add: t cacheBuf_def receipts_ok_def)
    from Publish_wlp [OF assms(1) this, of True] show ?thesis
      unfolding l Inr sum.case
    proof (rule wlp_mono)
      fix err u assume u: "ready items u \<and> same_cache t u \<and> receipt_if True t ?l err u"
      then have "sent_letter s u body o' err"
        by (auto simp: sent_letter_def receipt_if_def reported_def t receipts_def intro!: exI [of _ ?letter])
      with u show "ready items u \<and> same_cache s u \<and> sent_letter s u body o' err"
        by (simp add: t same_cache_def cacheBuf_def)
    qed
  qed
qed

text \<open>
  C21: \<open>Publish\<close> of the service on a state with a ready cache never panics or parks. After a shutdown it
  returns the shutdown error, and without an input or without both exchange name and routing key the
  error that says so; nothing changes then. Otherwise, if the payload cannot be built, \<open>ToPayload\<close>'s error
  is returned and no letter is made. If it can, exactly one letter was made, with that payload, the address,
  the context and the configurations of the service and with default options for everything else,
  whatever headers the caller passed, and exactly one receipt was issued for it, with the error that
  is returned; the channels are back in the cache.
\<close>

theorem Service_Publish_result:
  assumes "channel_law E" "ready items s" "cacheBuf s \<noteq> []" "receipts_ok s" "svc_Config (service s) < length (confHeap s)"
    and "Service_Publish E L rand ctx inp exchangeName routingKey metadata headers s = Some (r, t)"
    and "o' = (defaultOpts exchangeName routingKey)\<lparr>Ctx := ctx,
         EConf := rs_EncryptionConfig (confHeap s ! svc_Config (service s)),
         CConf := rs_CompressionConfig (confHeap s ! svc_Config (service s))\<rparr>"
  shows "\<exists>err. r = Return err \<and> ready items t \<and> same_cache s t \<and>
    (if svc_shutdown (service s) then
       err = Some (ErrorString ''unable to publish as service shutdown triggered'') \<and> t = s
     else if inp = NilInput \<or> (exchangeName = [] \<and> routingKey = []) then
       err = Some (ErrorString ''can't have a nil input or an empty exchangename with empty routing key'') \<and> t = s
     else (case ToPayload L (fst (rand (world s))) inp (CConf o') (EConf o') of
         Inl e \<Rightarrow> err = Some e \<and> only_world s t
       | Inr body \<Rightarrow> sent_letter s t body o' err))"
proof (cases "svc_shutdown (service s) \<or> inp = NilInput \<or> (exchangeName = [] \<and> routingKey = [])")
  case True
  with assms(2,6) show ?thesis
    by (auto simp: Service_Publish_def go_prims same_cache_def publishShutdown_def split: if_splits)
next
  case False
  let ?conf = "confHeap s ! svc_Config (service s)"
  have "applyOpts [serviceOpts ctx ?conf] (defaultOpts exchangeName routingKey) = Return o'"
    by (simp add: serviceOpts_def assms(7))
  note p = make_and_publish [OF assms(1-4) this, of L rand inp]
  have "wlp (Service_Publish E L rand ctx inp exchangeName routingKey metadata headers)
      (\<lambda>err t. ready items t \<and> same_cache s t \<and> (case ToPayload L (fst (rand (world s))) inp (CConf o') (EConf o') of
        Inl e \<Rightarrow> err = Some e \<and> only_world s t | Inr body \<Rightarrow> sent_letter s t body o' err)) (\<lambda>_ _. False) s"
    using p False assms(5) by (cases "exchangeName = []") (simp_all add: Service_Publish_def wp_simps)
  with assms(6) False show ?thesis by (cases r) (auto simp: wlp_def)
qed

subsection \<open>Construction\<close>

text \<open>A consumer made from its configuration, its name prefixed by the host's unless that is unknown.\<close>

definition made_from :: "('w, 'e) env_scheme \<Rightarrow> ConsumerConfig \<Rightarrow> 'w cons_cell \<Rightarrow> bool" where
  "made_from E cfg c \<longleftrightarrow> cell_loops c = [] \<and> cell_wait c = None \<and> cell_sent c = None \<and>
     (\<exists>w. cell_con c = (case fst (os_Hostname E w) of
        Inl err \<Rightarrow> newConsumer cfg
      | Inr h \<Rightarrow> (newConsumer cfg)\<lparr>ConsumerName := h @ ''-'' @ cc_ConsumerName cfg\<rparr>))"

lemma update_fresh: "k \<notin> fst ` set al \<Longrightarrow> AList.update k v al = al @ [(k, v)]"
  by (induction al) auto

lemma made_from_newConsumer:
  "made_from E cfg \<lparr>cell_con = (case fst (os_Hostname E w) of Inl e \<Rightarrow> newConsumer cfg
     | Inr n \<Rightarrow> (newConsumer cfg)\<lparr>ConsumerName := n @ ''-'' @ ConsumerName (newConsumer cfg)\<rparr>), cell_loops = [], cell_wait = None,
     cell_sent = None\<rparr>"
  unfolding made_from_def by (simp, rule exI [of _ w]) (simp add: newConsumer_def split: sum.split)

lemma createConsumers_nil:
  "None \<in> snd ` set cfgs \<Longrightarrow> \<exists>t. createConsumers E cfgs s = Some (Panicked NilDereference, t)"
proof (induction cfgs arbitrary: s)
  case (Cons cfg cfgs)
  then show ?case
    by (cases cfg; cases "snd cfg") (auto simp: NewConsumer_def go_prims env_call_def)
qed simp

lemma createConsumers_wp:
  assumes "distinct (map fst cfgs)" "None \<notin> snd ` set cfgs" "fst ` set cfgs \<inter> fst ` set (consumers (service s)) = {}"
  shows "wp (createConsumers E cfgs) (\<lambda>r t. r = None \<and> (\<exists>w cells. list_all2 (\<lambda>cfg c. made_from E (the (snd cfg)) c) cfgs cells \<and>
     t = s\<lparr>world := w, service := (service s)\<lparr>consumers := consumers (service s) @
         zip (map fst cfgs) [length (conCells s) ..< length (conCells s) + length cfgs]\<rparr>,
       conCells := conCells s @ cells\<rparr>)) s"
  using assms
proof (induction cfgs arbitrary: s)
  case Nil
  show ?case by (auto simp: wp_simps intro!: exI [of _ "world s"])
next
  case (Cons cfg cfgs)
  obtain name config where cfg: "cfg = (name, Some config)" using Cons.prems(2) by (cases cfg; cases "snd cfg") auto
  obtain h w where h: "os_Hostname E (world s) = (h, w)" by (cases "os_Hostname E (world s)")
  let ?c = "\<lparr>cell_con = (case fst (os_Hostname E (world s)) of Inl e \<Rightarrow> newConsumer config
     | Inr n \<Rightarrow> (newConsumer config)\<lparr>ConsumerName := n @ ''-'' @ ConsumerName (newConsumer config)\<rparr>), cell_loops = [], cell_wait = None, cell_sent = None\<rparr>"
  let ?u = "s\<lparr>world := w, service := (service s)\<lparr>consumers := consumers (service s) @ [(name, length (conCells s))]\<rparr>,
    conCells := conCells s @ [?c]\<rparr>"
  have u: "distinct (map fst cfgs)" "None \<notin> snd ` set cfgs" "fst ` set cfgs \<inter> fst ` set (consumers (service ?u)) = {}"
    using Cons.prems by (auto simp: cfg)
  have new: "AList.update name (length (conCells s)) (consumers (service s)) = consumers (service s) @ [(name, length (conCells s))]"
    by (rule update_fresh) (use Cons.prems in \<open>auto simp: cfg\<close>)
  have ns: "[length (conCells s) ..< length (conCells s) + length (cfg # cfgs)] =
      length (conCells s) # [length (conCells ?u) ..< length (conCells ?u) + length cfgs]"
    by (simp add: upt_conv_Cons del: upt_Suc)
  have "wp (createConsumers E cfgs) (\<lambda>r t. r = None \<and> (\<exists>w cells. list_all2 (\<lambda>cfg c. made_from E (the (snd cfg)) c) (cfg # cfgs) cells \<and>
     t = s\<lparr>world := w, service := (service s)\<lparr>consumers := consumers (service s) @
         zip (map fst (cfg # cfgs)) [length (conCells s) ..< length (conCells s) + length (cfg # cfgs)]\<rparr>,
       conCells := conCells s @ cells\<rparr>)) ?u"
  proof (rule wp_mono [OF Cons.IH [OF u]], elim conjE exE, intro conjI)
    fix r t w' cells
    assume cells: "list_all2 (\<lambda>cfg c. made_from E (the (snd cfg)) c) cfgs cells" and t: "t = ?u\<lparr>world := w', service := (service ?u)\<lparr>consumers :=
      consumers (service ?u) @ zip (map fst cfgs) [length (conCells ?u) ..< length (conCells ?u) + length cfgs]\<rparr>, conCells := conCells ?u @ cells\<rparr>"
    show "\<exists>w cells. list_all2 (\<lambda>cfg c. made_from E (the (snd cfg)) c) (cfg # cfgs) cells \<and> t = s\<lparr>world := w, service := (service s)\<lparr>consumers :=
        consumers (service s) @ zip (map fst (cfg # cfgs)) [length (conCells s) ..< length (conCells s) + length (cfg # cfgs)]\<rparr>,
        conCells := conCells s @ cells\<rparr>"
      unfolding ns t
      by (rule exI [of _ w'], rule exI [of _ "?c # cells"])
        (use cells made_from_newConsumer [of E config "world s"] in \<open>simp add: cfg del: upt_Suc\<close>)
  qed
  then show ?case by (simp add: cfg wp_simps h new NewConsumer_def)
qed

lemma createConsumers_names:
  assumes "list_all2 (\<lambda>cfg c. made_from E (the (snd cfg)) c) cfgs cells" "distinct (map fst cfgs)"
    "consumers rs = zip (map fst cfgs) [n ..< n + length cfgs]" "length old = n"
  shows "(name, Some cfg) \<in> set cfgs \<Longrightarrow> \<exists>i < n + length cells. GetConsumer rs name = Inr i \<and> made_from E cfg ((old @ cells) ! i)"
    and "name \<notin> fst ` set cfgs \<Longrightarrow> \<exists>e. GetConsumer rs name = Inl e"
proof -
  note len = list_all2_lengthD [OF assms(1)]
  show "\<exists>i < n + length cells. GetConsumer rs name = Inr i \<and> made_from E cfg ((old @ cells) ! i)" if "(name, Some cfg) \<in> set cfgs"
  proof -
    from that obtain k where k: "k < length cfgs" "cfgs ! k = (name, Some cfg)" by (auto simp: in_set_conv_nth)
    then have "(map fst cfgs ! k, [n ..< n + length cfgs] ! k) \<in> set (consumers rs)"
      unfolding assms(3) by (auto simp: set_zip intro!: exI [of _ k])
    then have "map_of (consumers rs) name = Some (n + k)"
      using k assms(2) by (intro map_of_is_SomeI) (simp_all add: assms(3))
    moreover have "made_from E cfg ((old @ cells) ! (n + k))"
      using list_all2_nthD [OF assms(1) k(1)] k assms(4) by (simp add: nth_append)
    ultimately show ?thesis using k(1) len by (intro exI [of _ "n + k"]) (simp add: GetConsumer_def)
  qed
  show "\<exists>e. GetConsumer rs name = Inl e" if "name \<notin> fst ` set cfgs"
  proof -
    have "map_of (consumers rs) name = None" using that unfolding assms(3) map_of_eq_None_iff by (simp add: map_fst_zip [symmetric] flip: set_map)
    then show ?thesis by (simp add: GetConsumer_def)
  qed
qed

text \<open>The configurations after the construction: the derived key is stored, nothing else changes.\<close>

definition keyed ::
  "crypto_lib \<Rightarrow> string \<Rightarrow> string \<Rightarrow> nat \<Rightarrow> EncryptionConfig \<Rightarrow> RabbitSeasoning list \<Rightarrow> RabbitSeasoning list \<Rightarrow> bool" where
  "keyed L passphrase salt c ec confs confs' \<longleftrightarrow>
     (if enc_Enabled ec \<and> passphrase \<noteq> [] \<and> salt \<noteq> [] then
        \<exists>k. GetHashWithArgon L passphrase salt (TimeConsideration ec) (MemoryMultiplier ec) (Threads ec) 32 = Return (Some k) \<and>
            length k = 32 \<and> confs' = confs[c := (confs ! c)\<lparr>rs_EncryptionConfig := Some (ec\<lparr>Hashkey := k\<rparr>)\<rparr>]
      else confs' = confs)"

lemma derived_key:
  assumes "argon_law L" "passphrase \<noteq> []" "salt \<noteq> []"
  obtains k where "GetHashWithArgon L passphrase salt ti mu th 32 = Return (Some k)" "length k = 32"
proof -
  have "(if ti = 0 then 1 else ti) \<noteq> 0" "(if th = 0 then 1 else th) \<noteq> 0" by simp_all
  with assms obtain k where "argon2_IDKey L (bytes_of_string passphrase) (bytes_of_string salt) (if ti = 0 then 1 else ti) (mu * 1024)
      (if th = 0 then 1 else th) 32 = Return k" "length k = unat (32 :: uint32)"
    unfolding argon_law_def by blast
  with assms(2,3) that show ?thesis by (simp add: GetHashWithArgon_def Let_def)
qed

lemma configureEncryption_wp:
  assumes "c < length (confHeap s)" "rs_EncryptionConfig (confHeap s ! c) = Some ec" "argon_law L"
    "\<not> encryptionConfigured (service s)"
  shows "wp (configureEncryption L c passphrase salt) (\<lambda>_ t. \<exists>confs. keyed L passphrase salt c ec (confHeap s) confs \<and>
    t = s\<lparr>confHeap := confs, service := (service s)\<lparr>encryptionConfigured := (enc_Enabled ec \<and> passphrase \<noteq> [] \<and> salt \<noteq> [])\<rparr>\<rparr>) s"
proof (cases "enc_Enabled ec \<and> passphrase \<noteq> [] \<and> salt \<noteq> []")
  case True
  then have "passphrase \<noteq> []" "salt \<noteq> []" by simp_all
  from derived_key [OF assms(3) this] obtain k where
    k: "GetHashWithArgon L passphrase salt (TimeConsideration ec) (MemoryMultiplier ec) (Threads ec) 32 = Return (Some k)" "length k = 32"
    by metis
  with assms True show ?thesis by (simp add: configureEncryption_def wp_simps upd_svc_def keyed_def)
next
  case False
  have "service s = (service s)\<lparr>encryptionConfigured := False\<rparr>" using assms(4) by (cases "service s") simp
  then have "s = s\<lparr>service := (service s)\<lparr>encryptionConfigured := False\<rparr>\<rparr>" by (metis svc_st.surjective svc_st.update_convs(1))
  with assms False show ?thesis by (auto simp: configureEncryption_def wp_simps keyed_def)
qed

text \<open>The goroutines the constructor starts.\<close>

definition startedMonitors ::
  "(PublishReceipt option \<Rightarrow> 'w \<Rightarrow> 'w) option \<Rightarrow> (goerror option \<Rightarrow> 'w \<Rightarrow> 'w) option \<Rightarrow> 'w monitor list" where
  "startedMonitors onReceipt onError = [CollectConsumerErrors, MonitorForShutdown,
     (if onReceipt = None then ProcessPublishReceipts else InvokeProcessPublishReceipts (the onReceipt)),
     (if onError = None then ProcessErrors else InvokeProcessError (the onError))]"

text \<open>
  C22: what the constructor of the service does, for a configuration with encryption settings. A nil consumer
  configuration makes it panic. Otherwise every configured consumer can be retrieved under its name, made
  from its own configuration and stopped, and every other name is an error; exactly if encryption is enabled
  and a passphrase and a salt are given, the 32 byte key derived from them is stored in the encryption
  settings, which are otherwise unchanged; the goroutines that were started are the error collector, the
  shutdown monitor and, for receipts and for errors, the one with the caller's function or else the
  default one; and the auto publisher is running.
\<close>

theorem NewRabbitServiceWithPublisher_wired:
  assumes "c < length (confHeap s)" "rs_EncryptionConfig (confHeap s ! c) = Some ec"
    "distinct (map fst (rs_ConsumerConfigs (confHeap s ! c)))"
    "argon_law L"
  shows "if None \<in> snd ` set (rs_ConsumerConfigs (confHeap s ! c)) then
      \<exists>t. NewRabbitServiceWithPublisher E L c passphrase salt onReceipt onError s = Some (Panicked NilDereference, t)
    else wp (NewRabbitServiceWithPublisher E L c passphrase salt onReceipt onError) (\<lambda>err t. err = None \<and>
      (\<forall>name cfg. (name, Some cfg) \<in> set (rs_ConsumerConfigs (confHeap s ! c)) \<longrightarrow>
         (\<exists>i < length (conCells t). GetConsumer (service t) name = Inr i \<and> made_from E cfg (conCells t ! i))) \<and>
      (\<forall>name. name \<notin> fst ` set (rs_ConsumerConfigs (confHeap s ! c)) \<longrightarrow> (\<exists>e. GetConsumer (service t) name = Inl e)) \<and>
      keyed L passphrase salt c ec (confHeap s) (confHeap t) \<and>
      encryptionConfigured (service t) = (enc_Enabled ec \<and> passphrase \<noteq> [] \<and> salt \<noteq> []) \<and>
      monitors t = monitors s @ startedMonitors onReceipt onError \<and>
      autoStarted (publisher t) \<and> loops t = (if autoStarted (publisher s) then loops s else loops s @ [LoopSelect])) s"
proof (cases "None \<in> snd ` set (rs_ConsumerConfigs (confHeap s ! c))")
  case True
  from createConsumers_nil [OF this, of E "s\<lparr>service := newService c\<rparr>"] True assms(1) show ?thesis
    by (auto simp: NewRabbitServiceWithPublisher_def upd_svc_def conf_at_def go_prims)
next
  case False
  let ?cfgs = "rs_ConsumerConfigs (confHeap s ! c)" and ?s = "s\<lparr>service := newService c\<rparr>"
  have "fst ` set ?cfgs \<inter> fst ` set (consumers (service ?s)) = {}" by (simp add: newService_def)
  note cc = createConsumers_wp [OF assms(3) False this, of E]
  let ?wired = "\<lambda>t. (\<forall>name cfg. (name, Some cfg) \<in> set ?cfgs \<longrightarrow>
        (\<exists>i < length (conCells t). GetConsumer (service t) name = Inr i \<and> made_from E cfg (conCells t ! i))) \<and>
      (\<forall>name. name \<notin> fst ` set ?cfgs \<longrightarrow> (\<exists>e. GetConsumer (service t) name = Inl e))"
  have cfgs: "wp (createConsumers E ?cfgs) (\<lambda>err t. err = None \<and> confHeap t = confHeap s \<and> \<not> encryptionConfigured (service t) \<and>
      monitors t = monitors s \<and> publisher t = publisher s \<and> loops t = loops s \<and> ?wired t) ?s"
  proof (rule wp_mono [OF cc], elim conjE exE)
    fix err t w cells
    assume err: "err = None" and cells: "list_all2 (\<lambda>cfg c. made_from E (the (snd cfg)) c) ?cfgs cells" and
      t: "t = ?s\<lparr>world := w, service := (service ?s)\<lparr>consumers := consumers (service ?s) @
        zip (map fst ?cfgs) [length (conCells ?s) ..< length (conCells ?s) + length ?cfgs]\<rparr>, conCells := conCells ?s @ cells\<rparr>"
    have c: "consumers (service t) = zip (map fst ?cfgs) [length (conCells s) ..< length (conCells s) + length ?cfgs]"
      by (simp add: t newService_def)
    have "conCells t = conCells s @ cells" by (simp add: t)
    with createConsumers_names [OF cells assms(3) c refl] have "?wired t" by simp
    with err show "err = None \<and> confHeap t = confHeap s \<and> \<not> encryptionConfigured (service t) \<and> monitors t = monitors s \<and>
        publisher t = publisher s \<and> loops t = loops s \<and> ?wired t"
      by (simp add: t newService_def)
  qed
  have s: "wp (conf_at c) (\<lambda>conf t. conf = confHeap s ! c \<and> t = ?s) ?s" using assms(1) by (simp add: wp_simps)
  have mon: "[CollectConsumerErrors, MonitorForShutdown,
      (case onReceipt of Some f \<Rightarrow> InvokeProcessPublishReceipts f | None \<Rightarrow> ProcessPublishReceipts),
      (case onError of Some f \<Rightarrow> InvokeProcessError f | None \<Rightarrow> ProcessErrors)] = startedMonitors onReceipt onError"
    by (simp add: startedMonitors_def split: option.split)
  show ?thesis
    unfolding if_not_P [OF False] NewRabbitServiceWithPublisher_def upd_svc_def mon
  proof (simp only: wp_bind [of "modify_go f" for f] wp_modify, rule wp_seq [OF s], elim conjE, hypsubst, rule wp_seq [OF cfgs], elim conjE, goal_cases)
    case (1 conf u err t)
    have "c < length (confHeap t)" "rs_EncryptionConfig (confHeap t ! c) = Some ec" using 1 assms(1,2) by simp_all
    note e = configureEncryption_wp [OF this assms(4) \<open>\<not> encryptionConfigured (service t)\<close>]
    show ?case
      using 1 by (auto simp: wp_simps StartAutoPublishing_def upd_pub_def GetConsumer_def intro!: wp_mono [OF e])
  qed
qed

subsection \<open>Witnesses\<close>

definition seasoning :: RabbitSeasoning where
  "seasoning = \<lparr>rs_EncryptionConfig = Some aesConf, rs_CompressionConfig = None, rs_PoolConfig = None,
     rs_ConsumerConfigs = [(''orders'', Some consConf), (''audit'', Some (consConf\<lparr>cc_QueueName := ''log''\<rparr>))], rs_PublisherConfig = Some pubConf\<rparr>"

definition svc0 :: "(broker, qitem list) svc_st" where
  "svc0 = auto_st.extend (auto0\<lparr>confHeap := [seasoning]\<rparr>) \<lparr>service = newService 0, conCells = [], monitors = []\<rparr>"

lemma svc0_sel [simp]:
  "world svc0 = calm" "connHosts svc0 = [host0]" "chanHosts svc0 = [chan0]" "pool svc0 = pool pub0"
  "letterHeap svc0 = letterHeap pub0" "confHeap svc0 = [seasoning]" "publisher svc0 = publisher pub0" "receiptSenders svc0 = []"
  "service svc0 = newService 0" "conCells svc0 = []" "monitors svc0 = []"
  by (simp_all add: svc0_def auto_st.defs auto0_def pub_st.defs pub0_def)

lemma svc0_ready: "ready (\<lambda>q. q) svc0" "cacheBuf svc0 \<noteq> []" "receipts_ok svc0"
  using pub0_ready pub0_start
  by (simp_all add: svc0_def ready_def pool_inv_def heap_ok_def conn_live_def cache_ready_def cacheBuf_def receipts_ok_def
      auto_st.defs auto0_def pub_st.defs pub0_def host0_def openHost_def)

lemma confHeap_frame [simp]:
  "ready items (s\<lparr>confHeap := h\<rparr>) = ready items s" "cacheBuf (s\<lparr>confHeap := h\<rparr>) = cacheBuf s"
  "receipts_ok (s\<lparr>confHeap := h\<rparr>) = receipts_ok s"
  by (simp_all add: ready_def cache_ready_def cacheBuf_def receipts_ok_def pool_inv_def heap_ok_def conn_live_def)

theorem service_goroutines_after_shutdown_witness:
  "run_monitor scripted CollectConsumerErrors (svc0\<lparr>service := (newService 0)\<lparr>svc_shutdown := True\<rparr>\<rparr>) = None"
  by (subst service_goroutines_after_shutdown) (simp_all add: newService_def)

theorem retry_budget_witness: "wp (failures scripted 0 refused 9) (\<lambda>retries _. retries = 2) svc0"
proof -
  have "retry_ready 0 5 3 svc0"
    by (simp add: retry_ready_def empty_chan_def get_central_def newService_def newPublisher_def pub0_def defaultOpts_def seasoning_def
        pubConf_def)
  from retry_budget [OF this, of scripted refused 9] show ?thesis by simp
qed

theorem NewRabbitServiceWithPublisher_wired_witness:
  "wp (NewRabbitServiceWithPublisher scripted tagging 0 ''pass'' ''salt'' None None) (\<lambda>err t. err = None \<and>
     encryptionConfigured (service t) \<and> (\<exists>i. GetConsumer (service t) ''orders'' = Inr i \<and> made_from scripted consConf (conCells t ! i)) \<and>
     (\<exists>e. GetConsumer (service t) ''x'' = Inl e) \<and>
     (\<exists>k. length k = 32 \<and> rs_EncryptionConfig (confHeap t ! 0) = Some (aesConf\<lparr>Hashkey := k\<rparr>)) \<and>
     monitors t = [CollectConsumerErrors, MonitorForShutdown, ProcessPublishReceipts, ProcessErrors]) svc0"
proof -
  have c: "0 < length (confHeap svc0)" "rs_EncryptionConfig (confHeap svc0 ! 0) = Some aesConf"
    "distinct (map fst (rs_ConsumerConfigs (confHeap svc0 ! 0)))" "None \<notin> snd ` set (rs_ConsumerConfigs (confHeap svc0 ! 0))"
    by (simp_all add: seasoning_def)
  show ?thesis
  proof (rule wp_mono [OF NewRabbitServiceWithPublisher_wired [OF c(1-3) tagging_argon, unfolded if_not_P [OF c(4)]]],
      elim conjE, goal_cases)
    case (1 err t)
    have "(''orders'', Some consConf) \<in> set (rs_ConsumerConfigs (confHeap svc0 ! 0))"
      "''x'' \<notin> fst ` set (rs_ConsumerConfigs (confHeap svc0 ! 0))" by (simp_all add: seasoning_def)
    with 1(2,3) have "\<exists>i. GetConsumer (service t) ''orders'' = Inr i \<and> made_from scripted consConf (conCells t ! i)"
      "\<exists>e. GetConsumer (service t) ''x'' = Inl e" by blast+
    with 1(1,4-6) show ?case by (auto simp: aesConf_def keyed_def startedMonitors_def)
  qed
qed

lemma Service_Publish0:
  "wp (Service_Publish scripted plain_lib zeros_of 3 (BytesInput [9]) ''ex'' ''key'' [] (Some Map.empty))
     (\<lambda>err t. err = None) (svc0\<lparr>confHeap := [seasoning\<lparr>rs_EncryptionConfig := None\<rparr>]\<rparr>)"
  by (simp add: Service_Publish_def NewLetter_def serviceOpts_def ToPayload_def compressStage_def encryptStage_def cEnabled_def eEnabled_def
      zeros_of_def defaultOpts_def Publish_def GetChannelFromPool_def publishWithContext_def ReturnChannel_def publishReceipt_def wp_simps
      get_channels_def put_channels_def chan_send_def Let_def scripted_def seasoning_def newService_def
      pub0_def started1_def newPool_def newPublisher_def calm_def chan0_def openChan_def make_chan_def)

theorem Service_Publish_result_witness:
  "\<exists>t. Service_Publish scripted plain_lib zeros_of 3 (BytesInput [9]) ''ex'' ''key'' [] (Some Map.empty)
       (svc0\<lparr>confHeap := [seasoning\<lparr>rs_EncryptionConfig := None\<rparr>]\<rparr>) = Some (Return None, t) \<and>
     sent_letter (svc0\<lparr>confHeap := [seasoning\<lparr>rs_EncryptionConfig := None\<rparr>]\<rparr>) t [9] ((defaultOpts ''ex'' ''key'')\<lparr>Ctx := 3\<rparr>) None"
proof -
  let ?s = "svc0\<lparr>confHeap := [seasoning\<lparr>rs_EncryptionConfig := None\<rparr>]\<rparr>"
  obtain t where t: "Service_Publish scripted plain_lib zeros_of 3 (BytesInput [9]) ''ex'' ''key'' [] (Some Map.empty) ?s = Some (Return None, t)"
    using Service_Publish0 by (auto simp: wp_iff)
  have "ready (\<lambda>q. q) ?s" "cacheBuf ?s \<noteq> []" "receipts_ok ?s" "svc_Config (service ?s) < length (confHeap ?s)"
    using svc0_ready by (simp_all add: newService_def)
  from Service_Publish_result [OF scripted_channels this t refl] t show ?thesis
    by (auto simp: newService_def seasoning_def defaultOpts_def ToPayload_def compressStage_def encryptStage_def cEnabled_def eEnabled_def)
qed

end
