(* ===== verification/Spec2Isabelle.thy ===== *)
theory Spec2Isabelle
  imports FR_Service FR_Topologer
begin

text \<open>
  \<^bold>\<open>A verification library for friendlyrabbit\<close>, a Go library that puts a connection pool, publishers,
  consumers, topology building and a service object on top of an AMQP 0-9-1 client.

  \<^bold>\<open>The program.\<close> A pool (\<^verbatim>\<open>connectionpool.go\<close>) keeps connections (\<^verbatim>\<open>connectionhost.go\<close>) in a queue and
  channels (\<^verbatim>\<open>channelhost.go\<close>) in a buffered Go channel, checks connections when they are handed out
  and reconnects them in loops that end when the broker is back. The publisher (\<^verbatim>\<open>publisher.go\<close>) borrows
  cached or transient channels, publishes letters (\<^verbatim>\<open>message.go\<close>, whose bodies \<^verbatim>\<open>json.go\<close>,
  \<^verbatim>\<open>internal/utils/compression\<close> and \<^verbatim>\<open>internal/utils/crypto\<close> build) and reports on a receipts channel; its
  auto publisher drains a queue of letters with one goroutine per letter. The consumer (\<^verbatim>\<open>consumer.go\<close>)
  subscribes on a cached channel and hands deliveries to an action or a buffer. The topologer
  (\<^verbatim>\<open>topologer.go\<close>) declares exchanges, queues and bindings. The service (\<^verbatim>\<open>rabbitservice.go\<close>) owns one of
  each, forwards publishing calls, retries failed letters and shuts everything down.

  \<^bold>\<open>How Go is modelled\<close> (\<open>FR_Go\<close>, \<open>FR_Chan\<close>, \<open>FR_Env\<close>). A piece of code is a function of type
  \<open>('s, 'a) go\<close> from a state to a result and a state: \<open>Return\<close>, \<open>Panicked\<close> or \<open>Blocked\<close> (parked on a channel),
  or \<open>None\<close> when it runs for ever. A \<^verbatim>\<open>for\<close> loop without a bound is \<open>forever\<close>, a least fixed point, so there is
  no fuel: that a loop ends is proved by a decreasing measure, that it does not by \<open>forever_diverges\<close>.
  \<open>wp\<close> (it returns, and) and \<open>wlp\<close> (however it stops) carry the proofs. \<^verbatim>\<open>defer\<close>, \<^verbatim>\<open>recover\<close>, nil dereferences,
  sends on closed channels and failed type assertions are in the model; machine integers are words.
  Structs shared by pointer live in heaps (lists) of the state record, which each component extends
  by its own fields. Code outside the repository (the AMQP client with the network and the broker,
  the clock, files, the queue package, \<^verbatim>\<open>encoding/json\<close>, the codecs, ciphers and Argon2) is a parameter; a law
  about it (\<open>feed_law\<close>, \<open>channel_law\<close>, \<open>confirm_law\<close>, \<open>codec_law\<close>, \<open>aead_law\<close>, \<open>argon_law\<close>, \<open>fifo_queue\<close>) is a
  hypothesis of the theorems that need it (what is known of the zstd codec is limited to data that is not
  empty, and of the queue package that it panics on a size hint it cannot allocate), and \<open>FR_Broker\<close> gives a scripted broker in which the witnesses
  show that the hypotheses can hold.

  \<^bold>\<open>Theories.\<close>
  \<^item> \<open>FR_Go\<close>, \<open>FR_Chan\<close>: results, statement forms, loops, weakest preconditions, bounded channels (locale
    \<open>bounded_fifo\<close>), channels as fields of a state (locale \<open>chan_field\<close>), transition systems with an
    invariant (locale \<open>invariant_system\<close>), generic lemmas.
  \<^item> \<open>FR_Time\<close> (\<^verbatim>\<open>internal/utils/json\<close>): RFC 3339 time stamps. \<open>FR_Config\<close> (\<^verbatim>\<open>configs.go\<close>): configuration structs, TLS.
  \<^item> \<open>FR_ConnectionHost\<close>, \<open>FR_ChannelHost\<close>, \<open>FR_ConnectionPool\<close>: the pool and its hosts, every method.
    \<open>FR_PoolSafety\<close>: every method keeps the pool invariant on any network; the constructor panics exactly for
    sizes that cannot be allocated (\<open>sizes_fit\<close>). \<open>FR_PoolProgress\<close>: construction, recovery and health checks return
    when the network is healthy or an outage ends, and what a recovery touches. \<open>FR_PoolSession\<close>: any
    sequence of client calls, rotation of connections, shutdown, the branches of \<^verbatim>\<open>ReturnChannel\<close>, and what goes
    wrong (an outage without end, a closed notification channel).
  \<^item> \<open>FR_Compression\<close>, \<open>FR_Crypto\<close>, \<open>FR_Payload\<close>: payload building and reading (locales \<open>payload_stage\<close> and
    \<open>two_stages\<close>: stages with an inverse compose); round trips, no leak of plain data, usable keys,
    configuration files.
  \<^item> \<open>FR_Message\<close>: letters and their options, receipts, received messages (locale \<open>settlement\<close> for \<^verbatim>\<open>Acknowledge\<close>,
    \<^verbatim>\<open>Nack\<close> and \<^verbatim>\<open>Reject\<close>).
  \<^item> \<open>FR_PoolFrame\<close>, \<open>FR_Log\<close>: what code leaves alone, as a relation between start and end that is closed under
    composition (locale \<open>state_frame\<close>): the state of other components (\<open>keeps\<close>), and all of the pool but the
    channels a client uses and their connections (\<open>confined\<close>); and what the pool says to the broker
    (\<open>log_law\<close>). This is the interface between the pool and its clients.
  \<^item> \<open>FR_Publisher\<close>, \<open>FR_Publishing\<close>: construction, the publishing methods, receipts, queueing, stopping.
    \<open>FR_AutoPublish\<close>: the auto publisher as a machine of interleaved goroutines, with its invariant (order,
    bounds, receipts), and the crash on a restart after a stop.
  \<^item> \<open>FR_Topologer\<close>: every operation; building a topology is compared with the list of commands the configuration
    stands for (locale \<open>build_loop\<close>, interpreted four times).
  \<^item> \<open>FR_Consumer\<close>: the consumer as a machine of loops, clients (the exported flushes included) and broker; order
    of messages, the deadlock of \<^verbatim>\<open>StopConsuming\<close> and the one way out of it, the spin on a cancelled subscription.
  \<^item> \<open>FR_Service\<close>: the service on top of all of them; construction, publishing, the retry budget, its goroutines
    after a shutdown.

  \<^bold>\<open>Modelling choices.\<close> A method of the pool runs without interruption; in the two machines (auto
  publisher, consumer) goroutines interleave between the operations that can park or reach the broker.
  Mutexes are not state, except where a call keeps one while it waits (\<^verbatim>\<open>StopConsuming\<close>). The goroutine of
  \<^verbatim>\<open>publishReceipt\<close> runs where it is started and only its send may wait. A notification channel is read together
  with what the library pushed onto it since the last read (\<open>feed_Errors\<close> and its like). Maps that are
  iterated over are association lists in the order of the iteration.

  \<^bold>\<open>Not modelled.\<close> The data races of unlocked fields (\<^verbatim>\<open>rs.shutdown\<close>, \<^verbatim>\<open>autoStarted\<close> reads), for which Go gives no
  meaning; printed output; the pointer identity of nested configuration structs; the interleaving of
  the service's own goroutines with one another (their rounds are modelled, and what others do while
  \<^verbatim>\<open>Shutdown\<close> sleeps is a parameter); tests and examples.
\<close>

end
